(* ===== verification/Prelude.thy ===== *)
theory Prelude
  imports Main "HOL-Library.Word"
begin

text \<open>
  Shared vocabulary of the development: the machine integers of the Rust source, byte
  strings and their big-endian readings, and the outcome of a fallible Rust function.

  A Rust function of the program ends in one of three ways: it returns a value
  (\<open>Ok\<close>), it returns an error (\<open>Err\<close>, the \<open>?\<close> operator and \<open>ensure!\<close>), or it
  panics (\<open>Panic\<close>: an index or a slice out of range, a failed \<open>assert!\<close>, an
  \<open>unwrap\<close> or \<open>expect\<close> of nothing). The models index and slice through the checked
  operations below, so the absence of panics is a theorem and not a convention.
  A \<open>usize\<close> that is a length or an offset into a buffer is a \<open>nat\<close>: every such
  value in the source is bounded by a buffer length plus a 16-bit field.
\<close>

section \<open>Machine integers and byte strings\<close>

type_synonym u8 = "8 word"
type_synonym u16 = "16 word"
type_synonym u32 = "32 word"
type_synonym u64 = "64 word"
type_synonym u128 = "128 word"
type_synonym bytes = "u8 list"

named_theorems outcome_simps \<open>rewriting of sequenced fallible computations\<close>
named_theorems no_panic \<open>computations that never panic\<close>

text \<open>Big-endian byte strings: the low \<open>n\<close> bytes of a number and the number of a string.\<close>

primrec be_bytes :: "nat \<Rightarrow> nat \<Rightarrow> bytes" where
  "be_bytes 0 v = []"
| "be_bytes (Suc n) v = be_bytes n (v div 256) @ [of_nat v]"

definition be_value :: "bytes \<Rightarrow> nat" where
  "be_value bs = foldl (\<lambda>v b. v * 256 + unat b) 0 bs"

text \<open>\<open>usize::div_ceil\<close> of the standard library.\<close>

definition div_ceil :: "nat \<Rightarrow> nat \<Rightarrow> nat" where
  "div_ceil a b = (a + b - 1) div b"

lemma be_value_Nil [simp]: "be_value [] = 0"
  by (simp add: be_value_def)

lemma be_value_snoc [simp]: "be_value (bs @ [b]) = be_value bs * 256 + unat b"
  by (simp add: be_value_def)

lemma be_value_append: "be_value (xs @ ys) = be_value xs * 256 ^ length ys + be_value ys"
  by (induction ys rule: rev_induct)
    (simp_all add: append_assoc [symmetric] algebra_simps del: append_assoc)

lemma be_value_Cons: "be_value (b # bs) = unat b * 256 ^ length bs + be_value bs"
  using be_value_append [of "[b]" bs] by (simp add: be_value_def)

lemma length_be_bytes [simp]: "length (be_bytes n v) = n"
  by (induction n arbitrary: v) simp_all

lemma unat_u8_less [simp]: "unat (b :: u8) < 256"
  using unsigned_less [of b, where 'a = nat] by simp

lemma unat_u8_le [simp]: "unat (b :: u8) \<le> 255"
  using unat_u8_less [of b] by linarith

lemma unat_u16_less [simp]: "unat (w :: u16) < 65536"
  using unsigned_less [of w, where 'a = nat] by simp

lemma unat_of_nat_u8: "unat (of_nat n :: u8) = n mod 256"
  by (simp add: unat_of_nat)

lemma unat_of_nat_u16: "unat (of_nat n :: u16) = n mod 65536"
  by (simp add: unat_of_nat)

lemma be_value_less: "be_value bs < 256 ^ length bs"
proof (induction bs rule: rev_induct)
  case Nil
  show ?case by simp
next
  case (snoc b bs)
  have "be_value bs * 256 + unat b < (be_value bs + 1) * 256"
    by simp
  also have "\<dots> \<le> 256 ^ length bs * 256"
    using snoc by (intro mult_right_mono) simp_all
  finally show ?case by (simp add: mult.commute)
qed

lemma be_value_be_bytes: "be_value (be_bytes n v) = v mod 256 ^ n"
proof (induction n arbitrary: v)
  case 0
  show ?case by simp
next
  case (Suc n)
  have "be_value (be_bytes (Suc n) v) = v div 256 mod 256 ^ n * 256 + v mod 256"
    by (simp add: Suc unat_of_nat_u8)
  also have "\<dots> = v mod (256 * 256 ^ n)"
    by (simp add: mod_mult2_eq)
  finally show ?case by simp
qed

lemma be_bytes_be_value: "be_bytes (length bs) (be_value bs) = bs"
proof (induction bs rule: rev_induct)
  case (snoc b bs)
  have "unat (of_nat (be_value bs * 256 + unat b) :: u8) = unat b"
    by (simp only: unat_of_nat_u8) simp
  then have "(of_nat (be_value bs * 256 + unat b) :: u8) = b"
    by (simp only: word_unat_eq_iff)
  with snoc show ?case by simp
qed simp

lemma be_bytes_mod: "be_bytes n (v mod 256 ^ n) = be_bytes n v"
  using be_bytes_be_value [of "be_bytes n v"] by (simp add: be_value_be_bytes)

lemma take_be_bytes:
  "k \<le> n \<Longrightarrow> take k (be_bytes n v) = be_bytes k (v div 256 ^ (n - k))"
proof (induction n arbitrary: v)
  case 0
  then show ?case by simp
next
  case (Suc n)
  show ?case
  proof (cases "k = Suc n")
    case False
    with Suc.prems have "k \<le> n" by simp
    then have "take k (be_bytes (Suc n) v) = be_bytes k (v div 256 div 256 ^ (n - k))"
      using Suc.IH by simp
    also have "v div 256 div 256 ^ (n - k) = v div 256 ^ (Suc n - k)"
      using \<open>k \<le> n\<close> by (simp add: div_mult2_eq Suc_diff_le)
    finally show ?thesis .
  qed simp
qed

lemma be_value_replicate_0 [simp]: "be_value (replicate n 0) = 0"
  by (induction n) (simp_all add: be_value_Cons)

lemma div_ceil_8_le: "n \<le> 8 * k \<Longrightarrow> div_ceil n 8 \<le> k"
  unfolding div_ceil_def by linarith

lemma le_div_ceil_8: "n \<le> 8 * div_ceil n 8"
  unfolding div_ceil_def by linarith

text \<open>\<open>to_be_bytes\<close> and \<open>from_be_bytes\<close> at the widths the program uses.\<close>

definition u16_be :: "u16 \<Rightarrow> bytes" where
  "u16_be w = be_bytes 2 (unat w)"

definition u32_be :: "u32 \<Rightarrow> bytes" where
  "u32_be w = be_bytes 4 (unat w)"

lemma length_u16_be [simp]: "length (u16_be w) = 2"
  by (simp add: u16_be_def)

lemma length_u32_be [simp]: "length (u32_be w) = 4"
  by (simp add: u32_be_def)

lemma of_nat_be_value_u16_be [simp]: "(of_nat (be_value (u16_be w)) :: u16) = w"
  by (simp add: u16_be_def be_value_be_bytes)

lemma of_nat_be_value_u32_be [simp]: "(of_nat (be_value (u32_be w)) :: u32) = w"
  using unsigned_less [of w, where 'a = nat] by (simp add: u32_be_def be_value_be_bytes)

lemma u32_be_inject [simp]: "u32_be v = u32_be w \<longleftrightarrow> v = w"
  by (metis of_nat_be_value_u32_be)

lemma length_2_conv: "length xs = 2 \<longleftrightarrow> (\<exists>a b. xs = [a, b])"
  by (auto simp: numeral_2_eq_2 length_Suc_conv)

lemma length_4_conv: "length xs = 4 \<longleftrightarrow> (\<exists>a b c d. xs = [a, b, c, d])"
  by (auto simp: eval_nat_numeral length_Suc_conv)

lemma u16_be_Cons: "\<exists>a b. u16_be w = [a, b]"
  using length_u16_be [of w] by (simp only: length_2_conv)

lemma u32_be_Cons: "\<exists>a b c d. u32_be w = [a, b, c, d]"
  using length_u32_be [of w] by (simp only: length_4_conv)

lemma take_take_drop: "xs = take m xs @ take n (drop m xs) @ drop (m + n) xs"
  by (metis add.commute append_take_drop_id drop_drop)

section \<open>Outcomes of Rust functions\<close>

datatype ('e, 'a) outcome = Ok 'a | Err 'e | Panic

text \<open>Sequencing (the \<open>?\<close> operator): an error or a panic ends the computation.\<close>

primrec bindr :: "('e, 'a) outcome \<Rightarrow> ('a \<Rightarrow> ('e, 'b) outcome) \<Rightarrow> ('e, 'b) outcome" where
  "bindr (Ok x) f = f x"
| "bindr (Err e) f = Err e"
| "bindr Panic f = Panic"

lemma bindr_cong [fundef_cong]:
  assumes "m = m'" and "\<And>x. m' = Ok x \<Longrightarrow> f x = f' x"
  shows "bindr m f = bindr m' f'"
  using assms by (cases m') auto

lemma bindr_eq_Ok: "bindr m f = Ok y \<longleftrightarrow> (\<exists>x. m = Ok x \<and> f x = Ok y)"
  by (cases m) auto

lemma bindr_eq_Err: "bindr m f = Err e \<longleftrightarrow> m = Err e \<or> (\<exists>x. m = Ok x \<and> f x = Err e)"
  by (cases m) auto

lemma bindr_eq_Panic: "bindr m f = Panic \<longleftrightarrow> m = Panic \<or> (\<exists>x. m = Ok x \<and> f x = Panic)"
  by (cases m) auto

lemma bindr_no_panic [no_panic]:
  "m \<noteq> Panic \<Longrightarrow> (\<And>x. m = Ok x \<Longrightarrow> f x \<noteq> Panic) \<Longrightarrow> bindr m f \<noteq> Panic"
  by (cases m) auto

lemma bindr_assoc: "bindr (bindr m f) g = bindr m (\<lambda>x. bindr (f x) g)"
  by (cases m) simp_all

lemma bindr_Ok [simp]: "bindr m Ok = m"
  by (cases m) simp_all

text \<open>\<open>ensure!\<close> with its error, \<open>assert!\<close>, and \<open>expect\<close> of an option.\<close>

definition ensure :: "bool \<Rightarrow> 'e \<Rightarrow> ('e, unit) outcome" where
  "ensure c e = (if c then Ok () else Err e)"

definition assert_that :: "bool \<Rightarrow> ('e, unit) outcome" where
  "assert_that c = (if c then Ok () else Panic)"

definition expect :: "'a option \<Rightarrow> ('e, 'a) outcome" where
  "expect m = (case m of Some x \<Rightarrow> Ok x | None \<Rightarrow> Panic)"

text \<open>A sequence of \<open>ensure!\<close>s: the first condition that fails gives the error.\<close>

fun ensures :: "(bool \<times> 'e) list \<Rightarrow> ('e, unit) outcome" where
  "ensures [] = Ok ()"
| "ensures ((c, e) # cs) = (if c then ensures cs else Err e)"

text \<open>Indexing and slicing panic out of range.\<close>

definition index :: "'a list \<Rightarrow> nat \<Rightarrow> ('e, 'a) outcome" where
  "index xs i = (if i < length xs then Ok (xs ! i) else Panic)"

definition slice_range :: "'a list \<Rightarrow> nat \<Rightarrow> nat \<Rightarrow> ('e, 'a list) outcome" where
  "slice_range xs i j = (if i \<le> j \<and> j \<le> length xs then Ok (take (j - i) (drop i xs)) else Panic)"

definition slice_from :: "'a list \<Rightarrow> nat \<Rightarrow> ('e, 'a list) outcome" where
  "slice_from xs i = (if i \<le> length xs then Ok (drop i xs) else Panic)"

text \<open>Short-circuit conjunction: the right operand is evaluated only when the left one holds.\<close>

definition and_also :: "bool \<Rightarrow> ('e, bool) outcome \<Rightarrow> ('e, bool) outcome" where
  "and_also a m = (if a then m else Ok False)"

lemma ensure_eq_Ok [simp]: "ensure c e = Ok u \<longleftrightarrow> c"
  by (simp add: ensure_def)

lemma ensure_eq_Err [simp]: "ensure c e = Err e' \<longleftrightarrow> \<not> c \<and> e' = e"
  by (auto simp: ensure_def)

lemma ensure_no_panic [simp, no_panic]: "ensure c e \<noteq> Panic"
  by (simp add: ensure_def)

lemma ensure_True [simp]: "ensure True e = Ok ()"
  by (simp add: ensure_def)

lemma assert_that_eq_Ok [simp]: "assert_that c = Ok u \<longleftrightarrow> c"
  by (simp add: assert_that_def)

lemma assert_that_True [simp]: "assert_that True = Ok ()"
  by (simp add: assert_that_def)

lemma expect_eq_Ok [simp]: "expect m = Ok x \<longleftrightarrow> m = Some x"
  by (simp add: expect_def split: option.split)

lemma expect_Some [simp]: "expect (Some x) = Ok x"
  by (simp add: expect_def)

lemma ensures_eq_Ok: "ensures cs = Ok u \<longleftrightarrow> list_all fst cs"
  by (induction cs rule: ensures.induct) auto

lemma ensures_no_panic [simp, no_panic]: "ensures cs \<noteq> Panic"
  by (induction cs rule: ensures.induct) auto

lemma index_eq_Ok: "index xs i = Ok x \<longleftrightarrow> i < length xs \<and> x = xs ! i"
  by (auto simp: index_def)

lemma index_eq_Panic: "index xs i = Panic \<longleftrightarrow> length xs \<le> i"
  by (auto simp: index_def)

lemma index_not_Err [simp]: "index xs i \<noteq> Err e"
  by (simp add: index_def)

lemma slice_eq_Ok:
  "slice_range xs i j = Ok ys \<longleftrightarrow> i \<le> j \<and> j \<le> length xs \<and> ys = take (j - i) (drop i xs)"
  by (auto simp: slice_range_def)

lemma slice_eq_Panic: "slice_range xs i j = Panic \<longleftrightarrow> j < i \<or> length xs < j"
  by (auto simp: slice_range_def)

lemma slice_not_Err [simp]: "slice_range xs i j \<noteq> Err e"
  by (simp add: slice_range_def)

lemma slice_from_eq_Ok: "slice_from xs i = Ok ys \<longleftrightarrow> i \<le> length xs \<and> ys = drop i xs"
  by (auto simp: slice_from_def)

lemma slice_from_eq_Panic: "slice_from xs i = Panic \<longleftrightarrow> length xs < i"
  by (auto simp: slice_from_def)

lemma slice_from_not_Err [simp]: "slice_from xs i \<noteq> Err e"
  by (simp add: slice_from_def)

lemma index_Cons_0 [simp]: "index (x # xs) 0 = Ok x"
  by (simp add: index_def)

lemma index_Ok: "i < length xs \<Longrightarrow> index xs i = Ok (xs ! i)"
  by (simp add: index_def)

lemma slice_append [simp]: "length xs = n \<Longrightarrow> slice_range (xs @ ys) 0 n = Ok xs"
  by (auto simp: slice_range_def)

lemma slice_from_append [simp]: "length xs = n \<Longrightarrow> slice_from (xs @ ys) n = Ok ys"
  by (auto simp: slice_from_def)

lemma slice_mid: "length xs = i \<Longrightarrow> length ys = n \<Longrightarrow> j = i + n \<Longrightarrow> slice_range (xs @ ys @ zs) i j = Ok ys"
  by (auto simp: slice_range_def)

lemma and_also_simps [simp]: "and_also True m = m" "and_also False m = Ok False"
  by (simp_all add: and_also_def)

lemma and_also_eq_Ok: "and_also a m = Ok b \<longleftrightarrow> (if a then m = Ok b else \<not> b)"
  by (simp add: and_also_def)

lemma and_also_eq_Panic: "and_also a m = Panic \<longleftrightarrow> a \<and> m = Panic"
  by (simp add: and_also_def)

lemma and_also_eq_Err: "and_also a m = Err e \<longleftrightarrow> a \<and> m = Err e"
  by (simp add: and_also_def)

lemmas checked_eq_Ok = bindr_eq_Ok index_eq_Ok slice_eq_Ok slice_from_eq_Ok
lemmas checked_eq_Panic = bindr_eq_Panic index_eq_Panic slice_eq_Panic slice_from_eq_Panic
declare checked_eq_Ok [outcome_simps] checked_eq_Panic [outcome_simps] bindr_eq_Err [outcome_simps]

section \<open>Casts between widths\<close>

lemma signed_take_bit_small: "k < 2 ^ 31 \<Longrightarrow> signed_take_bit 31 (int k) = int k"
  by (intro signed_take_bit_int_eq_self) simp_all

text \<open>A \<open>usize\<close> of at most 1 GiB as \<open>i32\<close>, and an \<open>i32\<close> that is not negative as \<open>usize\<close>.\<close>

lemma i32_small:
  assumes "unat (w :: 32 word) < 2 ^ 31"
  shows "sint w = int (unat w)"
  using signed_take_bit_small [OF assms] unfolding sint_uint by simp

lemma usize_as_i32:
  assumes "unat (b :: u64) \<le> 2 ^ 30"
  shows "sint (ucast b :: 32 word) = int (unat b)"
proof -
  have "unat (ucast b :: 32 word) = unat b" using assms by (simp add: unsigned_ucast_eq take_bit_nat_eq_self)
  with assms i32_small [of "ucast b"] show ?thesis by simp
qed

lemma i32_as_usize:
  assumes "0 \<le> sint (w :: 32 word)"
  shows "unat (scast w :: u64) = nat (sint w)"
proof -
  have "sint w < 2 ^ 31" using sint_lt [of w] by simp
  then have "sint w < 2 ^ 64" by simp
  with assms have "sint w mod 2 ^ LENGTH(64) = sint w" by (intro mod_pos_pos_trivial) simp_all
  then have "uint (scast w :: u64) = sint w" unfolding scast_eq uint_word_of_int .
  then show ?thesis by (simp only: unat_eq_nat_uint)
qed

end
