(* ===== verification/Net.thy ===== *)
theory Net
  imports Prelude
begin

text \<open>
  Internet addresses of the Rust standard library (\<open>std::net\<close>) and the interface of the
  third-party crate \<open>ipnet\<close>.

  An \<open>Ipv4Addr\<close> is a 32-bit word and an \<open>Ipv6Addr\<close> a 128-bit word, most significant
  octet first. The crate \<open>ipnet\<close> is not part of the repository: its network type is the
  pair of an address and a prefix length that its accessors give, and its operations
  (\<open>new\<close>, \<open>network\<close>, \<open>trunc\<close>, \<open>contains\<close>) are a parameter of every definition that
  calls them. What the crate documents about them is the locale \<open>ipnet\<close>; theorems that
  depend on it carry \<open>ipnet N\<close> as a hypothesis.
\<close>

section \<open>Addresses\<close>

datatype ip_addr = V4 u32 | V6 u128

fun is_ipv4 :: "ip_addr \<Rightarrow> bool" where
  "is_ipv4 (V4 _) = True"
| "is_ipv4 (V6 _) = False"

definition is_ipv6 :: "ip_addr \<Rightarrow> bool" where
  "is_ipv6 a = (\<not> is_ipv4 a)"

lemma is_ipv6_simps [simp]: "is_ipv6 (V4 a) = False" "is_ipv6 (V6 b) = True"
  by (simp_all add: is_ipv6_def)

fun addr_bits :: "ip_addr \<Rightarrow> nat" where
  "addr_bits (V4 _) = 32"
| "addr_bits (V6 _) = 128"

definition octets_v4 :: "u32 \<Rightarrow> bytes" where
  "octets_v4 a = be_bytes 4 (unat a)"

definition octets_v6 :: "u128 \<Rightarrow> bytes" where
  "octets_v6 a = be_bytes 16 (unat a)"

definition ipv4_of_octets :: "bytes \<Rightarrow> u32" where
  "ipv4_of_octets bs = of_nat (be_value bs)"

definition ipv6_of_octets :: "bytes \<Rightarrow> u128" where
  "ipv6_of_octets bs = of_nat (be_value bs)"

text \<open>Predicates of \<open>std::net\<close>, on the leading bits of the address.\<close>

definition is_multicast_v4 :: "u32 \<Rightarrow> bool" where
  "is_multicast_v4 a = (unat a div 2 ^ 28 = 14)"

definition is_loopback_v4 :: "u32 \<Rightarrow> bool" where
  "is_loopback_v4 a = (unat a div 2 ^ 24 = 127)"

definition broadcast_v4 :: u32 where
  "broadcast_v4 = 0xFFFFFFFF"

definition is_multicast_v6 :: "u128 \<Rightarrow> bool" where
  "is_multicast_v6 a = (unat a div 2 ^ 120 = 0xFF)"

definition is_unicast_link_local :: "u128 \<Rightarrow> bool" where
  "is_unicast_link_local a = (unat a div 2 ^ 118 = 0x3FA)"

fun is_loopback :: "ip_addr \<Rightarrow> bool" where
  "is_loopback (V4 a) = is_loopback_v4 a"
| "is_loopback (V6 a) = (a = 1)"

lemma length_octets_v4 [simp]: "length (octets_v4 a) = 4"
  by (simp add: octets_v4_def)

lemma length_octets_v6 [simp]: "length (octets_v6 a) = 16"
  by (simp add: octets_v6_def)

lemma unat_u32_less: "unat (a :: u32) < 2 ^ 32"
  using unsigned_less [of a, where 'a = nat] by simp

lemma unat_u128_less: "unat (a :: u128) < 2 ^ 128"
  using unsigned_less [of a, where 'a = nat] by simp

lemma ipv4_of_octets_octets [simp]: "ipv4_of_octets (octets_v4 a) = a"
  using unat_u32_less [of a] by (simp add: ipv4_of_octets_def octets_v4_def be_value_be_bytes)

lemma ipv6_of_octets_octets [simp]: "ipv6_of_octets (octets_v6 a) = a"
  using unat_u128_less [of a] by (simp add: ipv6_of_octets_def octets_v6_def be_value_be_bytes)

section \<open>Networks: the interface of the crate ipnet\<close>

datatype ip_net = NetV4 u32 u8 | NetV6 u128 u8

fun net_addr :: "ip_net \<Rightarrow> ip_addr" where
  "net_addr (NetV4 a l) = V4 a"
| "net_addr (NetV6 a l) = V6 a"

fun net_prefix_len :: "ip_net \<Rightarrow> u8" where
  "net_prefix_len (NetV4 a l) = l"
| "net_prefix_len (NetV6 a l) = l"

fun mk_net :: "ip_addr \<Rightarrow> u8 \<Rightarrow> ip_net" where
  "mk_net (V4 a) l = NetV4 a l"
| "mk_net (V6 a) l = NetV6 a l"

lemma net_addr_mk_net [simp]: "net_addr (mk_net a l) = a"
  by (cases a) simp_all

lemma net_prefix_len_mk_net [simp]: "net_prefix_len (mk_net a l) = l"
  by (cases a) simp_all

lemma mk_net_addr_len [simp]: "mk_net (net_addr n) (net_prefix_len n) = n"
  by (cases n) simp_all

lemma net_eq_iff: "m = n \<longleftrightarrow> net_addr m = net_addr n \<and> net_prefix_len m = net_prefix_len n"
  by (cases m; cases n) auto

text \<open>Every network the crate builds has a prefix length within its address width.\<close>

definition net_wf :: "ip_net \<Rightarrow> bool" where
  "net_wf n = (unat (net_prefix_len n) \<le> addr_bits (net_addr n))"

text \<open>Clearing the host bits: all but the top \<open>l\<close> of \<open>w\<close> bits become zero.\<close>

definition mask_top :: "nat \<Rightarrow> nat \<Rightarrow> nat \<Rightarrow> nat" where
  "mask_top w l v = v div 2 ^ (w - l) * 2 ^ (w - l)"

fun mask_addr :: "ip_addr \<Rightarrow> nat \<Rightarrow> ip_addr" where
  "mask_addr (V4 a) l = V4 (of_nat (mask_top 32 l (unat a)))"
| "mask_addr (V6 a) l = V6 (of_nat (mask_top 128 l (unat a)))"

definition net_mask :: "ip_net \<Rightarrow> ip_net" where
  "net_mask n = mk_net (mask_addr (net_addr n) (unat (net_prefix_len n))) (net_prefix_len n)"

record ipnet_ops =
  net_new :: "ip_addr \<Rightarrow> u8 \<Rightarrow> ip_net option"
  net_network :: "ip_net \<Rightarrow> ip_addr"
  net_trunc :: "ip_net \<Rightarrow> ip_net"
  net_contains :: "ip_net \<Rightarrow> ip_net \<Rightarrow> bool"

lemma mask_top_le: "mask_top w l v \<le> v"
  by (simp add: mask_top_def)

lemma mask_top_idem [simp]: "mask_top w l (mask_top w l v) = mask_top w l v"
  by (simp add: mask_top_def)

lemma unat_mask_v4: "unat (of_nat (mask_top 32 l (unat (a :: u32))) :: u32) = mask_top 32 l (unat a)"
  using unat_u32_less [of a] mask_top_le [of 32 l "unat a"]
  by (simp add: unat_of_nat)

lemma unat_mask_v6: "unat (of_nat (mask_top 128 l (unat (a :: u128))) :: u128) = mask_top 128 l (unat a)"
  using unat_u128_less [of a] mask_top_le [of 128 l "unat a"]
  by (simp add: unat_of_nat)

lemma mask_addr_idem [simp]: "mask_addr (mask_addr a l) l = mask_addr a l"
  by (cases a) (simp_all only: mask_addr.simps unat_mask_v4 unat_mask_v6 mask_top_idem)

lemma is_ipv4_mask_addr [simp]: "is_ipv4 (mask_addr a l) = is_ipv4 a"
  by (cases a) simp_all

lemma is_ipv6_mask_addr [simp]: "is_ipv6 (mask_addr a l) = is_ipv6 a"
  by (simp add: is_ipv6_def)

lemma addr_bits_mask_addr [simp]: "addr_bits (mask_addr a l) = addr_bits a"
  by (cases a) simp_all

lemma net_addr_net_mask [simp]:
  "net_addr (net_mask n) = mask_addr (net_addr n) (unat (net_prefix_len n))"
  by (simp add: net_mask_def)

lemma net_prefix_len_net_mask [simp]: "net_prefix_len (net_mask n) = net_prefix_len n"
  by (simp add: net_mask_def)

lemma net_mask_idem [simp]: "net_mask (net_mask n) = net_mask n"
  by (simp add: net_mask_def)

lemma net_wf_net_mask [simp]: "net_wf (net_mask n) = net_wf n"
  by (simp add: net_wf_def)

lemma net_wf_v4 [simp]: "net_wf (NetV4 a l) \<longleftrightarrow> unat l \<le> 32"
  by (simp add: net_wf_def)

lemma net_wf_v6 [simp]: "net_wf (NetV6 a l) \<longleftrightarrow> unat l \<le> 128"
  by (simp add: net_wf_def)

text \<open>The documented behaviour of the crate's operations.\<close>

locale ipnet =
  fixes N :: ipnet_ops
  assumes new_spec: "net_new N a l = (if unat l \<le> addr_bits a then Some (mk_net a l) else None)"
    and network_spec: "net_wf n \<Longrightarrow> net_network N n = mask_addr (net_addr n) (unat (net_prefix_len n))"
    and trunc_spec: "net_wf n \<Longrightarrow> net_trunc N n = net_mask n"
    and contains_spec: "net_wf m \<Longrightarrow> net_wf n \<Longrightarrow> net_contains N m n \<longleftrightarrow>
      is_ipv4 (net_addr m) = is_ipv4 (net_addr n) \<and>
      unat (net_prefix_len m) \<le> unat (net_prefix_len n) \<and>
      mask_addr (net_addr n) (unat (net_prefix_len m)) =
        mask_addr (net_addr m) (unat (net_prefix_len m))"
begin

lemma network_trunc: "net_wf n \<Longrightarrow> net_network N n = net_addr (net_trunc N n)"
  by (simp add: network_spec trunc_spec)

lemma trunc_wf [simp]: "net_wf n \<Longrightarrow> net_wf (net_trunc N n)"
  by (simp add: trunc_spec)

lemma trunc_idem: "net_wf n \<Longrightarrow> net_trunc N (net_trunc N n) = net_trunc N n"
  by (simp add: trunc_spec)

text \<open>
  A network contains another of its own length exactly when they are the same network,
  host bits aside.
\<close>

lemma contains_same_length:
  assumes "net_wf m" and "net_wf n" and "net_prefix_len m = net_prefix_len n"
  shows "net_contains N m n \<longleftrightarrow> net_trunc N m = net_trunc N n"
proof -
  have "net_contains N m n \<longleftrightarrow> is_ipv4 (net_addr m) = is_ipv4 (net_addr n) \<and>
      mask_addr (net_addr n) (unat (net_prefix_len n)) = mask_addr (net_addr m) (unat (net_prefix_len n))"
    using assms by (simp add: contains_spec)
  moreover have "is_ipv4 (net_addr m) = is_ipv4 (net_addr n)"
    if "mask_addr (net_addr n) (unat (net_prefix_len n)) = mask_addr (net_addr m) (unat (net_prefix_len n))"
    using arg_cong [OF that, of is_ipv4] by simp
  ultimately show ?thesis
    using assms by (auto simp: trunc_spec net_mask_def net_eq_iff)
qed

lemma contains_family: "net_wf m \<Longrightarrow> net_wf n \<Longrightarrow> net_contains N m n \<Longrightarrow>
    is_ipv4 (net_addr m) = is_ipv4 (net_addr n)"
  by (simp add: contains_spec)

end

text \<open>
  A reference implementation that reads the documentation literally. The model never calls
  it; it shows that the interface can be implemented, and the witnesses evaluate with it.
\<close>

definition ipnet_ref :: ipnet_ops where
  "ipnet_ref = \<lparr>
     net_new = (\<lambda>a l. if unat l \<le> addr_bits a then Some (mk_net a l) else None),
     net_network = (\<lambda>n. mask_addr (net_addr n) (unat (net_prefix_len n))),
     net_trunc = net_mask,
     net_contains = (\<lambda>m n. is_ipv4 (net_addr m) = is_ipv4 (net_addr n) \<and>
       unat (net_prefix_len m) \<le> unat (net_prefix_len n) \<and>
       mask_addr (net_addr n) (unat (net_prefix_len m)) =
         mask_addr (net_addr m) (unat (net_prefix_len m)))\<rparr>"

interpretation ref: ipnet ipnet_ref
  by unfold_locales (simp_all add: ipnet_ref_def)

end
