(* ===== verification/Config.thy ===== *)
theory Config
  imports Net
begin

text \<open>
  The configuration of \<open>src/config.rs\<close>: the records the TOML file is read into, the
  export ACLs and their first-match semantics, the choice of next hops, the validation of
  a whole configuration, and the error location that replaces a parser message.

  The \<open>HashMap\<close> of ACLs is an association list in the order the map iterates; lookups go
  through \<open>map_of\<close>. The crates \<open>toml\<close> and \<open>serde\<close> are the parameter \<open>toml\<close> of
  \<open>parse\<close>, the file system the parameter \<open>read\<close> of \<open>load\<close>.
\<close>

section \<open>Data\<close>

type_synonym socket_addr = "ip_addr \<times> u16"

record management =
  enabled :: bool
  listen :: socket_addr

record kernel =
  tables :: "u32 list"
  receive_buffer_bytes :: u64
  refresh_interval_ms :: u64
  reconcile_interval_secs :: u64
  stale_timeout_secs :: u64
  dump_timeout_secs :: u64
  max_prefixes :: u64

datatype action = Permit | Deny

record rule =
  rule_action :: action
  rule_prefix :: ip_net
  min_length :: "u8 option"
  max_length :: "u8 option"

record acl =
  rules :: "rule list"

record peer =
  address :: ip_addr
  local_address :: ip_addr
  interface :: string
  remote_asn :: u32
  export_acl :: string
  md5_password :: "string option"
  peer_port :: u16
  hold_time_secs :: u16
  connect_timeout_secs :: u64
  write_timeout_secs :: u64
  peer_ipv6 :: bool
  peer_ipv4 :: bool
  next_hop_v4 :: "u32 option"
  next_hop_v6 :: "u128 option"
  next_hop_v6_link_local :: "u128 option"

record config =
  asn :: u32
  router_id :: u32
  cfg_ipv6 :: bool
  listen_port :: u16
  cfg_kernel :: kernel
  cfg_management :: management
  acls :: "(string \<times> acl) list"
  peers :: "peer list"

definition MAX_TIMEOUT_SECS :: u64 where
  "MAX_TIMEOUT_SECS = 24 * 60 * 60"

definition management_default :: management where
  "management_default = \<lparr>enabled = True, listen = (V4 0x7F000001, 65090)\<rparr>"

definition kernel_default :: kernel where
  "kernel_default = \<lparr>
     tables = [254],
     receive_buffer_bytes = 64 * 1024 * 1024,
     refresh_interval_ms = 250,
     reconcile_interval_secs = 300,
     stale_timeout_secs = 30,
     dump_timeout_secs = 10,
     max_prefixes = 2000000\<rparr>"

text \<open>Constants of the Linux ABI that \<open>libc\<close> exports.\<close>

definition TCP_MD5SIG_MAXKEYLEN :: nat where
  "TCP_MD5SIG_MAXKEYLEN = 80"

definition IFNAMSIZ :: nat where
  "IFNAMSIZ = 16"

section \<open>ACLs, addresses and next hops\<close>

definition unwrap_or :: "'a option \<Rightarrow> 'a \<Rightarrow> 'a" where
  "unwrap_or m d = (case m of Some x \<Rightarrow> x | None \<Rightarrow> d)"

definition rule_matches :: "ipnet_ops \<Rightarrow> rule \<Rightarrow> ip_net \<Rightarrow> bool" where
  "rule_matches N r p = (net_contains N (rule_prefix r) p \<and>
     net_prefix_len p \<ge> unwrap_or (min_length r) (net_prefix_len (rule_prefix r)) \<and>
     net_prefix_len p \<le> unwrap_or (max_length r) (net_prefix_len (rule_prefix r)))"

definition permits :: "ipnet_ops \<Rightarrow> acl \<Rightarrow> ip_net \<Rightarrow> bool" where
  "permits N a p = (case find (\<lambda>r. rule_matches N r p) (rules a) of
     Some r \<Rightarrow> rule_action r = Permit
   | None \<Rightarrow> False)"

definition valid_v4 :: "u32 \<Rightarrow> bool" where
  "valid_v4 a = (a \<noteq> 0 \<and> \<not> is_multicast_v4 a \<and> a \<noteq> broadcast_v4)"

definition valid_router_id :: "u32 \<Rightarrow> bool" where
  "valid_router_id i = (i \<noteq> 0)"

definition valid_v6 :: "u128 \<Rightarrow> bool" where
  "valid_v6 a = (a \<noteq> 0 \<and> \<not> is_multicast_v6 a)"

definition nh4 :: "peer \<Rightarrow> u32 option" where
  "nh4 p = (case next_hop_v4 p of Some a \<Rightarrow> Some a
     | None \<Rightarrow> (case local_address p of V4 a \<Rightarrow> Some a | V6 _ \<Rightarrow> None))"

definition nh6 :: "peer \<Rightarrow> u128 option" where
  "nh6 p = (case next_hop_v6 p of Some a \<Rightarrow> Some a
     | None \<Rightarrow> (case local_address p of V6 a \<Rightarrow> Some a | V4 _ \<Rightarrow> None))"

section \<open>Loading and validation\<close>

datatype cfg_error =
    ReadFailed string
  | ParseAt nat nat
  | ManagementNotLoopback | ManagementPortZero
  | BadLocalAsn | RouterIdZero | ListenPortZero | NoPeers
  | BadTables | BadReceiveBuffer | BadRefreshInterval | KernelTimeout string
  | DumpNotShorterThanStale | MaxPrefixesZero
  | EmptyAclName | AclHostBits string | AclLengthRange string
  | Md5KeyLength ip_addr | MissingAcl ip_addr string | BadPeerAsnOrPort
  | BadAddressPair | InvalidPeerAddress | InvalidLocalAddress | InvalidInterface
  | DuplicateEndpoint | BadHoldTime | PeerTimeout ip_addr string | NoFamily
  | Ipv6Disabled | BadNextHopV4 | BadNextHopV6 | BadLinkLocal

definition global_checks :: "config \<Rightarrow> (bool \<times> cfg_error) list" where
  "global_checks c = (let k = cfg_kernel c; m = cfg_management c in
    [(is_loopback (fst (listen m)), ManagementNotLoopback),
     (snd (listen m) \<noteq> 0, ManagementPortZero),
     (asn c \<noteq> 0 \<and> asn c \<noteq> 23456, BadLocalAsn),
     (valid_router_id (router_id c), RouterIdZero),
     (listen_port c \<noteq> 0, ListenPortZero),
     (peers c \<noteq> [], NoPeers),
     (tables k \<noteq> [] \<and> list_all (\<lambda>t. t \<noteq> 0) (tables k), BadTables),
     (65536 \<le> receive_buffer_bytes k \<and> receive_buffer_bytes k \<le> 1024 * 1024 * 1024, BadReceiveBuffer),
     (10 \<le> refresh_interval_ms k \<and> refresh_interval_ms k \<le> 60000, BadRefreshInterval)] @
    map (\<lambda>(name, seconds). (1 \<le> seconds \<and> seconds \<le> MAX_TIMEOUT_SECS, KernelTimeout name))
      [(''reconcile_interval_secs'', reconcile_interval_secs k),
       (''stale_timeout_secs'', stale_timeout_secs k),
       (''dump_timeout_secs'', dump_timeout_secs k)] @
    [(dump_timeout_secs k < stale_timeout_secs k, DumpNotShorterThanStale),
     (max_prefixes k > 0, MaxPrefixesZero)])"

definition rule_checks :: "ipnet_ops \<Rightarrow> string \<Rightarrow> rule \<Rightarrow> (bool \<times> cfg_error) list" where
  "rule_checks N name r = (let base = net_prefix_len (rule_prefix r);
       lo = unwrap_or (min_length r) base;
       hi = unwrap_or (max_length r) base;
       max = (if is_ipv4 (net_addr (rule_prefix r)) then 32 else 128)
     in [(rule_prefix r = net_trunc N (rule_prefix r), AclHostBits name),
         (base \<le> lo \<and> lo \<le> hi \<and> hi \<le> max, AclLengthRange name)])"

definition acl_checks :: "ipnet_ops \<Rightarrow> string \<times> acl \<Rightarrow> (bool \<times> cfg_error) list" where
  "acl_checks N na = (fst na \<noteq> [], EmptyAclName) #
     concat (map (rule_checks N (fst na)) (rules (snd na)))"

type_synonym peer_key = "ip_addr \<times> ip_addr \<times> string"

definition endpoint_key :: "peer \<Rightarrow> peer_key" where
  "endpoint_key p = (address p, local_address p, interface p)"

definition valid_ip :: "ip_addr \<Rightarrow> bool" where
  "valid_ip a = (case a of V4 x \<Rightarrow> valid_v4 x | V6 x \<Rightarrow> valid_v6 x)"

definition is_some_and :: "'a option \<Rightarrow> ('a \<Rightarrow> bool) \<Rightarrow> bool" where
  "is_some_and m f = (case m of Some x \<Rightarrow> f x | None \<Rightarrow> False)"

definition is_none_or :: "'a option \<Rightarrow> ('a \<Rightarrow> bool) \<Rightarrow> bool" where
  "is_none_or m f = (case m of Some x \<Rightarrow> f x | None \<Rightarrow> True)"

definition peer_checks :: "config \<Rightarrow> peer_key list \<Rightarrow> peer \<Rightarrow> (bool \<times> cfg_error) list" where
  "peer_checks c endpoints p =
    [(is_none_or (md5_password p) (\<lambda>key. 1 \<le> length key \<and> length key \<le> TCP_MD5SIG_MAXKEYLEN),
        Md5KeyLength (address p)),
     (map_of (acls c) (export_acl p) \<noteq> None, MissingAcl (address p) (export_acl p)),
     (remote_asn p \<noteq> 0 \<and> remote_asn p \<noteq> 23456 \<and> peer_port p \<noteq> 0, BadPeerAsnOrPort),
     (address p \<noteq> local_address p \<and> is_ipv4 (address p) = is_ipv4 (local_address p), BadAddressPair),
     (valid_ip (address p), InvalidPeerAddress),
     (valid_ip (local_address p), InvalidLocalAddress),
     (interface p \<noteq> [] \<and> length (interface p) < IFNAMSIZ \<and> CHR 0x00 \<notin> set (interface p), InvalidInterface),
     (endpoint_key p \<notin> set endpoints, DuplicateEndpoint),
     (hold_time_secs p = 0 \<or> hold_time_secs p \<ge> 3, BadHoldTime)] @
    map (\<lambda>(name, seconds). (1 \<le> seconds \<and> seconds \<le> MAX_TIMEOUT_SECS, PeerTimeout (address p) name))
      [(''connect_timeout_secs'', connect_timeout_secs p),
       (''write_timeout_secs'', write_timeout_secs p)] @
    [(peer_ipv4 p \<or> peer_ipv6 p, NoFamily),
     (cfg_ipv6 c \<or> (\<not> peer_ipv6 p \<and> is_ipv4 (address p) \<and>
        next_hop_v6 p = None \<and> next_hop_v6_link_local p = None), Ipv6Disabled),
     (\<not> peer_ipv4 p \<or> is_some_and (nh4 p) valid_v4, BadNextHopV4),
     (\<not> peer_ipv6 p \<or> is_some_and (nh6 p) (\<lambda>a. valid_v6 a \<and> \<not> is_unicast_link_local a), BadNextHopV6),
     (is_none_or (next_hop_v6_link_local p) is_unicast_link_local, BadLinkLocal)]"

text \<open>The loop over the peers, with the set of endpoints seen so far.\<close>

fun peers_checks :: "config \<Rightarrow> peer_key list \<Rightarrow> peer list \<Rightarrow> (bool \<times> cfg_error) list" where
  "peers_checks c endpoints [] = []"
| "peers_checks c endpoints (p # ps) =
     peer_checks c endpoints p @ peers_checks c (endpoint_key p # endpoints) ps"

definition validate :: "ipnet_ops \<Rightarrow> config \<Rightarrow> (cfg_error, unit) outcome" where
  "validate N c = ensures (global_checks c @ concat (map (acl_checks N) (acls c)) @
     peers_checks c [] (peers c))"

text \<open>\<open>Iterator::rposition\<close>: the index of the last element that satisfies the predicate.\<close>

definition rposition :: "('a \<Rightarrow> bool) \<Rightarrow> 'a list \<Rightarrow> nat option" where
  "rposition P xs = (let k = length (takeWhile (\<lambda>x. \<not> P x) (rev xs)) in
     if k < length xs then Some (length xs - 1 - k) else None)"

text \<open>
  \<open>toml\<close> stands for \<open>toml::from_str\<close>: the configuration, or an error with the start of
  its span.
\<close>

definition parse :: "(string \<Rightarrow> nat option + config) \<Rightarrow> string \<Rightarrow> (cfg_error, config) outcome" where
  "parse toml text = (case toml text of
     Inr c \<Rightarrow> Ok c
   | Inl span \<Rightarrow>
       (let start = min (unwrap_or span 0) (length text);
            before = take start text;
            line = length (filter (\<lambda>b. b = CHR 0x0A) before) + 1;
            column = (case rposition (\<lambda>b. b = CHR 0x0A) before of
              None \<Rightarrow> start + 1 | Some n \<Rightarrow> start - n)
        in Err (ParseAt line column)))"

definition load :: "ipnet_ops \<Rightarrow> (string \<Rightarrow> string option) \<Rightarrow> (string \<Rightarrow> nat option + config) \<Rightarrow>
    string \<Rightarrow> (cfg_error, config) outcome" where
  "load N read toml path = (case read path of
     None \<Rightarrow> Err (ReadFailed path)
   | Some text \<Rightarrow>
       bindr (parse toml text) (\<lambda>cfg.
       bindr (validate N cfg) (\<lambda>_. Ok cfg)))"

section \<open>What a valid configuration is\<close>

text \<open>The declarative reading of the validation, one conjunct per documented rule.\<close>

definition rule_ok :: "ipnet_ops \<Rightarrow> rule \<Rightarrow> bool" where
  "rule_ok N r = (rule_prefix r = net_trunc N (rule_prefix r) \<and>
     net_prefix_len (rule_prefix r) \<le> unwrap_or (min_length r) (net_prefix_len (rule_prefix r)) \<and>
     unwrap_or (min_length r) (net_prefix_len (rule_prefix r)) \<le>
       unwrap_or (max_length r) (net_prefix_len (rule_prefix r)) \<and>
     unat (unwrap_or (max_length r) (net_prefix_len (rule_prefix r))) \<le> addr_bits (net_addr (rule_prefix r)))"

definition timeout_ok :: "u64 \<Rightarrow> bool" where
  "timeout_ok s = (1 \<le> unat s \<and> unat s \<le> 86400)"

definition global_ok :: "config \<Rightarrow> bool" where
  "global_ok c = (is_loopback (fst (listen (cfg_management c))) \<and> snd (listen (cfg_management c)) \<noteq> 0 \<and>
     asn c \<notin> {0, 23456} \<and> router_id c \<noteq> 0 \<and> listen_port c \<noteq> 0 \<and> peers c \<noteq> [] \<and>
     tables (cfg_kernel c) \<noteq> [] \<and> 0 \<notin> set (tables (cfg_kernel c)) \<and>
     65536 \<le> unat (receive_buffer_bytes (cfg_kernel c)) \<and>
     unat (receive_buffer_bytes (cfg_kernel c)) \<le> 2 ^ 30 \<and>
     10 \<le> unat (refresh_interval_ms (cfg_kernel c)) \<and> unat (refresh_interval_ms (cfg_kernel c)) \<le> 60000 \<and>
     timeout_ok (reconcile_interval_secs (cfg_kernel c)) \<and>
     timeout_ok (stale_timeout_secs (cfg_kernel c)) \<and> timeout_ok (dump_timeout_secs (cfg_kernel c)) \<and>
     unat (dump_timeout_secs (cfg_kernel c)) < unat (stale_timeout_secs (cfg_kernel c)) \<and>
     0 < unat (max_prefixes (cfg_kernel c)))"

definition peer_ok :: "config \<Rightarrow> peer \<Rightarrow> bool" where
  "peer_ok c p = ((\<forall>key. md5_password p = Some key \<longrightarrow> length key \<in> {1..80}) \<and>
     export_acl p \<in> fst ` set (acls c) \<and>
     remote_asn p \<notin> {0, 23456} \<and> peer_port p \<noteq> 0 \<and>
     address p \<noteq> local_address p \<and> is_ipv4 (address p) = is_ipv4 (local_address p) \<and>
     valid_ip (address p) \<and> valid_ip (local_address p) \<and>
     length (interface p) \<in> {1..15} \<and> CHR 0x00 \<notin> set (interface p) \<and>
     unat (hold_time_secs p) \<notin> {1, 2} \<and>
     timeout_ok (connect_timeout_secs p) \<and> timeout_ok (write_timeout_secs p) \<and>
     (peer_ipv4 p \<or> peer_ipv6 p) \<and>
     (\<not> cfg_ipv6 c \<longrightarrow> \<not> peer_ipv6 p \<and> is_ipv4 (address p) \<and> next_hop_v6 p = None \<and>
        next_hop_v6_link_local p = None) \<and>
     (peer_ipv4 p \<longrightarrow> (\<exists>a. nh4 p = Some a \<and> valid_v4 a)) \<and>
     (peer_ipv6 p \<longrightarrow> (\<exists>a. nh6 p = Some a \<and> valid_v6 a \<and> \<not> is_unicast_link_local a)) \<and>
     (\<forall>a. next_hop_v6_link_local p = Some a \<longrightarrow> is_unicast_link_local a))"

definition config_ok :: "ipnet_ops \<Rightarrow> config \<Rightarrow> bool" where
  "config_ok N c = (global_ok c \<and>
     (\<forall>(name, a) \<in> set (acls c). name \<noteq> [] \<and> (\<forall>r \<in> set (rules a). rule_ok N r)) \<and>
     (\<forall>p \<in> set (peers c). peer_ok c p) \<and> distinct (map endpoint_key (peers c)))"

text \<open>The peering of \<open>examples/ubgp.toml\<close>, used by the witnesses.\<close>

definition example_acl :: acl where
  "example_acl = \<lparr>rules = [
     \<lparr>rule_action = Deny, rule_prefix = NetV4 0xCB007180 25, min_length = Some 25, max_length = Some 32\<rparr>,
     \<lparr>rule_action = Permit, rule_prefix = NetV4 0xC6336400 24, min_length = None, max_length = None\<rparr>,
     \<lparr>rule_action = Permit, rule_prefix = NetV4 0xCB007100 24, min_length = Some 26, max_length = Some 32\<rparr>]\<rparr>"

definition example_peer :: peer where
  "example_peer = \<lparr>address = V4 0xC0000202, local_address = V4 0xC0000201, interface = ''eth0'',
     remote_asn = 64513, export_acl = ''export'', md5_password = None, peer_port = 179,
     hold_time_secs = 90, connect_timeout_secs = 10, write_timeout_secs = 10,
     peer_ipv6 = False, peer_ipv4 = True,
     next_hop_v4 = None, next_hop_v6 = None, next_hop_v6_link_local = None\<rparr>"

definition example_config :: config where
  "example_config = \<lparr>asn = 64512, router_id = 0xC0000201, cfg_ipv6 = False, listen_port = 179,
     cfg_kernel = kernel_default, cfg_management = management_default,
     acls = [(''export'', example_acl)], peers = [example_peer]\<rparr>"

lemmas example_defs = example_acl_def example_peer_def example_config_def

section \<open>Library lemmas\<close>

lemma unwrap_or_simps [simp]: "unwrap_or None d = d" "unwrap_or (Some x) d = x"
  by (simp_all add: unwrap_or_def)

lemma is_some_and_iff [simp]: "is_some_and m f \<longleftrightarrow> (\<exists>x. m = Some x \<and> f x)"
  by (simp add: is_some_and_def split: option.split)

lemma is_none_or_iff [simp]: "is_none_or m f \<longleftrightarrow> (\<forall>x. m = Some x \<longrightarrow> f x)"
  by (simp add: is_none_or_def split: option.split)

lemma find_Some_split:
  "find P xs = Some x \<longleftrightarrow> (\<exists>pre post. xs = pre @ x # post \<and> P x \<and> (\<forall>y \<in> set pre. \<not> P y))"
proof (induction xs)
  case (Cons y ys)
  show ?case
  proof (cases "P y")
    case True
    then show ?thesis by (auto simp: Cons_eq_append_conv)
  next
    case False
    have "(\<exists>pre post. y # ys = pre @ x # post \<and> P x \<and> (\<forall>z \<in> set pre. \<not> P z)) \<longleftrightarrow>
        (\<exists>pre post. ys = pre @ x # post \<and> P x \<and> (\<forall>z \<in> set pre. \<not> P z))"
      using False by (auto simp: Cons_eq_append_conv) (metis set_ConsD)
    with False Cons.IH show ?thesis by simp
  qed
qed simp

lemma permits_iff:
  "permits N a p \<longleftrightarrow> (\<exists>pre r post. rules a = pre @ r # post \<and> rule_matches N r p \<and>
     rule_action r = Permit \<and> (\<forall>r' \<in> set pre. \<not> rule_matches N r' p))"
proof -
  have "permits N a p \<longleftrightarrow> (\<exists>r. find (\<lambda>r. rule_matches N r p) (rules a) = Some r \<and> rule_action r = Permit)"
    by (simp add: permits_def split: option.split)
  then show ?thesis
    by (simp only: find_Some_split) blast
qed

lemma permits_matches:
  "permits N a p \<Longrightarrow> \<exists>r \<in> set (rules a). rule_matches N r p \<and> rule_action r = Permit"
  by (auto simp: permits_def find_Some_iff split: option.splits)

lemma word_in_range: "(lo :: u64) \<le> x \<and> x \<le> hi \<longleftrightarrow> unat lo \<le> unat x \<and> unat x \<le> unat hi"
  by (simp add: word_le_nat_alt)

lemma timeout_check: "1 \<le> x \<and> x \<le> MAX_TIMEOUT_SECS \<longleftrightarrow> timeout_ok x"
  by (simp add: word_in_range timeout_ok_def MAX_TIMEOUT_SECS_def)

lemma global_checks_iff: "list_all fst (global_checks c) \<longleftrightarrow> global_ok c"
proof -
  have nz: "list_all (\<lambda>t. t \<noteq> 0) ts \<longleftrightarrow> 0 \<notin> set ts" for ts :: "u32 list"
    by (induction ts) auto
  show ?thesis
    unfolding global_checks_def global_ok_def Let_def
    by (simp only: list_all_append list.pred_inject list.map prod.case fst_conv word_in_range
        word_less_nat_alt valid_router_id_def nz timeout_ok_def MAX_TIMEOUT_SECS_def) simp
qed

lemma rule_checks_iff: "list_all fst (rule_checks N name r) \<longleftrightarrow> rule_ok N r"
  by (cases "net_addr (rule_prefix r)") (simp_all add: rule_checks_def rule_ok_def Let_def word_le_nat_alt)

lemma acl_checks_iff:
  "list_all fst (acl_checks N na) \<longleftrightarrow> fst na \<noteq> [] \<and> (\<forall>r \<in> set (rules (snd na)). rule_ok N r)"
proof -
  have "list_all fst (concat (map (rule_checks N name) rs)) \<longleftrightarrow> (\<forall>r \<in> set rs. rule_ok N r)"
    for name rs by (induction rs) (simp_all add: rule_checks_iff)
  then show ?thesis by (simp add: acl_checks_def)
qed

lemma hold_check: "(h :: u16) = 0 \<or> 3 \<le> h \<longleftrightarrow> unat h \<notin> {1, 2}"
  by (auto simp: word_le_nat_alt unat_eq_zero [symmetric])

lemma peer_checks_iff:
  "list_all fst (peer_checks c endpoints p) \<longleftrightarrow> peer_ok c p \<and> endpoint_key p \<notin> set endpoints"
proof -
  have acl: "map_of (acls c) (export_acl p) \<noteq> None \<longleftrightarrow> export_acl p \<in> fst ` set (acls c)"
    by (simp add: map_of_eq_None_iff)
  have key: "1 \<le> length key \<and> length key \<le> TCP_MD5SIG_MAXKEYLEN \<longleftrightarrow> length key \<in> {1..80}" for key :: string
    by (simp add: TCP_MD5SIG_MAXKEYLEN_def)
  have ifname: "interface p \<noteq> [] \<and> length (interface p) < IFNAMSIZ \<longleftrightarrow> length (interface p) \<in> {1..15}"
    by (cases "interface p") (auto simp: IFNAMSIZ_def)
  show ?thesis
    unfolding peer_checks_def peer_ok_def
    by (simp only: list_all_append list.pred_inject list.map prod.case fst_conv acl key is_none_or_iff
        is_some_and_iff timeout_check hold_check conj_assoc [symmetric] ifname)
      auto
qed

lemma peers_checks_iff:
  "list_all fst (peers_checks c endpoints ps) \<longleftrightarrow> (\<forall>p \<in> set ps. peer_ok c p) \<and>
     distinct (map endpoint_key ps) \<and> endpoint_key ` set ps \<inter> set endpoints = {}"
  by (induction ps arbitrary: endpoints) (auto simp: peer_checks_iff)

lemma validate_ok_iff: "validate N c = Ok () \<longleftrightarrow> config_ok N c"
proof -
  have "list_all fst (concat (map (acl_checks N) as)) \<longleftrightarrow>
      (\<forall>(name, a) \<in> set as. name \<noteq> [] \<and> (\<forall>r \<in> set (rules a). rule_ok N r))" for as
    by (induction as) (auto simp: acl_checks_iff)
  then show ?thesis
    by (simp add: validate_def ensures_eq_Ok global_checks_iff peers_checks_iff config_ok_def)
qed

lemma config_ok_peer: "config_ok N c \<Longrightarrow> p \<in> set (peers c) \<Longrightarrow> peer_ok c p"
  by (simp add: config_ok_def)

lemma rposition_less: "rposition P xs = Some n \<Longrightarrow> n < length xs"
  by (auto simp: rposition_def Let_def split: if_splits)

lemma newline_positions:
  assumes "map (\<lambda>c. c = CHR 0x0A) t = map (\<lambda>c. c = CHR 0x0A) t'"
  shows "length (filter (\<lambda>c. c = CHR 0x0A) (take n t)) = length (filter (\<lambda>c. c = CHR 0x0A) (take n t'))"
    and "rposition (\<lambda>c. c = CHR 0x0A) (take n t) = rposition (\<lambda>c. c = CHR 0x0A) (take n t')"
proof -
  let ?nl = "\<lambda>c. c = CHR 0x0A"
  have m: "map ?nl (take n t) = map ?nl (take n t')"
    using assms by (simp add: take_map [symmetric])
  have cnt: "length (filter ?nl xs) = length (filter id (map ?nl xs))" for xs :: string
    by (simp add: filter_map o_def)
  have tw: "length (takeWhile (\<lambda>x. \<not> ?nl x) (rev xs)) = length (takeWhile Not (rev (map ?nl xs)))" for xs :: string
    by (simp add: rev_map takeWhile_map o_def)
  show "length (filter ?nl (take n t)) = length (filter ?nl (take n t'))"
    by (simp only: cnt m)
  show "rposition ?nl (take n t) = rposition ?nl (take n t')"
    using map_eq_imp_length_eq [OF m] by (simp only: rposition_def tw m)
qed

context ipnet
begin

lemma rule_matches_exact:
  assumes "net_wf (rule_prefix r)" and "rule_ok N r" and "min_length r = None" and "max_length r = None"
    and "net_wf p" and "net_trunc N p = p"
  shows "rule_matches N r p \<longleftrightarrow> rule_prefix r = p"
proof -
  have "rule_matches N r p \<longleftrightarrow>
      net_contains N (rule_prefix r) p \<and> net_prefix_len (rule_prefix r) = net_prefix_len p"
    using assms(3,4) by (auto simp: rule_matches_def)
  also have "\<dots> \<longleftrightarrow> net_prefix_len (rule_prefix r) = net_prefix_len p \<and>
      net_trunc N (rule_prefix r) = net_trunc N p"
    using assms(1,5) contains_same_length by blast
  also have "\<dots> \<longleftrightarrow> rule_prefix r = p"
    using assms(2,6) by (auto simp: rule_ok_def)
  finally show ?thesis .
qed

lemma rule_matches_inside:
  assumes "net_wf (rule_prefix r)" and "net_wf p" and "rule_matches N r p"
  shows "is_ipv4 (net_addr p) = is_ipv4 (net_addr (rule_prefix r)) \<and>
    mask_addr (net_addr p) (unat (net_prefix_len (rule_prefix r))) =
      mask_addr (net_addr (rule_prefix r)) (unat (net_prefix_len (rule_prefix r))) \<and>
    unat (net_prefix_len (rule_prefix r)) \<le> unat (net_prefix_len p)"
  using assms by (auto simp: rule_matches_def contains_spec)

end

lemma example_config_ok: "config_ok ipnet_ref example_config"
proof -
  have "global_ok example_config"
    by (simp add: global_ok_def example_config_def management_default_def kernel_default_def timeout_ok_def
        is_loopback_v4_def)
  moreover have "\<forall>r \<in> set (rules example_acl). rule_ok ipnet_ref r"
    by (simp add: example_acl_def rule_ok_def ipnet_ref_def net_mask_def mask_top_def word_le_nat_alt)
  moreover have "peer_ok example_config example_peer"
    by (simp add: peer_ok_def example_defs valid_ip_def valid_v4_def is_multicast_v4_def broadcast_v4_def
        timeout_ok_def nh4_def)
  ultimately show ?thesis
    by (simp add: config_ok_def) (simp add: example_config_def)
qed

section \<open>Properties\<close>

text \<open>
  Export ACLs are ordered, the first matching rule decides, and what no rule matches is
  denied: a prefix is permitted exactly when some permit rule matches it and no earlier rule
  does.
\<close>

theorem acl_first_match:
  "permits N a p \<longleftrightarrow> (\<exists>pre r post. rules a = pre @ r # post \<and> rule_matches N r p \<and>
     rule_action r = Permit \<and> (\<forall>r' \<in> set pre. \<not> rule_matches N r' p))"
  by (rule permits_iff)

theorem acl_first_match_witness:
  "permits ipnet_ref example_acl (NetV4 0xCB007140 26) \<and>
   (\<exists>pre r post. rules example_acl = pre @ r # post \<and> rule_action r = Permit)"
proof -
  have "permits ipnet_ref example_acl (NetV4 0xCB007140 26)"
    by (simp add: permits_def example_acl_def rule_matches_def ipnet_ref_def mask_top_def)
  then show ?thesis using acl_first_match [of ipnet_ref example_acl "NetV4 0xCB007140 26"] by blast
qed

text \<open>
  Without a length range a rule matches its exact prefix only: an ACL made of such rules
  permits a prefix exactly when the first rule naming that very prefix is a permit rule, so
  permitting a network never permits its more-specifics or its parents.
\<close>

theorem acl_exact_without_range:
  assumes "ipnet N" and "net_wf p" and "net_trunc N p = p"
    and "\<forall>r \<in> set (rules a). net_wf (rule_prefix r) \<and> rule_ok N r \<and> min_length r = None \<and> max_length r = None"
  shows "permits N a p \<longleftrightarrow> (\<exists>pre r post. rules a = pre @ r # post \<and> rule_prefix r = p \<and>
    rule_action r = Permit \<and> p \<notin> rule_prefix ` set pre)"
proof -
  have "rule_matches N r p \<longleftrightarrow> rule_prefix r = p" if "r \<in> set (rules a)" for r
    using ipnet.rule_matches_exact [OF assms(1)] assms(2-4) that by blast
  then have "find (\<lambda>r. rule_matches N r p) (rules a) = find (\<lambda>r. rule_prefix r = p) (rules a)"
    by (intro find_cong refl) simp
  then have "permits N a p \<longleftrightarrow> (\<exists>r. find (\<lambda>r. rule_prefix r = p) (rules a) = Some r \<and> rule_action r = Permit)"
    by (simp add: permits_def split: option.split)
  moreover have "p \<notin> rule_prefix ` set pre \<longleftrightarrow> (\<forall>r \<in> set pre. rule_prefix r \<noteq> p)" for pre
    by auto
  ultimately show ?thesis
    by (simp only: find_Some_split) blast
qed

theorem acl_exact_without_range_witness:
  "permits ipnet_ref \<lparr>rules = [rules example_acl ! 1]\<rparr> (NetV4 0xC6336400 24) \<and>
   \<not> permits ipnet_ref \<lparr>rules = [rules example_acl ! 1]\<rparr> (NetV4 0xC6336480 25)"
proof -
  let ?a = "\<lparr>rules = [rules example_acl ! 1]\<rparr>"
  have all: "\<forall>r \<in> set (rules ?a). net_wf (rule_prefix r) \<and> rule_ok ipnet_ref r \<and>
      min_length r = None \<and> max_length r = None"
    by (simp add: example_acl_def rule_ok_def ipnet_ref_def net_mask_def mask_top_def)
  have "rule_prefix (rules example_acl ! 1) = NetV4 0xC6336400 24"
    "rule_action (rules example_acl ! 1) = Permit"
    by (simp_all add: example_acl_def)
  moreover have "net_trunc ipnet_ref (NetV4 0xC6336400 24) = NetV4 0xC6336400 24"
    "net_trunc ipnet_ref (NetV4 0xC6336480 25) = NetV4 0xC6336480 25"
    by (simp_all add: ipnet_ref_def net_mask_def mask_top_def)
  ultimately show ?thesis
    using acl_exact_without_range [OF ref.ipnet_axioms _ _ all, of "NetV4 0xC6336400 24"]
      acl_exact_without_range [OF ref.ipnet_axioms _ _ all, of "NetV4 0xC6336480 25"]
    by (auto simp: Cons_eq_append_conv)
qed

text \<open>
  A permitted prefix lies inside the network of some permit rule of its own address
  family, and its length is within that rule's range.
\<close>

theorem acl_permit_inside_rule:
  assumes "ipnet N" and "net_wf p" and "\<forall>r \<in> set (rules a). net_wf (rule_prefix r)" and "permits N a p"
  shows "\<exists>r \<in> set (rules a). rule_action r = Permit \<and>
    is_ipv4 (net_addr p) = is_ipv4 (net_addr (rule_prefix r)) \<and>
    mask_addr (net_addr p) (unat (net_prefix_len (rule_prefix r))) =
      mask_addr (net_addr (rule_prefix r)) (unat (net_prefix_len (rule_prefix r))) \<and>
    unwrap_or (min_length r) (net_prefix_len (rule_prefix r)) \<le> net_prefix_len p \<and>
    net_prefix_len p \<le> unwrap_or (max_length r) (net_prefix_len (rule_prefix r))"
proof -
  from assms(4) obtain r where r: "r \<in> set (rules a)" "rule_matches N r p" "rule_action r = Permit"
    using permits_matches by blast
  then have "is_ipv4 (net_addr p) = is_ipv4 (net_addr (rule_prefix r)) \<and>
    mask_addr (net_addr p) (unat (net_prefix_len (rule_prefix r))) =
      mask_addr (net_addr (rule_prefix r)) (unat (net_prefix_len (rule_prefix r)))"
    using ipnet.rule_matches_inside [OF assms(1)] assms(2,3) by blast
  with r show ?thesis by (auto simp: rule_matches_def)
qed

theorem acl_permit_inside_rule_witness:
  "permits ipnet_ref example_acl (NetV4 0xCB007140 26) \<and>
   (\<exists>r \<in> set (rules example_acl). rule_action r = Permit)"
proof -
  have "\<forall>r \<in> set (rules example_acl). net_wf (rule_prefix r)"
    by (simp add: example_acl_def)
  moreover have "permits ipnet_ref example_acl (NetV4 0xCB007140 26)"
    by (simp add: permits_def example_acl_def rule_matches_def ipnet_ref_def mask_top_def)
  ultimately show ?thesis
    using acl_permit_inside_rule [OF ref.ipnet_axioms, of "NetV4 0xCB007140 26" example_acl] by auto
qed

text \<open>
  C21: \<open>Config::validate\<close> accepts exactly the configurations that satisfy every documented
  rule: bounds on the global and kernel settings, truncated ACL prefixes with ordered length
  ranges, an existing export ACL, valid addresses, next hops and timeouts for every peer, and
  pairwise distinct peer endpoints.
\<close>

theorem validate_accepts_exactly: "validate N c = Ok () \<longleftrightarrow> config_ok N c"
  by (rule validate_ok_iff)

text \<open>
  The error that replaces a TOML parser message reveals nothing of the file but where its
  lines end: two texts with the same line structure and the same error span give the same
  error, whatever keys they contain.
\<close>

theorem parse_error_hides_source:
  assumes "map (\<lambda>c. c = CHR 0x0A) t = map (\<lambda>c. c = CHR 0x0A) t'"
    and "toml t = Inl span" and "toml t' = Inl span"
  shows "parse toml t = parse toml t' \<and> (\<exists>line column. parse toml t = Err (ParseAt line column) \<and>
    1 \<le> line \<and> 1 \<le> column)"
proof -
  have len: "length t = length t'"
    using assms(1) by (rule map_eq_imp_length_eq)
  show ?thesis
    using newline_positions [OF assms(1)]
    by (auto simp: parse_def assms(2,3) len Let_def Suc_le_eq dest: rposition_less split: option.split)
qed

theorem parse_error_hides_source_witness:
  "parse (\<lambda>_. Inl (Some 5)) ''a=1'' = parse (\<lambda>_. Inl (Some 5)) ''b=2''"
  using parse_error_hides_source [of "''a=1''" "''b=2''" "\<lambda>_. Inl (Some 5)" "Some 5"] by simp

text \<open>
  \<open>Config::load\<close> returns a configuration only when the file was read, parsed and
  validated, so the running daemon never holds an invalid configuration.
\<close>

theorem load_validated:
  "load N read toml path = Ok c \<longleftrightarrow>
     (\<exists>text. read path = Some text \<and> toml text = Inr c \<and> config_ok N c)"
  by (auto simp: load_def parse_def bindr_eq_Ok validate_ok_iff Let_def split: option.split sum.split)

end
