(* ===== verification/Wire_Frame.thy ===== *)
theory Wire_Frame
  imports Prelude
begin

text \<open>
  Message framing of \<open>src/wire.rs\<close>: protocol errors, the BGP header, NOTIFICATION
  messages and the reader that takes one message off a byte stream. An asynchronous
  reader is the list of the bytes it will deliver before end of file; \<open>read_exact\<close>
  fails with an early end of file, as the library's does.
\<close>

section \<open>Errors and constants\<close>

record protocol_error =
  pe_code :: u8
  pe_subcode :: u8
  pe_data :: bytes
  pe_reason :: string

text \<open>What an \<open>anyhow::Error\<close> of the BGP side can carry.\<close>

datatype error =
    Protocol protocol_error
  | PeerNotification u8 u8
  | PeerTruncatedNotification
  | UnexpectedEof
  | InvalidRefreshLength

definition MAX_MESSAGE :: nat where
  "MAX_MESSAGE = 4096"

definition MAX_UPDATE_PREFIXES :: nat where
  "MAX_UPDATE_PREFIXES = 200"

definition KEEPALIVE :: u8 where
  "KEEPALIVE = 4"

definition UPDATE :: u8 where
  "UPDATE = 2"

definition ROUTE_REFRESH :: u8 where
  "ROUTE_REFRESH = 5"

definition err :: "u8 \<Rightarrow> u8 \<Rightarrow> string \<Rightarrow> error" where
  "err code subcode reason =
     Protocol \<lparr>pe_code = code, pe_subcode = subcode, pe_data = [], pe_reason = reason\<rparr>"

definition require :: "bool \<Rightarrow> u8 \<Rightarrow> u8 \<Rightarrow> string \<Rightarrow> (error, unit) outcome" where
  "require ok code subcode reason = (if ok then Ok () else Err (err code subcode reason))"

definition u16b :: "bytes \<Rightarrow> (error, u16) outcome" where
  "u16b b = bindr (index b 0) (\<lambda>x. bindr (index b 1) (\<lambda>y. Ok (of_nat (be_value [x, y]))))"

section \<open>Writing and reading one message\<close>

definition frame :: "u8 \<Rightarrow> bytes \<Rightarrow> (error, bytes) outcome" where
  "frame kind body =
     bindr (assert_that (length body + 19 \<le> MAX_MESSAGE)) (\<lambda>_.
     Ok (replicate 16 255 @ u16_be (of_nat (length body + 19)) @ [kind] @ body))"

definition notification :: "u8 \<Rightarrow> u8 \<Rightarrow> bytes \<Rightarrow> (error, bytes) outcome" where
  "notification code subcode data =
     bindr (slice_range data 0 (min (length data) (MAX_MESSAGE - 21))) (\<lambda>d.
     frame 3 ([code, subcode] @ d))"

definition read_exact :: "nat \<Rightarrow> bytes \<Rightarrow> (error, bytes \<times> bytes) outcome" where
  "read_exact n s = (if n \<le> length s then Ok (take n s, drop n s) else Err UnexpectedEof)"

definition valid_length :: "u8 \<Rightarrow> nat \<Rightarrow> bool" where
  "valid_length kind len =
     (if kind = 1 then len \<ge> 29
      else if kind = 2 then len \<ge> 23
      else if kind = 3 then len \<ge> 21
      else if kind = 4 then len = 19
      else if kind = 5 then len = 23
      else False)"

definition read_frame :: "bytes \<Rightarrow> (error, (u8 \<times> bytes) \<times> bytes) outcome" where
  "read_frame reader =
     bindr (read_exact 19 reader) (\<lambda>(header, reader).
     bindr (slice_range header 0 16) (\<lambda>marker.
     bindr (require (marker = replicate 16 255) 1 1 ''invalid marker'') (\<lambda>_.
     bindr (slice_range header 16 18) (\<lambda>lenb.
     bindr (u16b lenb) (\<lambda>l.
     let len = unat l in
     if \<not> (19 \<le> len \<and> len \<le> MAX_MESSAGE) then
       Err (Protocol \<lparr>pe_code = 1, pe_subcode = 2, pe_data = lenb, pe_reason = ''invalid message length''\<rparr>)
     else
     bindr (index header 18) (\<lambda>kind.
     if \<not> (1 \<le> kind \<and> kind \<le> 5) then
       Err (Protocol \<lparr>pe_code = 1, pe_subcode = 3, pe_data = [kind], pe_reason = ''invalid message type''\<rparr>)
     else if \<not> valid_length kind len then
       Err (Protocol \<lparr>pe_code = 1, pe_subcode = 2, pe_data = lenb,
         pe_reason = ''invalid length for message type''\<rparr>)
     else
     bindr (read_exact (len - 19) reader) (\<lambda>(body, reader).
     Ok ((kind, body), reader))))))))"

section \<open>Library lemmas\<close>

lemma require_eq_Ok [simp]: "require ok c s r = Ok u \<longleftrightarrow> ok"
  by (simp add: require_def)

lemma require_eq_Err [simp]: "require ok c s r = Err e \<longleftrightarrow> \<not> ok \<and> e = err c s r"
  by (auto simp: require_def)

lemma require_no_panic [simp, no_panic]: "require ok c s r \<noteq> Panic"
  by (simp add: require_def)

lemma require_True [simp]: "require True c s r = Ok ()"
  by (simp add: require_def)

lemma u16b_eq_Ok: "u16b b = Ok w \<longleftrightarrow> 2 \<le> length b \<and> w = of_nat (be_value (take 2 b))"
proof -
  have "take 2 b = [b ! 0, b ! 1]" if "2 \<le> length b"
    using that by (cases b; cases "tl b") (auto simp: numeral_2_eq_2)
  then show ?thesis by (auto simp: u16b_def bindr_eq_Ok index_eq_Ok)
qed

lemma u16b_eq_Panic: "u16b b = Panic \<longleftrightarrow> length b < 2"
  by (auto simp: u16b_def bindr_eq_Panic index_eq_Panic index_eq_Ok)

lemma u16b_not_Err [simp]: "u16b b \<noteq> Err e"
  by (simp add: u16b_def bindr_eq_Err)

lemma u16b_u16_be [simp]: "u16b (u16_be w @ rest) = Ok w"
  by (simp add: u16b_eq_Ok)

lemma u16b_u16_be_Nil [simp]: "u16b (u16_be w) = Ok w"
  using u16b_u16_be [of w "[]"] by simp

declare u16b_eq_Ok [outcome_simps] u16b_eq_Panic [outcome_simps]

lemma read_exact_eq_Ok: "read_exact n s = Ok r \<longleftrightarrow> n \<le> length s \<and> r = (take n s, drop n s)"
  by (auto simp: read_exact_def)

lemma read_exact_append [simp]: "length xs = n \<Longrightarrow> read_exact n (xs @ ys) = Ok (xs, ys)"
  by (auto simp: read_exact_def)

lemma read_exact_no_panic [simp, no_panic]: "read_exact n s \<noteq> Panic"
  by (simp add: read_exact_def)

lemma frame_Ok: "length body + 19 \<le> MAX_MESSAGE \<Longrightarrow>
    frame kind body = Ok (replicate 16 255 @ u16_be (of_nat (length body + 19)) @ [kind] @ body)"
  by (simp add: frame_def)

lemma frame_eq_Ok: "frame kind body = Ok pkt \<longleftrightarrow> length body + 19 \<le> MAX_MESSAGE \<and>
    pkt = replicate 16 255 @ u16_be (of_nat (length body + 19)) @ [kind] @ body"
  by (auto simp: frame_def bindr_eq_Ok)

lemma length_frame: "frame kind body = Ok pkt \<Longrightarrow> length pkt = length body + 19"
  by (auto simp: frame_eq_Ok)

lemma unat_frame_length: "n + 19 \<le> MAX_MESSAGE \<Longrightarrow> unat (of_nat (n + 19) :: u16) = n + 19"
  by (simp only: unat_of_nat_u16 MAX_MESSAGE_def) simp

text \<open>Lengths a body may have for its message type, the size limit included.\<close>

definition body_ok :: "u8 \<Rightarrow> bytes \<Rightarrow> bool" where
  "body_ok kind body = (length body + 19 \<le> MAX_MESSAGE \<and> valid_length kind (length body + 19))"

lemma valid_length_kind: "valid_length kind n \<Longrightarrow> 1 \<le> kind \<and> kind \<le> 5"
  by (auto simp: valid_length_def split: if_splits)

lemma read_frame_frame:
  assumes "body_ok kind body" and "frame kind body = Ok pkt"
  shows "read_frame (pkt @ rest) = Ok ((kind, body), rest)"
proof -
  let ?len = "of_nat (length body + 19) :: u16"
  let ?hdr = "replicate 16 255 @ u16_be ?len @ [kind]"
  from assms have fits: "length body + 19 \<le> MAX_MESSAGE" and vl: "valid_length kind (length body + 19)"
    by (simp_all add: body_ok_def)
  have len: "unat ?len = length body + 19"
    using fits by (rule unat_frame_length)
  have pkt: "pkt @ rest = ?hdr @ body @ rest"
    using assms(2) by (simp add: frame_eq_Ok)
  have marker: "slice_range ?hdr 0 16 = Ok (replicate 16 255)"
    by (intro slice_append) simp
  have lenb: "slice_range ?hdr 16 18 = Ok (u16_be ?len)"
    by (rule slice_mid) simp_all
  have kind: "index ?hdr 18 = Ok kind"
    by (simp add: index_def nth_append)
  have hdr: "read_exact 19 (?hdr @ body @ rest) = Ok (?hdr, body @ rest)"
    by (rule read_exact_append) simp
  have "read_exact (length body) (body @ rest) = Ok (body, rest)"
    by simp
  with fits vl valid_length_kind [OF vl] show ?thesis
    unfolding pkt read_frame_def hdr
    by (simp only: bindr.simps prod.case marker lenb kind u16b_u16_be_Nil require_True len Let_def
        refl simp_thms if_False add_diff_cancel_right') simp
qed

lemma read_frame_inverse:
  assumes "read_frame s = Ok ((kind, body), rest)"
  shows "body_ok kind body \<and> (\<exists>pkt. frame kind body = Ok pkt \<and> s = pkt @ rest)"
proof -
  let ?h = "take 19 s" and ?t = "drop 19 s"
  let ?lenb = "take 2 (drop 16 ?h)"
  let ?len = "unat (of_nat (be_value ?lenb) :: u16)"
  from assms have len19: "19 \<le> length s" and marker: "take 16 ?h = replicate 16 255"
    and range: "19 \<le> ?len" "?len \<le> MAX_MESSAGE" and kind: "kind = ?h ! 18"
    and vl: "valid_length kind ?len" and body: "?len - 19 \<le> length ?t" "body = take (?len - 19) ?t"
    and rest: "rest = drop (?len - 19) ?t"
    unfolding read_frame_def
    by (auto simp: bindr_eq_Ok read_exact_eq_Ok slice_eq_Ok index_eq_Ok u16b_eq_Ok Let_def min_def
        split: if_splits)
  have blen: "length body + 19 = ?len"
    using body range by simp
  have lenb: "u16_be (of_nat (length body + 19)) = ?lenb"
  proof -
    have "length ?lenb = 2" using len19 by simp
    then have "be_bytes 2 (be_value ?lenb) = ?lenb"
      using be_bytes_be_value [of ?lenb] by simp
    moreover have "be_value ?lenb < 65536"
      using be_value_less [of ?lenb] \<open>length ?lenb = 2\<close> by simp
    ultimately show ?thesis
      unfolding blen by (simp add: u16_be_def unat_of_nat_u16)
  qed
  have "?h = take 16 ?h @ ?lenb @ [?h ! 18]"
  proof -
    have "?h = take 16 ?h @ take 2 (drop 16 ?h) @ drop 18 ?h"
      using take_take_drop [of ?h 16 2] by simp
    moreover have "drop 18 ?h = [?h ! 18]"
      using len19 by (subst Cons_nth_drop_Suc [symmetric]) simp_all
    ultimately show ?thesis by simp
  qed
  then have "s = take 16 ?h @ ?lenb @ [kind] @ ?t"
    by (metis append.assoc append_take_drop_id kind)
  also have "?t = body @ rest"
    by (simp only: body(2) rest append_take_drop_id)
  finally have "s = (replicate 16 255 @ u16_be (of_nat (length body + 19)) @ [kind] @ body) @ rest"
    by (simp only: marker lenb append.assoc)
  moreover have "body_ok kind body"
    unfolding body_ok_def blen using range vl by simp
  ultimately show ?thesis
    by (simp add: body_ok_def frame_Ok)
qed

lemma read_frame_no_panic [no_panic]: "read_frame s \<noteq> Panic"
  unfolding read_frame_def
  by (auto simp: bindr_eq_Panic bindr_eq_Ok read_exact_eq_Ok slice_eq_Ok slice_eq_Panic
      index_eq_Panic index_eq_Ok u16b_eq_Ok u16b_eq_Panic Let_def split: if_splits)

lemma notification_Ok:
  "notification code subcode data = frame 3 ([code, subcode] @ take 4075 data)"
  by (simp add: notification_def slice_range_def MAX_MESSAGE_def min_def)

lemma body_ok_notification: "body_ok 3 ([code, subcode] @ take 4075 data)"
  by (simp add: body_ok_def valid_length_def MAX_MESSAGE_def)

text \<open>
  The interface a byte stream of messages relies on: a message is read back from the front
  of a stream, and only the bytes of a message are read as that message. The client fact is
  that a stream determines the sequence of messages on it.
\<close>

locale framing =
  fixes put :: "'m \<Rightarrow> bytes"
    and get :: "bytes \<Rightarrow> ('m \<times> bytes) option"
    and valid :: "'m \<Rightarrow> bool"
  assumes get_put: "valid m \<Longrightarrow> get (put m @ rest) = Some (m, rest)"
    and put_get: "get s = Some (m, rest) \<Longrightarrow> valid m \<and> s = put m @ rest"
    and put_nonempty: "valid m \<Longrightarrow> put m \<noteq> []"
begin

lemma stream_unique:
  assumes "list_all valid ms" and "list_all valid ms'"
    and "concat (map put ms) = concat (map put ms')"
  shows "ms = ms'"
  using assms
proof (induction ms arbitrary: ms')
  case Nil
  then show ?case by (cases ms') (auto simp: put_nonempty)
next
  case (Cons m ms)
  from Cons.prems put_nonempty obtain m' ms'' where ms': "ms' = m' # ms''"
    by (cases ms') auto
  have "valid m" and "valid m'"
    using Cons.prems(1,2) ms' by simp_all
  have eq: "put m @ concat (map put ms) = put m' @ concat (map put ms'')"
    using Cons.prems(3) ms' by simp
  have "Some (m, concat (map put ms)) = get (put m @ concat (map put ms))"
    using \<open>valid m\<close> by (rule get_put [symmetric])
  also have "\<dots> = Some (m', concat (map put ms''))"
    unfolding eq using \<open>valid m'\<close> by (rule get_put)
  finally have "m = m'" and rest: "concat (map put ms) = concat (map put ms'')"
    by simp_all
  moreover have "ms = ms''"
    using Cons.prems(1,2) ms' by (intro Cons.IH [OF _ _ rest]) simp_all
  ultimately show ?case by (simp add: ms')
qed

end

text \<open>The program's own framing implements the interface.\<close>

definition frame_bytes :: "u8 \<times> bytes \<Rightarrow> bytes" where
  "frame_bytes m = (case (frame (fst m) (snd m) :: (error, bytes) outcome) of Ok pkt \<Rightarrow> pkt | _ \<Rightarrow> [])"

definition next_frame :: "bytes \<Rightarrow> ((u8 \<times> bytes) \<times> bytes) option" where
  "next_frame s = (case read_frame s of Ok r \<Rightarrow> Some r | _ \<Rightarrow> None)"

lemma frame_bytes_Ok: "body_ok k b \<Longrightarrow> frame k b = Ok (frame_bytes (k, b))"
  by (simp add: frame_bytes_def body_ok_def frame_Ok)

lemma read_frame_bytes: "body_ok k b \<Longrightarrow> read_frame (frame_bytes (k, b) @ rest) = Ok ((k, b), rest)"
  by (rule read_frame_frame [OF _ frame_bytes_Ok])

interpretation bgp: framing frame_bytes next_frame "\<lambda>m. body_ok (fst m) (snd m)"
proof
  fix m :: "u8 \<times> bytes" and rest
  assume "body_ok (fst m) (snd m)"
  then show "next_frame (frame_bytes m @ rest) = Some (m, rest)"
    by (cases m) (simp add: next_frame_def read_frame_bytes)
next
  fix s :: bytes and m :: "u8 \<times> bytes" and rest
  assume "next_frame s = Some (m, rest)"
  then have "read_frame s = Ok ((fst m, snd m), rest)"
    by (simp add: next_frame_def split: outcome.splits)
  from read_frame_inverse [OF this] show "body_ok (fst m) (snd m) \<and> s = frame_bytes m @ rest"
    by (cases m) (auto simp: frame_bytes_Ok)
next
  fix m :: "u8 \<times> bytes"
  assume "body_ok (fst m) (snd m)"
  then show "frame_bytes m \<noteq> []"
    by (cases m) (simp add: frame_bytes_def body_ok_def frame_Ok)
qed

section \<open>Properties\<close>

text \<open>
  C32: Reading inverts framing, in both directions and with any bytes following: a message
  with a length its type allows is read back unchanged, and whatever \<open>read_frame\<close> accepts
  is exactly the frame of the message it returns, so every accepted message is within 4096
  bytes and nothing of the stream is skipped or invented.
\<close>

theorem read_frame_iff_frame:
  "read_frame s = Ok ((kind, body), rest) \<longleftrightarrow>
     body_ok kind body \<and> (\<exists>pkt. frame kind body = Ok pkt \<and> s = pkt @ rest)"
  using read_frame_frame read_frame_inverse by blast

text \<open>
  The reader never panics, whatever bytes the peer sends.
\<close>

theorem read_frame_never_panics: "read_frame s \<noteq> Panic"
  by (rule read_frame_no_panic)

text \<open>
  The byte stream of a session determines its messages: two sequences of well-formed
  messages with the same bytes are the same sequence.
\<close>

theorem frames_unambiguous:
  assumes "list_all (\<lambda>m. body_ok (fst m) (snd m)) ms" and "list_all (\<lambda>m. body_ok (fst m) (snd m)) ms'"
    and "concat (map frame_bytes ms) = concat (map frame_bytes ms')"
  shows "ms = ms'"
  using assms by (rule bgp.stream_unique)

theorem frames_unambiguous_witness:
  "list_all (\<lambda>m. body_ok (fst m) (snd m)) [(KEEPALIVE, []), (UPDATE, [0, 0, 0, 0])] \<and>
   concat (map frame_bytes [(KEEPALIVE, [])]) \<noteq> concat (map frame_bytes [(KEEPALIVE, []), (UPDATE, [0, 0, 0, 0])])"
proof -
  have ok: "list_all (\<lambda>m. body_ok (fst m) (snd m)) [(KEEPALIVE, []), (UPDATE, [0, 0, 0, 0])]"
    "list_all (\<lambda>m. body_ok (fst m) (snd m)) [(KEEPALIVE, [])]"
    by (simp_all add: body_ok_def valid_length_def KEEPALIVE_def UPDATE_def MAX_MESSAGE_def)
  show ?thesis using frames_unambiguous [OF ok(2) ok(1)] ok(1) by auto
qed

text \<open>
  A NOTIFICATION can be built from any error: the encoder never panics, cuts the error
  data so that the message stays within 4096 bytes, and the peer reads back the code, the
  subcode and the data that was kept.
\<close>

theorem notification_roundtrip:
  "\<exists>pkt. (notification code subcode data :: (error, bytes) outcome) = Ok pkt \<and> length pkt \<le> 4096 \<and>
     read_frame (pkt @ rest) = Ok ((3, [code, subcode] @ take 4075 data), rest)"
proof -
  let ?b = "[code, subcode] @ take 4075 data"
  have ok: "(frame 3 ?b :: (error, bytes) outcome) = Ok (frame_bytes (3, ?b))"
    by (rule frame_bytes_Ok [OF body_ok_notification])
  moreover have "read_frame (frame_bytes (3, ?b) @ rest) = Ok ((3, ?b), rest)"
    by (rule read_frame_bytes [OF body_ok_notification])
  moreover have "length (frame_bytes (3, ?b)) \<le> 4096"
    using length_frame [OF ok] by simp
  ultimately show ?thesis by (simp add: notification_Ok)
qed

end
