(* ===== verification/Wire_Open.thy ===== *)
theory Wire_Open
  imports Config Wire_Frame
begin

text \<open>
  OPEN messages of \<open>src/wire.rs\<close>: the encoder, the parser of optional parameters and
  capabilities (the two nested loops, with the extended length format of RFC 9072), and
  what the two sides of a session agree on.
\<close>

section \<open>Definitions\<close>

record negotiated =
  neg_router_id :: u32
  hold :: u16
  asn4 :: bool
  internal :: bool
  neg_ipv4 :: bool
  neg_ipv6 :: bool

text \<open>\<open>u16::try_from(asn).unwrap_or(23456)\<close>: the two-octet number, or AS_TRANS.\<close>

definition two_octet_asn :: "u32 \<Rightarrow> u16" where
  "two_octet_asn a = (if unat a < 65536 then of_nat (unat a) else 23456)"

definition open_caps :: "config \<Rightarrow> peer \<Rightarrow> bytes" where
  "open_caps cfg p = [65, 4] @ u32_be (asn cfg) @ [2, 0] @
     (if peer_ipv4 p then [1, 4, 0, 1, 0, 1] else []) @
     (if peer_ipv6 p then [1, 4, 0, 2, 0, 1] else [])"

definition open_body :: "config \<Rightarrow> peer \<Rightarrow> bytes" where
  "open_body cfg p = (let caps = open_caps cfg p in
     [4] @ u16_be (two_octet_asn (asn cfg)) @ u16_be (hold_time_secs p) @ octets_v4 (router_id cfg) @
     [of_nat (length caps + 2), 2, of_nat (length caps)] @ caps)"

definition open_msg :: "config \<Rightarrow> peer \<Rightarrow> (error, bytes) outcome" where
  "open_msg cfg p = frame 1 (open_body cfg p)"

text \<open>The variables the capability loop assigns.\<close>

record cap_state =
  cap_as4 :: "u32 option"
  cap_mp :: bool
  cap_v4 :: bool
  cap_v6 :: bool

definition cap_init :: cap_state where
  "cap_init = \<lparr>cap_as4 = None, cap_mp = False, cap_v4 = False, cap_v6 = False\<rparr>"

definition capability :: "u8 \<Rightarrow> bytes \<Rightarrow> cap_state \<Rightarrow> (error, cap_state) outcome" where
  "capability kind data st =
    (if kind = 1 then
       bindr (require (length data = 4) 2 0 ''invalid multiprotocol capability'') (\<lambda>_.
       let st = st\<lparr>cap_mp := True\<rparr> in
       bindr (index data 3) (\<lambda>safi.
       if safi = 1 then
         bindr (u16b data) (\<lambda>afi.
         Ok (st\<lparr>cap_v4 := cap_v4 st \<or> afi = 1, cap_v6 := cap_v6 st \<or> afi = 2\<rparr>))
       else Ok st))
     else if kind = 2 then
       bindr (require (data = []) 2 0 ''invalid route refresh capability'') (\<lambda>_. Ok st)
     else if kind = 65 then
       bindr (require (length data = 4) 2 0 ''invalid four-octet ASN capability'') (\<lambda>_.
       bindr (assert_that (length data = 4)) (\<lambda>_.
       let value = of_nat (be_value data) in
       bindr (require (is_none_or (cap_as4 st) (\<lambda>a. a = value)) 2 2 ''conflicting ASN capabilities'') (\<lambda>_.
       Ok (st\<lparr>cap_as4 := Some value\<rparr>))))
     else Ok st)"

function parse_caps :: "bytes \<Rightarrow> cap_state \<Rightarrow> (error, cap_state) outcome" where
  "parse_caps caps st =
    (if caps = [] then Ok st
     else
       bindr (and_also (2 \<le> length caps)
         (bindr (index caps 1) (\<lambda>l. Ok (unat l + 2 \<le> length caps)))) (\<lambda>ok.
       bindr (require ok 2 0 ''invalid capability length'') (\<lambda>_.
       bindr (index caps 1) (\<lambda>l.
       bindr (slice_range caps 2 (2 + unat l)) (\<lambda>data.
       bindr (index caps 0) (\<lambda>kind.
       bindr (capability kind data st) (\<lambda>st.
       bindr (slice_from caps (2 + unat l)) (\<lambda>caps.
       parse_caps caps st))))))))"
  by pat_completeness auto
termination
  by (relation "measure (\<lambda>(caps, st). length caps)") (auto simp: slice_from_eq_Ok)

declare parse_caps.simps [simp del]

function parse_params :: "bool \<Rightarrow> bytes \<Rightarrow> cap_state \<Rightarrow> (error, cap_state) outcome" where
  "parse_params extended params st =
    (if params = [] then Ok st
     else let parameter_header = (if extended then 3 else 2) in
       bindr (require (parameter_header \<le> length params) 2 0 ''short optional parameter header'') (\<lambda>_.
       bindr (if extended
              then bindr (slice_range params 1 3) (\<lambda>s. bindr (u16b s) (\<lambda>w. Ok (unat w)))
              else bindr (index params 1) (\<lambda>x. Ok (unat x))) (\<lambda>len.
       let end = parameter_header + len in
       bindr (require (end \<le> length params) 2 0 ''invalid optional parameter'') (\<lambda>_.
       bindr (index params 0) (\<lambda>kind.
       if kind \<noteq> 2 then
         bindr (slice_range params 0 end) (\<lambda>d.
         Err (Protocol \<lparr>pe_code = 2, pe_subcode = 4, pe_data = d,
           pe_reason = ''unsupported optional parameter''\<rparr>))
       else
       bindr (slice_range params parameter_header end) (\<lambda>caps.
       bindr (parse_caps caps st) (\<lambda>st.
       bindr (slice_from params end) (\<lambda>params.
       parse_params extended params st))))))))"
  by pat_completeness auto
termination
  by (relation "measure (\<lambda>(extended, params, st). length params)") (auto simp: slice_from_eq_Ok)

declare parse_params.simps [simp del]

text \<open>The final checks of \<open>parse_open\<close>, from the scanned capabilities.\<close>

definition negotiate :: "config \<Rightarrow> peer \<Rightarrow> u32 \<Rightarrow> u16 \<Rightarrow> u16 \<Rightarrow> cap_state \<Rightarrow> (error, negotiated) outcome" where
  "negotiate cfg p rid hold_time old_asn st =
     bindr (require (unwrap_or (cap_as4 st) (of_nat (unat old_asn)) = remote_asn p) 2 2 ''unexpected peer ASN'') (\<lambda>_.
     bindr (require ((of_nat (unat old_asn) :: u32) = of_nat (unat (two_octet_asn (remote_asn p)))) 2 2
       ''inconsistent two-octet peer ASN'') (\<lambda>_.
     let n = \<lparr>neg_router_id = rid,
              hold = min hold_time (hold_time_secs p),
              asn4 = (cap_as4 st \<noteq> None),
              internal = (asn cfg = remote_asn p),
              neg_ipv4 = (peer_ipv4 p \<and> (cap_v4 st \<or> \<not> cap_mp st)),
              neg_ipv6 = (peer_ipv6 p \<and> cap_v6 st)\<rparr> in
     if \<not> neg_ipv4 n \<and> \<not> neg_ipv6 n then
       Err (Protocol \<lparr>pe_code = 2, pe_subcode = 7,
         pe_data = (if peer_ipv4 p then [1, 4, 0, 1, 0, 1] else []) @
           (if peer_ipv6 p then [1, 4, 0, 2, 0, 1] else []),
         pe_reason = ''no common address family''\<rparr>)
     else Ok n))"

definition parse_open :: "bytes \<Rightarrow> config \<Rightarrow> peer \<Rightarrow> (error, negotiated) outcome" where
  "parse_open b cfg p =
     bindr (require (10 \<le> length b) 2 0 ''short OPEN'') (\<lambda>_.
     bindr (index b 0) (\<lambda>version.
     if version \<noteq> 4 then
       Err (Protocol \<lparr>pe_code = 2, pe_subcode = 1, pe_data = [0, 4], pe_reason = ''unsupported version''\<rparr>)
     else
     bindr (bindr (slice_range b 1 3) u16b) (\<lambda>old_asn.
     bindr (bindr (slice_range b 3 5) u16b) (\<lambda>hold_time.
     bindr (require (hold_time = 0 \<or> 3 \<le> hold_time) 2 6 ''unacceptable hold time'') (\<lambda>_.
     bindr (index b 5) (\<lambda>i0. bindr (index b 6) (\<lambda>i1. bindr (index b 7) (\<lambda>i2. bindr (index b 8) (\<lambda>i3.
     let rid = ipv4_of_octets [i0, i1, i2, i3] in
     bindr (require (valid_router_id rid \<and> (asn cfg \<noteq> remote_asn p \<or> rid \<noteq> router_id cfg)) 2 3
       ''invalid or duplicate router ID'') (\<lambda>_.
     bindr (index b 9) (\<lambda>opt_len.
     let extended = (opt_len \<noteq> 0 \<and> 10 < length b \<and> b ! 10 = 255) in
     bindr (if extended then
         bindr (require (13 \<le> length b) 2 0 ''short extended OPEN length'') (\<lambda>_.
         bindr (bindr (slice_range b 11 13) u16b) (\<lambda>l.
         bindr (require (unat l + 13 = length b) 2 0 ''invalid extended OPEN parameter length'') (\<lambda>_.
         slice_from b 13)))
       else
         bindr (require (unat opt_len + 10 = length b) 2 0 ''invalid OPEN parameter length'') (\<lambda>_.
         slice_from b 10)) (\<lambda>params.
     bindr (parse_params extended params cap_init) (\<lambda>st.
     negotiate cfg p rid hold_time old_asn st)))))))))))))"

section \<open>Library lemmas\<close>

text \<open>What every error of the parser is: a protocol error of the OPEN class.\<close>

definition open_error :: "error \<Rightarrow> bool" where
  "open_error e = (\<exists>pe. e = Protocol pe \<and> pe_code pe = 2)"

lemma open_error_err [simp]: "open_error (err 2 s r)"
  by (simp add: open_error_def err_def)

lemma capability_no_panic [no_panic]: "capability kind data st \<noteq> Panic"
  by (auto simp: capability_def outcome_simps Let_def split: if_splits)

lemma capability_error: "capability kind data st = Err e \<Longrightarrow> open_error e"
  by (auto simp: capability_def outcome_simps Let_def split: if_splits)

lemma parse_caps_Nil [simp]: "parse_caps [] st = Ok st"
  by (subst parse_caps.simps) simp

lemma parse_caps_step:
  assumes "caps \<noteq> []"
  shows "parse_caps caps st =
    (if 2 \<le> length caps \<and> unat (caps ! 1) + 2 \<le> length caps
     then bindr (capability (caps ! 0) (take (unat (caps ! 1)) (drop 2 caps)) st)
       (parse_caps (drop (2 + unat (caps ! 1)) caps))
     else Err (err 2 0 ''invalid capability length''))"
  using assms by (subst parse_caps.simps)
    (auto simp: and_also_def index_def slice_range_def slice_from_def require_def)

lemma parse_caps_no_panic [no_panic]: "parse_caps caps st \<noteq> Panic"
proof (induction "length caps" arbitrary: caps st rule: less_induct)
  case less
  show ?case
  proof (cases "caps = []")
    case False
    then show ?thesis
      by (auto simp: parse_caps_step less bindr_eq_Panic capability_no_panic)
  qed simp
qed

lemma parse_caps_error: "parse_caps caps st = Err e \<Longrightarrow> open_error e"
proof (induction "length caps" arbitrary: caps st rule: less_induct)
  case less
  then have "caps \<noteq> []" by auto
  then show ?case
    using less.prems less.hyps [of "drop (2 + unat (caps ! 1)) caps"]
    by (auto simp: parse_caps_step bindr_eq_Err capability_error split: if_splits)
qed

text \<open>One capability at the front: its code, its length and its value.\<close>

lemma parse_caps_Cons:
  assumes "length data = unat l"
  shows "parse_caps ([k, l] @ data @ rest) st = bindr (capability k data st) (parse_caps rest)"
  using assms by (simp add: parse_caps_step)

lemma parse_params_Nil [simp]: "parse_params ext [] st = Ok st"
  by (subst parse_params.simps) simp

text \<open>The header length and the payload length of the first parameter.\<close>

definition param_header :: "bool \<Rightarrow> nat" where
  "param_header ext = (if ext then 3 else 2)"

definition param_len :: "bool \<Rightarrow> bytes \<Rightarrow> nat" where
  "param_len ext ps = (if ext then unat (of_nat (be_value (take 2 (drop 1 ps))) :: u16) else unat (ps ! 1))"

lemma parse_params_step:
  assumes "ps \<noteq> []"
  shows "parse_params ext ps st =
    (let n = param_header ext + param_len ext ps in
     if \<not> param_header ext \<le> length ps then Err (err 2 0 ''short optional parameter header'')
     else if \<not> n \<le> length ps then Err (err 2 0 ''invalid optional parameter'')
     else if ps ! 0 \<noteq> 2 then Err (Protocol \<lparr>pe_code = 2, pe_subcode = 4, pe_data = take n ps,
       pe_reason = ''unsupported optional parameter''\<rparr>)
     else bindr (parse_caps (take (param_len ext ps) (drop (param_header ext) ps)) st)
       (parse_params ext (drop n ps)))"
proof -
  have "bindr (slice_range ps 1 3) (\<lambda>s. bindr (u16b s) (\<lambda>w. Ok (unat w))) =
      (Ok (param_len True ps) :: (error, nat) outcome)" if "3 \<le> length ps"
    using that by (simp add: slice_range_def u16b_eq_Ok bindr_eq_Ok param_len_def)
  moreover have "bindr (index ps 1) (\<lambda>x. Ok (unat x)) =
      (Ok (param_len False ps) :: (error, nat) outcome)" if "2 \<le> length ps"
    using that by (simp add: index_def param_len_def)
  ultimately show ?thesis
    using assms by (subst parse_params.simps, cases ext)
      (auto simp: param_header_def require_def slice_range_def slice_from_def index_Ok Let_def)
qed

lemma parse_params_no_panic [no_panic]: "parse_params ext ps st \<noteq> Panic"
proof (induction "length ps" arbitrary: ps st rule: less_induct)
  case less
  show ?case
  proof (cases "ps = []")
    case False
    have "0 < param_header ext" by (simp add: param_header_def)
    with False show ?thesis
      by (auto simp: parse_params_step less bindr_eq_Panic parse_caps_no_panic Let_def)
  qed simp
qed

lemma parse_params_error: "parse_params ext ps st = Err e \<Longrightarrow> open_error e"
proof (induction "length ps" arbitrary: ps st rule: less_induct)
  case less
  then have "ps \<noteq> []" by auto
  moreover have "0 < param_header ext" by (simp add: param_header_def)
  ultimately show ?case
    using less.prems less.hyps [of "drop (param_header ext + param_len ext ps) ps"]
    by (auto simp: parse_params_step bindr_eq_Err parse_caps_error Let_def open_error_def err_def
        split: if_splits dest: parse_caps_error)
qed

lemma negotiate_no_panic [no_panic]: "negotiate cfg p rid h oa st \<noteq> Panic"
  by (auto simp: negotiate_def bindr_eq_Panic Let_def)

lemma negotiate_error: "negotiate cfg p rid h oa st = Err e \<Longrightarrow> open_error e"
  by (auto simp: negotiate_def bindr_eq_Err Let_def open_error_def err_def split: if_splits)

text \<open>What a negotiated session guarantees to the rest of the program.\<close>

definition neg_wf :: "config \<Rightarrow> peer \<Rightarrow> negotiated \<Rightarrow> bool" where
  "neg_wf cfg p n = (neg_router_id n \<noteq> 0 \<and> internal n = (asn cfg = remote_asn p) \<and>
     (internal n \<longrightarrow> neg_router_id n \<noteq> router_id cfg) \<and>
     (neg_ipv4 n \<or> neg_ipv6 n) \<and> (neg_ipv4 n \<longrightarrow> peer_ipv4 p) \<and> (neg_ipv6 n \<longrightarrow> peer_ipv6 p) \<and>
     hold n \<le> hold_time_secs p \<and>
     (hold_time_secs p = 0 \<or> 3 \<le> hold_time_secs p \<longrightarrow> hold n = 0 \<or> 3 \<le> hold n))"

lemma negotiate_wf:
  assumes "negotiate cfg p rid h oa st = Ok n" and "rid \<noteq> 0" and "h = 0 \<or> 3 \<le> h"
    and "asn cfg \<noteq> remote_asn p \<or> rid \<noteq> router_id cfg"
  shows "neg_wf cfg p n"
  using assms by (auto simp: negotiate_def bindr_eq_Ok Let_def neg_wf_def min_def split: if_splits)

lemma parse_open_no_panic [no_panic]: "parse_open b cfg p \<noteq> Panic"
  unfolding parse_open_def
  by (auto simp: outcome_simps Let_def parse_params_no_panic negotiate_no_panic split: if_splits)

lemma parse_open_error: "parse_open b cfg p = Err e \<Longrightarrow> open_error e"
  unfolding parse_open_def
  by (auto simp: outcome_simps Let_def open_error_def err_def split: if_splits
      dest: parse_params_error [unfolded open_error_def] negotiate_error [unfolded open_error_def])

lemma parse_open_wf: "parse_open b cfg p = Ok n \<Longrightarrow> neg_wf cfg p n"
  unfolding parse_open_def
  by (auto simp: bindr_eq_Ok Let_def valid_router_id_def split: if_splits elim!: negotiate_wf)

text \<open>The capabilities this program sends, as this program reads them.\<close>

lemma length_open_caps: "length (open_caps cfg p) = 8 + (if peer_ipv4 p then 6 else 0) + (if peer_ipv6 p then 6 else 0)"
  by (simp add: open_caps_def)

lemma parse_open_caps:
  "parse_caps (open_caps cfg p) cap_init =
     Ok \<lparr>cap_as4 = Some (asn cfg), cap_mp = (peer_ipv4 p \<or> peer_ipv6 p), cap_v4 = peer_ipv4 p, cap_v6 = peer_ipv6 p\<rparr>"
proof -
  have as4: "parse_caps ([65, 4] @ u32_be a @ rest) st = parse_caps rest (st\<lparr>cap_as4 := Some a\<rparr>)"
    if "cap_as4 st = None" for a rest st
    using that by (subst parse_caps_Cons) (simp_all add: capability_def Let_def)
  have refresh: "parse_caps ([2, 0] @ rest) st = parse_caps rest st" for rest st
    using parse_caps_Cons [of "[]" 0 2 rest st] by (simp add: capability_def)
  have mp4: "parse_caps ([1, 4, 0, 1, 0, 1] @ rest) st = parse_caps rest (st\<lparr>cap_mp := True, cap_v4 := True\<rparr>)" for rest st
    using parse_caps_Cons [of "[0, 1, 0, 1]" 4 1 rest st]
    by (simp add: capability_def index_def u16b_def be_value_def Let_def)
  have mp6: "parse_caps ([1, 4, 0, 2, 0, 1] @ rest) st = parse_caps rest (st\<lparr>cap_mp := True, cap_v6 := True\<rparr>)" for rest st
    using parse_caps_Cons [of "[0, 2, 0, 1]" 4 1 rest st]
    by (simp add: capability_def index_def u16b_def be_value_def Let_def)
  note steps = mp4 [of "[]"] mp6 [of "[]"] mp4 [of "[1, 4, 0, 2, 0, 1]"]
  have "parse_caps (open_caps cfg p) cap_init =
      parse_caps ((if peer_ipv4 p then [1, 4, 0, 1, 0, 1] else []) @ (if peer_ipv6 p then [1, 4, 0, 2, 0, 1] else []))
        (cap_init\<lparr>cap_as4 := Some (asn cfg)\<rparr>)"
    unfolding open_caps_def by (subst as4) (simp_all only: refresh, simp add: cap_init_def)
  also have "\<dots> = Ok \<lparr>cap_as4 = Some (asn cfg), cap_mp = (peer_ipv4 p \<or> peer_ipv6 p), cap_v4 = peer_ipv4 p, cap_v6 = peer_ipv6 p\<rparr>"
    using steps by (cases "peer_ipv4 p"; cases "peer_ipv6 p") (simp_all add: cap_init_def)
  finally show ?thesis .
qed

text \<open>An OPEN body of this program, field by field.\<close>

lemma open_body_Cons:
  obtains a0 a1 h0 h1 r0 r1 r2 r3 where
    "open_body cfg p = [4, a0, a1, h0, h1, r0, r1, r2, r3, of_nat (length (open_caps cfg p) + 2), 2,
       of_nat (length (open_caps cfg p))] @ open_caps cfg p"
    "u16_be (two_octet_asn (asn cfg)) = [a0, a1]" "u16_be (hold_time_secs p) = [h0, h1]"
    "octets_v4 (router_id cfg) = [r0, r1, r2, r3]"
proof -
  obtain a0 a1 h0 h1 where "u16_be (two_octet_asn (asn cfg)) = [a0, a1]" "u16_be (hold_time_secs p) = [h0, h1]"
    using u16_be_Cons by metis
  moreover obtain r0 r1 r2 r3 where "octets_v4 (router_id cfg) = [r0, r1, r2, r3]"
    using length_octets_v4 [of "router_id cfg"] unfolding length_4_conv by auto
  ultimately show thesis
    using that by (simp add: open_body_def Let_def)
qed

lemma parse_open_body:
  assumes "router_id rc \<noteq> 0" and "asn cfg \<noteq> remote_asn p \<or> router_id rc \<noteq> router_id cfg"
    and "hold_time_secs rp = 0 \<or> 3 \<le> hold_time_secs rp"
  shows "parse_open (open_body rc rp) cfg p =
    negotiate cfg p (router_id rc) (hold_time_secs rp) (two_octet_asn (asn rc))
      \<lparr>cap_as4 = Some (asn rc), cap_mp = (peer_ipv4 rp \<or> peer_ipv6 rp), cap_v4 = peer_ipv4 rp, cap_v6 = peer_ipv6 rp\<rparr>"
proof -
  let ?caps = "open_caps rc rp"
  have small: "length ?caps \<le> 20" by (simp add: length_open_caps)
  then have lens: "unat (of_nat (length ?caps) :: u8) = length ?caps"
      "unat (of_nat (length ?caps + 2) :: u8) = length ?caps + 2"
    by (simp_all only: unat_of_nat_u8) simp_all
  obtain a0 a1 h0 h1 r0 r1 r2 r3 where b: "open_body rc rp = [4, a0, a1, h0, h1, r0, r1, r2, r3,
        of_nat (length ?caps + 2), 2, of_nat (length ?caps)] @ ?caps"
      and a: "u16_be (two_octet_asn (asn rc)) = [a0, a1]" and h: "u16_be (hold_time_secs rp) = [h0, h1]"
      and r: "octets_v4 (router_id rc) = [r0, r1, r2, r3]"
    by (rule open_body_Cons)
  have ab: "(u16b [a0, a1] :: (error, u16) outcome) = Ok (two_octet_asn (asn rc))"
    and hb: "(u16b [h0, h1] :: (error, u16) outcome) = Ok (hold_time_secs rp)"
    and rb: "ipv4_of_octets [r0, r1, r2, r3] = router_id rc"
    by (simp_all only: a [symmetric] h [symmetric] r [symmetric] u16b_u16_be_Nil ipv4_of_octets_octets)
  have params: "parse_params False ([2, of_nat (length ?caps)] @ ?caps) cap_init = parse_caps ?caps cap_init"
    by (simp add: parse_params_step param_header_def param_len_def lens parse_open_caps Let_def)
  have "parse_open (open_body rc rp) cfg p =
      bindr (parse_params False ([2, of_nat (length ?caps)] @ ?caps) cap_init)
        (negotiate cfg p (router_id rc) (hold_time_secs rp) (two_octet_asn (asn rc)))"
    using assms lens unfolding b parse_open_def
    by (simp add: index_def slice_range_def slice_from_def ab hb rb Let_def valid_router_id_def)
  then show ?thesis by (simp only: params parse_open_caps bindr.simps)
qed

lemma body_ok_open: "body_ok 1 (open_body cfg p)"
proof -
  have "length (open_body cfg p) = 12 + length (open_caps cfg p)"
    by (simp add: open_body_def Let_def)
  then show ?thesis
    by (simp add: body_ok_def valid_length_def MAX_MESSAGE_def length_open_caps)
qed

text \<open>A second router that peers with the example one, for the witnesses.\<close>

definition remote_peer :: peer where
  "remote_peer = example_peer\<lparr>address := V4 0xC0000201, local_address := V4 0xC0000202,
     remote_asn := 64512, hold_time_secs := 30\<rparr>"

definition remote_config :: config where
  "remote_config = example_config\<lparr>asn := 64513, router_id := 0xC0000202, peers := [remote_peer]\<rparr>"

lemmas remote_defs = remote_peer_def remote_config_def example_defs

section \<open>Properties\<close>

text \<open>
  C22: Two routers that are configured for each other agree. When each side's remote ASN is
  the other's ASN, their identifiers are nonzero (and differ on an internal session), hold
  times are zero or at least three and some address family is enabled on both, each accepts
  the other's OPEN, and both compute the same hold time (the smaller one), the same session
  type and the same set of address families, with four-octet ASNs on.
\<close>

theorem open_negotiation_agrees:
  assumes "asn c = remote_asn rp" and "asn rc = remote_asn p"
    and "router_id c \<noteq> 0" and "router_id rc \<noteq> 0" and "asn c \<noteq> asn rc \<or> router_id c \<noteq> router_id rc"
    and "hold_time_secs p = 0 \<or> 3 \<le> hold_time_secs p" and "hold_time_secs rp = 0 \<or> 3 \<le> hold_time_secs rp"
    and "peer_ipv4 p \<and> peer_ipv4 rp \<or> peer_ipv6 p \<and> peer_ipv6 rp"
  shows "parse_open (open_body rc rp) c p =
      Ok \<lparr>neg_router_id = router_id rc, hold = min (hold_time_secs rp) (hold_time_secs p), asn4 = True,
        internal = (asn c = asn rc), neg_ipv4 = (peer_ipv4 p \<and> peer_ipv4 rp), neg_ipv6 = (peer_ipv6 p \<and> peer_ipv6 rp)\<rparr> \<and>
    parse_open (open_body c p) rc rp =
      Ok \<lparr>neg_router_id = router_id c, hold = min (hold_time_secs rp) (hold_time_secs p), asn4 = True,
        internal = (asn c = asn rc), neg_ipv4 = (peer_ipv4 p \<and> peer_ipv4 rp), neg_ipv6 = (peer_ipv6 p \<and> peer_ipv6 rp)\<rparr>"
proof
  show "parse_open (open_body rc rp) c p =
      Ok \<lparr>neg_router_id = router_id rc, hold = min (hold_time_secs rp) (hold_time_secs p), asn4 = True,
        internal = (asn c = asn rc), neg_ipv4 = (peer_ipv4 p \<and> peer_ipv4 rp), neg_ipv6 = (peer_ipv6 p \<and> peer_ipv6 rp)\<rparr>"
    using assms by (subst parse_open_body) (auto simp: negotiate_def Let_def)
  show "parse_open (open_body c p) rc rp =
      Ok \<lparr>neg_router_id = router_id c, hold = min (hold_time_secs rp) (hold_time_secs p), asn4 = True,
        internal = (asn c = asn rc), neg_ipv4 = (peer_ipv4 p \<and> peer_ipv4 rp), neg_ipv6 = (peer_ipv6 p \<and> peer_ipv6 rp)\<rparr>"
    using assms by (subst parse_open_body) (auto simp: negotiate_def Let_def min.commute)
qed

theorem open_negotiation_agrees_witness:
  "parse_open (open_body remote_config remote_peer) example_config example_peer =
     Ok \<lparr>neg_router_id = 0xC0000202, hold = 30, asn4 = True, internal = False, neg_ipv4 = True, neg_ipv6 = False\<rparr>"
proof -
  have "parse_open (open_body remote_config remote_peer) example_config example_peer =
      Ok \<lparr>neg_router_id = router_id remote_config,
        hold = min (hold_time_secs remote_peer) (hold_time_secs example_peer), asn4 = True,
        internal = (asn example_config = asn remote_config),
        neg_ipv4 = (peer_ipv4 example_peer \<and> peer_ipv4 remote_peer),
        neg_ipv6 = (peer_ipv6 example_peer \<and> peer_ipv6 remote_peer)\<rparr>"
    by (rule open_negotiation_agrees [THEN conjunct1]) (simp_all add: remote_defs)
  then show ?thesis by (simp add: remote_defs)
qed

text \<open>
  An OPEN can always be sent: the encoder never panics and the peer's framing layer
  delivers its body.
\<close>

theorem open_encodes:
  "\<exists>pkt. (open_msg cfg p :: (error, bytes) outcome) = Ok pkt \<and>
     read_frame (pkt @ rest) = Ok ((1, open_body cfg p), rest)"
proof (intro exI conjI)
  show "(open_msg cfg p :: (error, bytes) outcome) = Ok (frame_bytes (1, open_body cfg p))"
    unfolding open_msg_def by (rule frame_bytes_Ok [OF body_ok_open])
  show "read_frame (frame_bytes (1, open_body cfg p) @ rest) = Ok ((1, open_body cfg p), rest)"
    by (rule read_frame_bytes [OF body_ok_open])
qed

text \<open>
  The OPEN parser never panics and answers every rejection with a NOTIFICATION of the
  OPEN class, for every byte string a peer may send.
\<close>

theorem parse_open_total:
  "parse_open b cfg p \<noteq> Panic \<and> (\<forall>e. parse_open b cfg p \<noteq> Err e \<or> open_error e)"
  using parse_open_no_panic parse_open_error by blast

theorem parse_open_total_witness:
  "parse_open [3, 0, 0, 0, 0, 0, 0, 0, 0, 0] example_config example_peer \<noteq> Panic"
  using parse_open_total [of "[3, 0, 0, 0, 0, 0, 0, 0, 0, 0]" example_config example_peer] by blast

text \<open>
  C33: An accepted OPEN gives a session the rest of the program can rely on: the peer's
  identifier is nonzero and differs from the local one on an internal session, the session
  type follows the configured ASNs, some address family is negotiated and every negotiated
  family is enabled for the peer, and the hold time is at most the configured one and never
  1 or 2 seconds.
\<close>

theorem parse_open_sound:
  assumes "parse_open b cfg p = Ok n" and "hold_time_secs p = 0 \<or> 3 \<le> hold_time_secs p"
  shows "neg_router_id n \<noteq> 0 \<and> internal n = (asn cfg = remote_asn p) \<and>
    (internal n \<longrightarrow> neg_router_id n \<noteq> router_id cfg) \<and>
    (neg_ipv4 n \<or> neg_ipv6 n) \<and> (neg_ipv4 n \<longrightarrow> peer_ipv4 p) \<and> (neg_ipv6 n \<longrightarrow> peer_ipv6 p) \<and>
    hold n \<le> hold_time_secs p \<and> (hold n = 0 \<or> 3 \<le> hold n)"
  using parse_open_wf [OF assms(1)] assms(2) by (simp add: neg_wf_def)

theorem parse_open_sound_witness:
  "\<exists>n. parse_open (open_body remote_config remote_peer) example_config example_peer = Ok n \<and> hold n \<le> 90"
proof -
  have "\<exists>n. parse_open (open_body remote_config remote_peer) example_config example_peer = Ok n"
    by (subst parse_open_body) (simp_all add: negotiate_def remote_defs Let_def two_octet_asn_def)
  then obtain n where n: "parse_open (open_body remote_config remote_peer) example_config example_peer = Ok n"
    by blast
  moreover have "hold_time_secs example_peer = 90"
    by (simp add: example_defs)
  ultimately show ?thesis
    using parse_open_sound [OF n] by auto
qed

end
