(* ===== verification/Wire_Update.thy ===== *)
theory Wire_Update
  imports Wire_Open
begin

unbundle bit_operations_syntax

text \<open>
  The UPDATE encoder of \<open>src/wire.rs\<close>: path attributes, NLRI, the announcement and
  withdrawal batches of both address families, and the End-of-RIB markers. A function
  that appends to its first argument returns the extended byte string.
\<close>

section \<open>Definitions\<close>

definition attr :: "bytes \<Rightarrow> u8 \<Rightarrow> u8 \<Rightarrow> bytes \<Rightarrow> bytes" where
  "attr out flags kind data =
     out @ [flags OR (if length data > 255 then 0x10 else 0), kind] @
     (if length data > 255 then u16_be (of_nat (length data)) else [of_nat (length data)]) @ data"

fun octets :: "ip_addr \<Rightarrow> bytes" where
  "octets (V4 a) = octets_v4 a"
| "octets (V6 a) = octets_v6 a"

definition nlri :: "ipnet_ops \<Rightarrow> bytes \<Rightarrow> ip_net \<Rightarrow> (error, bytes) outcome" where
  "nlri N out p =
     bindr (slice_range (octets (net_network N p)) 0 (div_ceil (unat (net_prefix_len p)) 8)) (\<lambda>d.
     Ok (out @ [net_prefix_len p] @ d))"

fun encode_prefixes :: "ipnet_ops \<Rightarrow> bytes \<Rightarrow> ip_net list \<Rightarrow> (error, bytes) outcome" where
  "encode_prefixes N encoded [] = Ok encoded"
| "encode_prefixes N encoded (prefix # prefixes) =
     bindr (nlri N encoded prefix) (\<lambda>encoded. encode_prefixes N encoded prefixes)"

text \<open>The multiprotocol attribute, first on the wire for IPv6 batches.\<close>

definition mp_attrs :: "peer \<Rightarrow> bool \<Rightarrow> bool \<Rightarrow> bytes \<Rightarrow> (error, bytes) outcome" where
  "mp_attrs p v6 withdraw encoded =
    (if v6 then
       bindr (if \<not> withdraw then
           bindr (expect (nh6 p)) (\<lambda>a.
           Ok ([0, 2, 1] @ [if next_hop_v6_link_local p \<noteq> None then 32 else 16] @ octets_v6 a @
             (case next_hop_v6_link_local p of Some l \<Rightarrow> octets_v6 l | None \<Rightarrow> []) @ [0]))
         else Ok [0, 2, 1]) (\<lambda>mp.
       Ok (attr [] 0x80 (if withdraw then 15 else 14) (mp @ encoded)))
     else Ok [])"

definition as_path :: "config \<Rightarrow> peer \<Rightarrow> negotiated \<Rightarrow> bytes" where
  "as_path cfg p n = (if asn cfg \<noteq> remote_asn p
     then [2, 1] @ (if asn4 n then u32_be (asn cfg) else u16_be (two_octet_asn (asn cfg)))
     else [])"

definition path_attrs :: "config \<Rightarrow> peer \<Rightarrow> negotiated \<Rightarrow> bool \<Rightarrow> bytes \<Rightarrow> (error, bytes) outcome" where
  "path_attrs cfg p n v6 attrs =
    (let attrs = attr attrs 0x40 1 [2];
         attrs = attr attrs 0x40 2 (as_path cfg p n);
         attrs = (if \<not> asn4 n \<and> asn cfg > 65535 \<and> asn cfg \<noteq> remote_asn p
           then attr attrs 0xC0 17 ([2, 1] @ u32_be (asn cfg)) else attrs);
         attrs = (if asn cfg = remote_asn p then attr attrs 0x40 5 (u32_be 100) else attrs)
     in if \<not> v6 then bindr (expect (nh4 p)) (\<lambda>a. Ok (attr attrs 0x40 3 (octets_v4 a)))
        else Ok attrs)"

definition update_body :: "bool \<Rightarrow> bool \<Rightarrow> bytes \<Rightarrow> bytes \<Rightarrow> bytes" where
  "update_body v6 withdraw encoded attrs =
     (if withdraw \<and> \<not> v6 then u16_be (of_nat (length encoded)) @ encoded else [0, 0]) @
     u16_be (of_nat (length attrs)) @ attrs @
     (if \<not> withdraw \<and> \<not> v6 then encoded else [])"

definition update :: "ipnet_ops \<Rightarrow> config \<Rightarrow> peer \<Rightarrow> negotiated \<Rightarrow> ip_net list \<Rightarrow> bool \<Rightarrow> (error, bytes) outcome" where
  "update N cfg p n prefixes withdraw =
     bindr (assert_that (prefixes \<noteq> [] \<and> length prefixes \<le> MAX_UPDATE_PREFIXES)) (\<lambda>_.
     bindr (index prefixes 0) (\<lambda>first.
     let v6 = is_ipv6 (net_addr first) in
     bindr (assert_that (list_all (\<lambda>q. is_ipv6 (net_addr q) = v6) prefixes)) (\<lambda>_.
     bindr (encode_prefixes N [] prefixes) (\<lambda>encoded.
     bindr (mp_attrs p v6 withdraw encoded) (\<lambda>attrs.
     bindr (if \<not> withdraw then path_attrs cfg p n v6 attrs else Ok attrs) (\<lambda>attrs.
     frame UPDATE (update_body v6 withdraw encoded attrs)))))))"

definition end_of_rib_body :: "bool \<Rightarrow> bytes" where
  "end_of_rib_body v6 = (if v6 then [0, 0, 0, 6, 0x80, 15, 3, 0, 2, 1] else [0, 0, 0, 0])"

definition end_of_rib :: "bool \<Rightarrow> (error, bytes) outcome" where
  "end_of_rib v6 = frame UPDATE (end_of_rib_body v6)"

section \<open>Library lemmas\<close>

text \<open>The bytes of one attribute and of one prefix, as pure values.\<close>

abbreviation attr_bytes :: "u8 \<Rightarrow> u8 \<Rightarrow> bytes \<Rightarrow> bytes" where
  "attr_bytes flags kind data \<equiv> attr [] flags kind data"

definition nlri_bytes :: "ip_net \<Rightarrow> bytes" where
  "nlri_bytes p = net_prefix_len p # take (div_ceil (unat (net_prefix_len p)) 8) (octets (net_addr (net_mask p)))"

lemma attr_append: "attr out flags kind data = out @ attr_bytes flags kind data"
  by (simp add: attr_def)

lemma length_attr_bytes: "length (attr_bytes f k d) = length d + (if length d > 255 then 4 else 3)"
  by (simp add: attr_def)

lemma length_octets: "length (octets a) * 8 = addr_bits a"
  by (cases a) simp_all

lemma length_octets_v: "length (octets a) = (if is_ipv4 a then 4 else 16)"
  by (cases a) simp_all

lemma nlri_len_le: "net_wf p \<Longrightarrow> div_ceil (unat (net_prefix_len p)) 8 \<le> length (octets (net_addr p))"
  by (rule div_ceil_8_le) (simp add: net_wf_def length_octets mult.commute)

lemma length_nlri_bytes: "net_wf p \<Longrightarrow> length (nlri_bytes p) = Suc (div_ceil (unat (net_prefix_len p)) 8)"
  using nlri_len_le [of p] by (cases p) (simp_all add: nlri_bytes_def net_mask_def)

lemma length_nlri_bytes_le: "net_wf p \<Longrightarrow> length (nlri_bytes p) \<le> (if is_ipv4 (net_addr p) then 5 else 17)"
  using nlri_len_le [of p] by (simp add: length_nlri_bytes length_octets_v split: if_splits)

context ipnet
begin

lemma nlri_Ok: "net_wf p \<Longrightarrow> nlri N out p = Ok (out @ nlri_bytes p)"
  using nlri_len_le [of p]
  by (cases p) (simp_all add: nlri_def nlri_bytes_def network_spec slice_range_def net_mask_def)

lemma encode_prefixes_Ok:
  "list_all net_wf ps \<Longrightarrow> encode_prefixes N out ps = Ok (out @ concat (map nlri_bytes ps))"
  by (induction ps arbitrary: out) (simp_all add: nlri_Ok)

end

lemma length_encoded:
  assumes "list_all net_wf ps" and "list_all (\<lambda>q. is_ipv6 (net_addr q) = v6) ps"
  shows "length (concat (map nlri_bytes ps)) \<le> (if v6 then 17 else 5) * length ps"
  using assms
proof (induction ps)
  case (Cons p ps)
  then have "length (nlri_bytes p) \<le> (if v6 then 17 else 5)"
    using length_nlri_bytes_le [of p] by (simp add: is_ipv6_def split: if_splits)
  with Cons show ?case by (auto split: if_splits)
qed simp

text \<open>What a peer must have for a batch to be encoded.\<close>

definition batch_ok :: "peer \<Rightarrow> bool \<Rightarrow> bool \<Rightarrow> ip_net list \<Rightarrow> bool" where
  "batch_ok p v6 withdraw ps = (ps \<noteq> [] \<and> length ps \<le> MAX_UPDATE_PREFIXES \<and> list_all net_wf ps \<and>
     list_all (\<lambda>q. is_ipv6 (net_addr q) = v6) ps \<and>
     (\<not> withdraw \<longrightarrow> (if v6 then nh6 p \<noteq> None else nh4 p \<noteq> None)))"

definition mp_value :: "peer \<Rightarrow> bool \<Rightarrow> bytes \<Rightarrow> bytes" where
  "mp_value p withdraw encoded =
     (if withdraw then [0, 2, 1]
      else [0, 2, 1] @ [if next_hop_v6_link_local p \<noteq> None then 32 else 16] @ octets_v6 (the (nh6 p)) @
        (case next_hop_v6_link_local p of Some l \<Rightarrow> octets_v6 l | None \<Rightarrow> []) @ [0]) @ encoded"

definition path_list :: "config \<Rightarrow> peer \<Rightarrow> negotiated \<Rightarrow> bool \<Rightarrow> (u8 \<times> u8 \<times> bytes) list" where
  "path_list cfg p n v6 =
     [(0x40, 1, [2]), (0x40, 2, as_path cfg p n)] @
     (if \<not> asn4 n \<and> asn cfg > 65535 \<and> asn cfg \<noteq> remote_asn p
      then [(0xC0, 17, [2, 1] @ u32_be (asn cfg))] else []) @
     (if asn cfg = remote_asn p then [(0x40, 5, u32_be 100)] else []) @
     (if v6 then [] else [(0x40, 3, octets_v4 (the (nh4 p)))])"

definition attrs_list :: "config \<Rightarrow> peer \<Rightarrow> negotiated \<Rightarrow> bool \<Rightarrow> bool \<Rightarrow> bytes \<Rightarrow> (u8 \<times> u8 \<times> bytes) list" where
  "attrs_list cfg p n v6 withdraw encoded =
     (if v6 then [(0x80, if withdraw then 15 else 14, mp_value p withdraw encoded)] else []) @
     (if withdraw then [] else path_list cfg p n v6)"

definition attrs_bytes :: "(u8 \<times> u8 \<times> bytes) list \<Rightarrow> bytes" where
  "attrs_bytes as = concat (map (\<lambda>(f, k, d). attr_bytes f k d) as)"

lemma attrs_bytes_simps [simp]:
  "attrs_bytes [] = []"
  "attrs_bytes ((f, k, d) # as) = attr_bytes f k d @ attrs_bytes as"
  "attrs_bytes (as @ bs) = attrs_bytes as @ attrs_bytes bs"
  by (simp_all add: attrs_bytes_def)

lemma mp_attrs_Ok:
  assumes "v6 \<Longrightarrow> \<not> withdraw \<Longrightarrow> nh6 p \<noteq> None"
  shows "mp_attrs p v6 withdraw encoded =
    Ok (attrs_bytes (if v6 then [(0x80, if withdraw then 15 else 14, mp_value p withdraw encoded)] else []))"
  using assms by (auto simp: mp_attrs_def mp_value_def)

lemma path_attrs_Ok:
  assumes "\<not> v6 \<Longrightarrow> nh4 p \<noteq> None"
  shows "path_attrs cfg p n v6 attrs = Ok (attrs @ attrs_bytes (path_list cfg p n v6))"
  using assms by (auto simp: path_attrs_def path_list_def Let_def attr_append [of "_ @ _"]
      attr_append [of attrs])

context ipnet
begin

lemma update_frame:
  assumes "batch_ok p v6 withdraw ps"
  shows "update N cfg p n ps withdraw = frame UPDATE
    (update_body v6 withdraw (concat (map nlri_bytes ps))
      (attrs_bytes (attrs_list cfg p n v6 withdraw (concat (map nlri_bytes ps)))))"
proof -
  from assms obtain q qs where ps: "ps = q # qs"
    by (cases ps) (auto simp: batch_ok_def)
  with assms have "is_ipv6 (net_addr q) = v6" by (simp add: batch_ok_def)
  with assms show ?thesis
    by (auto simp: update_def batch_ok_def ps index_def nlri_Ok encode_prefixes_Ok mp_attrs_Ok
        path_attrs_Ok attrs_list_def Let_def)
qed

end

lemma length_path_list: "length (attrs_bytes (path_list cfg p n v6)) \<le> 36"
  by (simp add: path_list_def length_attr_bytes as_path_def)

lemma length_mp_value: "length (mp_value p withdraw encoded) \<le> 37 + length encoded"
  by (simp add: mp_value_def split: option.split)

lemma length_attrs_list:
  "length (attrs_bytes (attrs_list cfg p n v6 withdraw encoded)) \<le> 77 + (if v6 then length encoded else 0)"
  using length_path_list [of cfg p n v6] length_mp_value [of p withdraw encoded]
  by (auto simp: attrs_list_def length_attr_bytes)

lemma update_sizes:
  fixes cfg :: config and n :: negotiated
  assumes "batch_ok p v6 withdraw ps"
  defines "encoded \<equiv> concat (map nlri_bytes ps)"
  defines "attrs \<equiv> attrs_bytes (attrs_list cfg p n v6 withdraw encoded)"
  shows "length encoded \<le> 3400" and "length attrs \<le> 3477"
    and "body_ok UPDATE (update_body v6 withdraw encoded attrs)"
proof -
  have enc: "length encoded \<le> (if v6 then 17 else 5) * length ps" and "length ps \<le> 200"
    using assms(1) length_encoded by (simp_all add: batch_ok_def encoded_def MAX_UPDATE_PREFIXES_def)
  then show e: "length encoded \<le> 3400" by (auto split: if_splits)
  show a: "length attrs \<le> 3477"
    using length_attrs_list [of cfg p n v6 withdraw encoded] e by (simp add: attrs_def split: if_splits)
  have "length (update_body v6 withdraw encoded attrs) \<le> 4081 - 4"
    using length_attrs_list [of cfg p n v6 withdraw encoded] enc \<open>length ps \<le> 200\<close>
    by (auto simp: update_body_def attrs_def split: if_splits)
  moreover have "4 \<le> length (update_body v6 withdraw encoded attrs)"
    by (simp add: update_body_def)
  ultimately show "body_ok UPDATE (update_body v6 withdraw encoded attrs)"
    by (simp add: body_ok_def valid_length_def UPDATE_def MAX_MESSAGE_def)
qed

end
