(* ===== verification/Netlink.thy ===== *)
theory Netlink
  imports Wire_Update
begin

unbundle bit_operations_syntax

text \<open>
  Decoding of kernel datagrams in \<open>src/netlink.rs\<close>: the walk over aligned messages, the
  route message with its attributes, and the status that ends a dump. Integers in native byte
  order are read with the parameter \<open>le\<close>, true on a little-endian machine; every theorem
  holds for both.

  A closure passed to \<open>messages\<close> updates variables of its caller, also when the walk fails
  later: the walk returns the updated variables beside its outcome.
\<close>

section \<open>Integers and errors\<close>

datatype nl_error =
    ShortHeader | InvalidMessageLength | ShortPadding
  | ShortRtmsg | InvalidRoutePrefixLength | ShortRouteAttribute | InvalidRouteAttributeLength
  | InvalidRtaDst | InvalidRtaTable | ShortRouteAttributePadding | MissingRouteDestination | PrefixLenError
  | ShortDumpStatus | DumpFailed int | ShortNlmsgError | DumpOverrun
  | UnexpectedSequence | InterruptedDump | MaxPrefixesExceeded | EmptyDumpDatagram
  | DumpRecvFailed | Stopping | DumpDeadlineExceeded | LossDuringDump | LossAtEndOfDump | NetlinkSocketClosed
  | SocketFailed | OptionFailed | GetOptionFailed | NlBindFailed | PollFailed | RequestFailed | ShortRequest

definition HEADER :: nat where
  "HEADER = 16"

definition RTM_NEWROUTE :: u16 where
  "RTM_NEWROUTE = 24"

definition NLMSG_DONE :: u16 where
  "NLMSG_DONE = 3"

definition NLM_F_DUMP_INTR :: u16 where
  "NLM_F_DUMP_INTR = 0x10"

text \<open>Constants of the Linux ABI that \<open>libc\<close> exports.\<close>

definition AF_INET :: u8 where
  "AF_INET = 2"

definition AF_INET6 :: u8 where
  "AF_INET6 = 10"

definition ENOENT :: int where
  "ENOENT = 2"

text \<open>\<open>(n + 3) & !3\<close> clears the two low bits.\<close>

definition align :: "nat \<Rightarrow> nat" where
  "align n = (n + 3) div 4 * 4"

definition ne_value :: "bool \<Rightarrow> bytes \<Rightarrow> nat" where
  "ne_value le b = be_value (if le then rev b else b)"

definition u16n :: "bool \<Rightarrow> bytes \<Rightarrow> (nl_error, u16) outcome" where
  "u16n le b = bindr (index b 0) (\<lambda>x. bindr (index b 1) (\<lambda>y. Ok (of_nat (ne_value le [x, y]))))"

definition u32n :: "bool \<Rightarrow> bytes \<Rightarrow> (nl_error, u32) outcome" where
  "u32n le b = bindr (slice_range b 0 4) (\<lambda>s. Ok (of_nat (ne_value le s)))"

definition i32n :: "bool \<Rightarrow> bytes \<Rightarrow> (nl_error, int) outcome" where
  "i32n le b = bindr (u32n le b) (\<lambda>w. Ok (sint w))"

definition saturating_neg :: "int \<Rightarrow> int" where
  "saturating_neg code = (if code = - (2 ^ 31) then 2 ^ 31 - 1 else - code)"

section \<open>Messages of a datagram\<close>

record message =
  msg_kind :: u16
  msg_flags :: u16
  msg_seq :: u32
  msg_payload :: bytes

text \<open>A fallible step of a loop that also carries its caller's variables.\<close>

definition tryr :: "('e, 'a) outcome \<Rightarrow> 's \<Rightarrow> ('a \<Rightarrow> 's \<times> ('e, 'b) outcome) \<Rightarrow> 's \<times> ('e, 'b) outcome" where
  "tryr m st k = (case m of Ok x \<Rightarrow> k x | Err e \<Rightarrow> (st, Err e) | Panic \<Rightarrow> (st, Panic))"

lemma tryr_cong [fundef_cong]:
  assumes "m = m'" and "st = st'" and "\<And>x. m' = Ok x \<Longrightarrow> k x = k' x"
  shows "tryr m st k = tryr m' st' k'"
  using assms by (cases m') (auto simp: tryr_def)

lemma tryr_simps [simp]: "tryr (Ok x) st k = k x" "tryr (Err e) st k = (st, Err e)" "tryr Panic st k = (st, Panic)"
  by (simp_all add: tryr_def)

function messages :: "bool \<Rightarrow> (message \<Rightarrow> 's \<Rightarrow> 's \<times> (nl_error, unit) outcome) \<Rightarrow> bytes \<Rightarrow> 's \<Rightarrow>
    's \<times> (nl_error, unit) outcome" where
  "messages le f bytes st =
    (if bytes = [] then (st, Ok ())
     else
       tryr (ensure (HEADER \<le> length bytes) ShortHeader) st (\<lambda>_.
       tryr (u32n le bytes) st (\<lambda>l. let len = unat l in
       tryr (ensure (HEADER \<le> len \<and> len \<le> length bytes) InvalidMessageLength) st (\<lambda>_.
       tryr (bindr (slice_from bytes 4) (u16n le)) st (\<lambda>kind.
       tryr (bindr (slice_from bytes 6) (u16n le)) st (\<lambda>flags.
       tryr (bindr (slice_from bytes 8) (u32n le)) st (\<lambda>seq.
       tryr (slice_range bytes HEADER len) st (\<lambda>payload.
       let (st, r) = f \<lparr>msg_kind = kind, msg_flags = flags, msg_seq = seq, msg_payload = payload\<rparr> st in
       tryr r st (\<lambda>_.
       if len = length bytes then (st, Ok ())
       else
       tryr (ensure (align len \<le> length bytes) ShortPadding) st (\<lambda>_.
       tryr (slice_from bytes (align len)) st (\<lambda>bytes.
       messages le f bytes st)))))))))))"
  by pat_completeness auto
termination
  by (relation "measure (\<lambda>(le, f, bytes, st). length bytes)")
    (auto simp: slice_from_eq_Ok align_def HEADER_def)

declare messages.simps [simp del]

section \<open>Routes\<close>

record route_vars =
  rv_table :: u32
  rv_dst :: bytes
  rv_has_dst :: bool

function route_attrs :: "bool \<Rightarrow> nat \<Rightarrow> bytes \<Rightarrow> route_vars \<Rightarrow> (nl_error, route_vars) outcome" where
  "route_attrs le width attrs v =
    (if attrs = [] then Ok v
     else
       bindr (ensure (4 \<le> length attrs) ShortRouteAttribute) (\<lambda>_.
       bindr (u16n le attrs) (\<lambda>n16. let n = unat n16 in
       bindr (ensure (4 \<le> n \<and> n \<le> length attrs) InvalidRouteAttributeLength) (\<lambda>_.
       bindr (bindr (slice_from attrs 2) (u16n le)) (\<lambda>kind.
       bindr (if kind AND 0x3fff = 1 then
           bindr (ensure (n = width + 4) InvalidRtaDst) (\<lambda>_.
           bindr (slice_range (rv_dst v) 0 width) (\<lambda>_.
           bindr (slice_range attrs 4 n) (\<lambda>d.
           bindr (assert_that (length d = width)) (\<lambda>_.
           Ok (v\<lparr>rv_dst := d @ drop width (rv_dst v), rv_has_dst := True\<rparr>)))))
         else if kind AND 0x3fff = 15 then
           bindr (ensure (n = 8) InvalidRtaTable) (\<lambda>_.
           bindr (bindr (slice_from attrs 4) (u32n le)) (\<lambda>table.
           Ok (v\<lparr>rv_table := table\<rparr>)))
         else Ok v) (\<lambda>v.
       if n = length attrs then Ok v
       else
       bindr (ensure (align n \<le> length attrs) ShortRouteAttributePadding) (\<lambda>_.
       bindr (slice_from attrs (align n)) (\<lambda>attrs.
       route_attrs le width attrs v))))))))"
  by pat_completeness auto
termination
  by (relation "measure (\<lambda>(le, width, attrs, v). length attrs)")
    (auto simp: slice_from_eq_Ok align_def)

declare route_attrs.simps [simp del]

definition route :: "ipnet_ops \<Rightarrow> bool \<Rightarrow> bytes \<Rightarrow> u32 list \<Rightarrow> (nl_error, ip_net option) outcome" where
  "route N le payload tbls =
     bindr (ensure (12 \<le> length payload) ShortRtmsg) (\<lambda>_.
     bindr (index payload 0) (\<lambda>family.
     if family \<noteq> AF_INET \<and> family \<noteq> AF_INET6 then Ok None
     else
     bindr (index payload 7) (\<lambda>kind.
     bindr (index payload 2) (\<lambda>src_len.
     bindr (bindr (slice_from payload 8) (u32n le)) (\<lambda>flags.
     if kind \<noteq> 1 \<or> src_len \<noteq> 0 \<or> flags AND 0x200 \<noteq> 0 then Ok None
     else
     let width = (if family = AF_INET then 4 else 16) in
     bindr (index payload 1) (\<lambda>dst_len.
     bindr (ensure (unat dst_len \<le> width * 8) InvalidRoutePrefixLength) (\<lambda>_.
     bindr (index payload 4) (\<lambda>t.
     bindr (slice_from payload 12) (\<lambda>attrs.
     bindr (route_attrs le width attrs \<lparr>rv_table = ucast t, rv_dst = replicate 16 0, rv_has_dst = False\<rparr>) (\<lambda>v.
     bindr (ensure (dst_len = 0 \<or> rv_has_dst v) MissingRouteDestination) (\<lambda>_.
     if rv_table v \<notin> set tbls then Ok None
     else
     let ip = (if width = 4 then V4 (ipv4_of_octets (take 4 (rv_dst v))) else V6 (ipv6_of_octets (rv_dst v))) in
     (case net_new N ip dst_len of
        None \<Rightarrow> Err PrefixLenError
      | Some net \<Rightarrow> Ok (Some (net_trunc N net))))))))))))))"

definition dump_status :: "bool \<Rightarrow> bytes \<Rightarrow> bool \<Rightarrow> (nl_error, unit) outcome" where
  "dump_status le payload saw_route =
    (if payload = [] then Ok ()
     else
       bindr (ensure (4 \<le> length payload) ShortDumpStatus) (\<lambda>_.
       bindr (i32n le payload) (\<lambda>code.
       ensure (code = 0 \<or> (code = - ENOENT \<and> \<not> saw_route)) (DumpFailed (saturating_neg code)))))"

section \<open>Reading integers\<close>

definition ne_bytes :: "bool \<Rightarrow> nat \<Rightarrow> nat \<Rightarrow> bytes" where
  "ne_bytes le n v = (if le then rev (be_bytes n v) else be_bytes n v)"

lemma length_ne_bytes [simp]: "length (ne_bytes le n v) = n"
  by (simp add: ne_bytes_def)

lemma ne_value_ne_bytes: "ne_value le (ne_bytes le n v) = v mod 256 ^ n"
  by (simp add: ne_value_def ne_bytes_def be_value_be_bytes)

lemma u16n_eq_Ok: "u16n le b = Ok w \<longleftrightarrow> 2 \<le> length b \<and> w = of_nat (ne_value le (take 2 b))"
proof -
  have "take 2 b = [b ! 0, b ! 1]" if "2 \<le> length b"
    using that by (cases b; cases "tl b") (auto simp: numeral_2_eq_2)
  then show ?thesis by (auto simp: u16n_def bindr_eq_Ok index_eq_Ok)
qed

lemma u16n_eq_Panic: "u16n le b = Panic \<longleftrightarrow> length b < 2"
  by (auto simp: u16n_def bindr_eq_Panic index_eq_Panic index_eq_Ok)

lemma u16n_not_Err [simp]: "u16n le b \<noteq> Err e"
  by (simp add: u16n_def bindr_eq_Err)

lemma u32n_eq_Ok: "u32n le b = Ok w \<longleftrightarrow> 4 \<le> length b \<and> w = of_nat (ne_value le (take 4 b))"
  by (auto simp: u32n_def outcome_simps)

lemma u32n_eq_Panic: "u32n le b = Panic \<longleftrightarrow> length b < 4"
  by (auto simp: u32n_def outcome_simps)

lemma u32n_not_Err [simp]: "u32n le b \<noteq> Err e"
  by (simp add: u32n_def bindr_eq_Err)

declare u16n_eq_Ok [outcome_simps] u16n_eq_Panic [outcome_simps] u32n_eq_Ok [outcome_simps]
  u32n_eq_Panic [outcome_simps]

lemma u16n_ne_bytes [simp]: "v < 65536 \<Longrightarrow> u16n le (ne_bytes le 2 v @ rest) = Ok (of_nat v)"
  by (simp add: u16n_eq_Ok ne_value_ne_bytes)

lemma u32n_ne_bytes [simp]: "v < 2 ^ 32 \<Longrightarrow> u32n le (ne_bytes le 4 v @ rest) = Ok (of_nat v)"
  by (simp add: u32n_eq_Ok ne_value_ne_bytes)

lemma align_ge: "n \<le> align n"
  unfolding align_def by linarith

lemma align_less: "align n < n + 4"
  unfolding align_def by linarith

lemma align_pos: "0 < n \<Longrightarrow> 0 < align n"
  using align_ge [of n] by linarith

section \<open>The walk as a list of messages\<close>

text \<open>Running a closure over messages, and the messages a datagram holds before its end or its first defect.\<close>

fun run_all :: "(message \<Rightarrow> 's \<Rightarrow> 's \<times> (nl_error, unit) outcome) \<Rightarrow> message list \<Rightarrow> 's \<Rightarrow>
    's \<times> (nl_error, unit) outcome" where
  "run_all f [] st = (st, Ok ())"
| "run_all f (m # ms) st = (let (st, r) = f m st in tryr r st (\<lambda>_. run_all f ms st))"

definition decode :: "bool \<Rightarrow> bytes \<Rightarrow> message list \<times> (nl_error, unit) outcome" where
  "decode le b = messages le (\<lambda>m ms. (ms @ [m], Ok ())) b []"

definition msg_len :: "bool \<Rightarrow> bytes \<Rightarrow> nat" where
  "msg_len le b = unat (of_nat (ne_value le (take 4 b)) :: u32)"

definition msg_head :: "bool \<Rightarrow> bytes \<Rightarrow> message" where
  "msg_head le b = \<lparr>msg_kind = of_nat (ne_value le (take 2 (drop 4 b))),
     msg_flags = of_nat (ne_value le (take 2 (drop 6 b))),
     msg_seq = of_nat (ne_value le (take 4 (drop 8 b))),
     msg_payload = take (msg_len le b - HEADER) (drop HEADER b)\<rparr>"

lemma messages_Nil [simp]: "messages le f [] st = (st, Ok ())"
  by (subst messages.simps) simp

lemma messages_step:
  assumes "b \<noteq> []"
  shows "messages le f b st =
    (if length b < HEADER then (st, Err ShortHeader)
     else if \<not> (HEADER \<le> msg_len le b \<and> msg_len le b \<le> length b) then (st, Err InvalidMessageLength)
     else let (st, r) = f (msg_head le b) st in
       tryr r st (\<lambda>_. if msg_len le b = length b then (st, Ok ())
         else if align (msg_len le b) \<le> length b then messages le f (drop (align (msg_len le b)) b) st
         else (st, Err ShortPadding)))"
proof (cases "HEADER \<le> length b")
  case True
  have len: "u32n le b = Ok (of_nat (ne_value le (take 4 b)))"
    "unat (of_nat (ne_value le (take 4 b)) :: u32) = msg_len le b"
    using True by (simp_all add: HEADER_def u32n_eq_Ok msg_len_def)
  have fields: "bindr (slice_from b 4) (u16n le) = Ok (msg_kind (msg_head le b))"
    "bindr (slice_from b 6) (u16n le) = Ok (msg_flags (msg_head le b))"
    "bindr (slice_from b 8) (u32n le) = Ok (msg_seq (msg_head le b))"
    using True by (simp_all add: HEADER_def msg_head_def outcome_simps)
  have payload: "slice_range b HEADER (msg_len le b) = Ok (msg_payload (msg_head le b))"
    if "HEADER \<le> msg_len le b" "msg_len le b \<le> length b"
    using that by (simp add: slice_range_def msg_head_def)
  have tail: "(if l = length b then (s, Ok ()) else tryr (ensure (align l \<le> length b) ShortPadding) s (\<lambda>_.
       tryr (slice_from b (align l)) s (\<lambda>b. messages le f b s))) =
     (if l = length b then (s, Ok ()) else if align l \<le> length b then messages le f (drop (align l) b) s
      else (s, Err ShortPadding))" for s l
    by (simp add: ensure_def slice_from_def)
  have head: "\<lparr>msg_kind = msg_kind (msg_head le b), msg_flags = msg_flags (msg_head le b),
      msg_seq = msg_seq (msg_head le b), msg_payload = msg_payload (msg_head le b)\<rparr> = msg_head le b"
    by simp
  show ?thesis
  proof (cases "HEADER \<le> msg_len le b \<and> msg_len le b \<le> length b")
    case valid: True
    then have pl: "slice_range b HEADER (msg_len le b) = Ok (msg_payload (msg_head le b))"
      by (simp add: payload)
    from valid True assms have "messages le f b st = (let (st, r) = f (msg_head le b) st in tryr r st (\<lambda>_.
        if msg_len le b = length b then (st, Ok ()) else tryr (ensure (align (msg_len le b) \<le> length b) ShortPadding) st (\<lambda>_.
          tryr (slice_from b (align (msg_len le b))) st (\<lambda>b. messages le f b st))))"
      by (subst messages.simps) (simp only: len fields pl tryr_simps Let_def head ensure_True simp_thms if_False)
    moreover have "\<not> length b < HEADER" using True by simp
    ultimately show ?thesis using valid by (simp only: tail simp_thms if_True if_False)
  next
    case False
    with True assms show ?thesis
      by (subst messages.simps) (auto simp: len Let_def ensure_def)
  qed
qed (subst messages.simps, simp add: assms ensure_def not_le)

lemma run_all_append:
  "run_all f (ms @ ms') st = (let (st, r) = run_all f ms st in tryr r st (\<lambda>_. run_all f ms' st))"
  by (induction ms arbitrary: st) (auto simp: Let_def tryr_def split: prod.splits outcome.splits)

lemma messages_collect:
  "messages le (\<lambda>m ms. (ms @ [m], Ok ())) b acc = (acc @ fst (decode le b), snd (decode le b))"
proof (induction "length b" arbitrary: b acc rule: less_induct)
  case less
  show ?case
  proof (cases "b = [] \<or> length b < HEADER \<or> \<not> (HEADER \<le> msg_len le b \<and> msg_len le b \<le> length b)")
    case True
    then show ?thesis
      by (cases "b = []") (auto simp: decode_def messages_step)
  next
    case False
    let ?r = "drop (align (msg_len le b)) b"
    have "length ?r < length b"
      using False align_pos [of "msg_len le b"] by (auto simp: HEADER_def)
    with less [of ?r "acc @ [msg_head le b]"] less [of ?r "[msg_head le b]"] False show ?thesis
      by (simp add: decode_def messages_step)
  qed
qed

lemma decode_step:
  assumes "b \<noteq> []"
  shows "decode le b =
    (if length b < HEADER then ([], Err ShortHeader)
     else if \<not> (HEADER \<le> msg_len le b \<and> msg_len le b \<le> length b) then ([], Err InvalidMessageLength)
     else if msg_len le b = length b then ([msg_head le b], Ok ())
     else if align (msg_len le b) \<le> length b then
       (msg_head le b # fst (decode le (drop (align (msg_len le b)) b)),
        snd (decode le (drop (align (msg_len le b)) b)))
     else ([msg_head le b], Err ShortPadding))"
  unfolding decode_def [of le b] by (subst messages_step [OF assms]) (simp add: messages_collect)

lemma decode_Nil [simp]: "decode le [] = ([], Ok ())"
  by (simp add: decode_def)

text \<open>Every walk is the closure run over the decoded messages, then the walk's own verdict.\<close>

lemma messages_decode:
  "messages le f b st = (let (st, r) = run_all f (fst (decode le b)) st in tryr r st (\<lambda>_. (st, snd (decode le b))))"
proof (induction "length b" arbitrary: b st rule: less_induct)
  case less
  show ?case
  proof (cases "b = []")
    case ne: False
    let ?r = "drop (align (msg_len le b)) b"
    have "length ?r < length b" if "HEADER \<le> msg_len le b"
      using ne that align_pos [of "msg_len le b"] by (auto simp: HEADER_def)
    then show ?thesis
      using less [of ?r]
      by (subst messages_step [OF ne], subst (1 2) decode_step [OF ne])
        (auto simp: Let_def tryr_def split: prod.splits outcome.splits)
  qed simp
qed

lemma decode_no_panic [no_panic]: "snd (decode le b) \<noteq> Panic"
proof (induction "length b" arbitrary: b rule: less_induct)
  case less
  show ?case
  proof (cases "b = []")
    case ne: False
    let ?r = "drop (align (msg_len le b)) b"
    have "length ?r < length b" if "HEADER \<le> msg_len le b"
      using ne that align_pos [of "msg_len le b"] by (auto simp: HEADER_def)
    then show ?thesis using less [of ?r] by (auto simp: decode_step [OF ne])
  qed simp
qed

lemma run_all_no_panic:
  "(\<And>m st. snd (f m st) \<noteq> Panic) \<Longrightarrow> snd (run_all f ms st) \<noteq> Panic"
proof (induction ms arbitrary: st)
  case (Cons m ms)
  then show ?case
    using Cons.prems [of m st] by (cases "f m st"; cases "snd (f m st)") auto
qed simp

lemma messages_no_panic:
  "(\<And>m st. snd (f m st) \<noteq> Panic) \<Longrightarrow> snd (messages le f b st) \<noteq> Panic"
  using run_all_no_panic [of f "fst (decode le b)" st] decode_no_panic [of le b]
  by (auto simp: messages_decode Let_def tryr_def split: prod.split outcome.split)

section \<open>Route messages\<close>

lemma route_attrs_Nil [simp]: "route_attrs le w [] v = Ok v"
  by (subst route_attrs.simps) simp

text \<open>One attribute: its effect on the variables of the loop.\<close>

definition route_attr :: "bool \<Rightarrow> nat \<Rightarrow> nat \<Rightarrow> bytes \<Rightarrow> route_vars \<Rightarrow> (nl_error, route_vars) outcome" where
  "route_attr le width n attrs v = (let kind = (of_nat (ne_value le (take 2 (drop 2 attrs))) :: u16) in
     if kind AND 0x3fff = 1 then
       (if n = width + 4 then Ok (v\<lparr>rv_dst := take width (drop 4 attrs) @ drop width (rv_dst v), rv_has_dst := True\<rparr>)
        else Err InvalidRtaDst)
     else if kind AND 0x3fff = 15 then
       (if n = 8 then Ok (v\<lparr>rv_table := of_nat (ne_value le (take 4 (drop 4 attrs)))\<rparr>) else Err InvalidRtaTable)
     else Ok v)"

lemma route_attrs_step:
  fixes le :: bool
  assumes "attrs \<noteq> []" and "length (rv_dst v) = 16" and "width \<le> 16"
  defines "n \<equiv> unat (of_nat (ne_value le (take 2 attrs)) :: u16)"
  shows "route_attrs le width attrs v =
    (if length attrs < 4 then Err ShortRouteAttribute
     else if \<not> (4 \<le> n \<and> n \<le> length attrs) then Err InvalidRouteAttributeLength
     else bindr (route_attr le width n attrs v) (\<lambda>v.
       if n = length attrs then Ok v
       else if align n \<le> length attrs then route_attrs le width (drop (align n) attrs) v
       else Err ShortRouteAttributePadding))"
proof (cases "4 \<le> length attrs \<and> 4 \<le> n \<and> n \<le> length attrs")
  case True
  have len: "u16n le attrs = Ok (of_nat (ne_value le (take 2 attrs)))"
      "bindr (slice_from attrs 2) (u16n le) = Ok (of_nat (ne_value le (take 2 (drop 2 attrs))))"
    using True by (auto simp: outcome_simps)
  have table: "bindr (slice_from attrs 4) (u32n le) = Ok (of_nat (ne_value le (take 4 (drop 4 attrs))))" if "n = 8"
    using True that by (auto simp: outcome_simps)
  have dst: "slice_range (rv_dst v) 0 width = (Ok (take width (rv_dst v)) :: (nl_error, bytes) outcome)"
      "n = width + 4 \<Longrightarrow> slice_range attrs 4 n = (Ok (take width (drop 4 attrs)) :: (nl_error, bytes) outcome)"
      "n = width + 4 \<Longrightarrow> length (take width (drop 4 attrs)) = width"
    using True assms(2,3) by (auto simp: slice_range_def)
  let ?k = "of_nat (ne_value le (take 2 (drop 2 attrs))) :: u16"
  have attr: "(if ?k AND 0x3fff = 1 then
         bindr (ensure (n = width + 4) InvalidRtaDst) (\<lambda>_.
         bindr (slice_range (rv_dst v) 0 width) (\<lambda>_.
         bindr (slice_range attrs 4 n) (\<lambda>d.
         bindr (assert_that (length d = width)) (\<lambda>_.
         Ok (v\<lparr>rv_dst := d @ drop width (rv_dst v), rv_has_dst := True\<rparr>)))))
       else if ?k AND 0x3fff = 15 then
         bindr (ensure (n = 8) InvalidRtaTable) (\<lambda>_.
         bindr (bindr (slice_from attrs 4) (u32n le)) (\<lambda>table.
         Ok (v\<lparr>rv_table := table\<rparr>)))
       else Ok v) = route_attr le width n attrs v"
    using dst table by (auto simp: route_attr_def ensure_def assert_that_def)
  have rest: "(if n = length attrs then Ok u else bindr (ensure (align n \<le> length attrs) ShortRouteAttributePadding) (\<lambda>_.
        bindr (slice_from attrs (align n)) (\<lambda>attrs. route_attrs le width attrs u))) =
      (if n = length attrs then Ok u else if align n \<le> length attrs then route_attrs le width (drop (align n) attrs) u
       else Err ShortRouteAttributePadding)" for u
    by (simp add: slice_from_def ensure_def)
  have "\<not> length attrs < 4" using True by simp
  with assms(1) True show ?thesis
    by (subst route_attrs.simps)
      (simp only: len bindr.simps n_def [symmetric] Let_def ensure_True attr rest simp_thms if_True if_False)
next
  case False
  have "u16n le attrs = Ok (of_nat (ne_value le (take 2 attrs)))" if "4 \<le> length attrs"
    using that by (simp add: outcome_simps)
  with assms(1) False show ?thesis
    by (subst route_attrs.simps) (auto simp: n_def Let_def ensure_def)
qed

lemma route_attr_dst:
  "route_attr le width n attrs v = Ok v' \<Longrightarrow> width + 4 \<le> length attrs \<or> n \<le> length attrs \<Longrightarrow>
    length (rv_dst v) = 16 \<Longrightarrow> width \<le> 16 \<Longrightarrow> length (rv_dst v') = 16"
  by (auto simp: route_attr_def Let_def split: if_splits)

lemma route_attr_no_panic: "route_attr le width n attrs v \<noteq> Panic"
  by (simp add: route_attr_def Let_def)

lemma route_attrs_safe:
  assumes "length (rv_dst v) = 16" and "width \<le> 16"
  shows "route_attrs le width attrs v \<noteq> Panic \<and>
    (\<forall>v'. route_attrs le width attrs v = Ok v' \<longrightarrow> length (rv_dst v') = 16)"
  using assms(1)
proof (induction "length attrs" arbitrary: attrs v rule: less_induct)
  case less
  show ?case
  proof (cases "attrs = []")
    case ne: False
    let ?n = "unat (of_nat (ne_value le (take 2 attrs)) :: u16)"
    let ?r = "drop (align ?n) attrs"
    have step: "route_attrs le width ?r v' \<noteq> Panic \<and>
        (\<forall>u. route_attrs le width ?r v' = Ok u \<longrightarrow> length (rv_dst u) = 16)"
      if "4 \<le> ?n" "length (rv_dst v') = 16" for v'
      using ne that align_pos [of ?n] by (intro less.hyps) auto
    have dst: "length (rv_dst v') = 16" if "route_attr le width ?n attrs v = Ok v'" "?n \<le> length attrs" for v'
      using route_attr_dst that less.prems assms(2) by blast
    consider (bad) e where "route_attrs le width attrs v = Err e"
      | (one) "route_attrs le width attrs v = route_attr le width ?n attrs v" "?n \<le> length attrs"
      | (more) v' where "route_attrs le width attrs v = route_attrs le width ?r v'" "4 \<le> ?n" "?n \<le> length attrs"
          "route_attr le width ?n attrs v = Ok v'"
      using route_attrs_step [OF ne less.prems assms(2), of le]
      by (cases "route_attr le width ?n attrs v") (auto simp: route_attr_no_panic split: if_splits)
    then show ?thesis
    proof cases
      case bad
      then show ?thesis by simp
    next
      case one
      then show ?thesis using dst route_attr_no_panic by metis
    next
      case more
      show ?thesis unfolding more(1) by (rule step [OF more(2) dst [OF more(4,3)]])
    qed
  qed (use less.prems in simp)
qed

abbreviation route_init :: "bytes \<Rightarrow> route_vars" where
  "route_init payload \<equiv> \<lparr>rv_table = ucast (payload ! 4), rv_dst = replicate 16 0, rv_has_dst = False\<rparr>"

definition route_width :: "bytes \<Rightarrow> nat" where
  "route_width payload = (if payload ! 0 = AF_INET then 4 else 16)"

text \<open>The header of an ordinary, destination-only unicast route of a supported family.\<close>

definition ordinary_route :: "bool \<Rightarrow> bytes \<Rightarrow> bool" where
  "ordinary_route le payload = (12 \<le> length payload \<and> (payload ! 0 = AF_INET \<or> payload ! 0 = AF_INET6) \<and>
     payload ! 7 = 1 \<and> payload ! 2 = 0 \<and>
     (of_nat (ne_value le (take 4 (drop 8 payload))) :: u32) AND 0x200 = 0)"

lemma route_cases:
  "route N le payload tbls =
    (if length payload < 12 then Err ShortRtmsg
     else if \<not> ordinary_route le payload then Ok None
     else if unat (payload ! 1) > route_width payload * 8 then Err InvalidRoutePrefixLength
     else bindr (route_attrs le (route_width payload) (drop 12 payload) (route_init payload)) (\<lambda>v.
       if payload ! 1 \<noteq> 0 \<and> \<not> rv_has_dst v then Err MissingRouteDestination
       else if rv_table v \<notin> set tbls then Ok None
       else case net_new N (if route_width payload = 4 then V4 (ipv4_of_octets (take 4 (rv_dst v)))
           else V6 (ipv6_of_octets (rv_dst v))) (payload ! 1) of
         None \<Rightarrow> Err PrefixLenError | Some net \<Rightarrow> Ok (Some (net_trunc N net))))"
proof (cases "12 \<le> length payload")
  case True
  then have ix: "index payload 0 = Ok (payload ! 0)" "index payload 1 = Ok (payload ! 1)"
      "index payload 2 = Ok (payload ! 2)" "index payload 4 = Ok (payload ! 4)" "index payload 7 = Ok (payload ! 7)"
      "slice_from payload 12 = Ok (drop 12 payload)"
      "bindr (slice_from payload 8) (u32n le) = Ok (of_nat (ne_value le (take 4 (drop 8 payload))))"
    by (auto simp: index_def outcome_simps slice_from_def)
  show ?thesis
    using True by (auto simp: route_def ix ix [unfolded One_nat_def] ordinary_route_def route_width_def ensure_def
        Let_def AF_INET_def AF_INET6_def intro!: bindr_cong)
qed (simp add: route_def ensure_def not_le)

lemma route_no_panic [no_panic]: "route N le payload tbls \<noteq> Panic"
  using route_attrs_safe [of "route_init payload" "route_width payload" le "drop 12 payload"]
  by (auto simp: route_cases route_width_def bindr_eq_Panic split: option.splits)

context ipnet
begin

lemma route_new:
  fixes d :: bytes
  assumes "ordinary_route le payload" and "unat (payload ! 1) \<le> route_width payload * 8"
  defines "ip \<equiv> if route_width payload = 4 then V4 (ipv4_of_octets (take 4 d)) else V6 (ipv6_of_octets d)"
  shows "net_new N ip (payload ! 1) = Some (mk_net ip (payload ! 1)) \<and>
    net_trunc N (mk_net ip (payload ! 1)) = net_mask (mk_net ip (payload ! 1)) \<and>
    net_wf (mk_net ip (payload ! 1)) \<and> is_ipv6 ip = (payload ! 0 = AF_INET6)"
  using assms(1,2)
  by (auto simp: new_spec ip_def ordinary_route_def route_width_def AF_INET_def AF_INET6_def trunc_spec)

lemma route_Some:
  assumes "route N le payload tbls = Ok (Some q)"
  shows "ordinary_route le payload \<and> net_wf q \<and> net_mask q = q \<and> net_prefix_len q = payload ! 1 \<and>
    is_ipv6 (net_addr q) = (payload ! 0 = AF_INET6) \<and>
    (\<exists>v. route_attrs le (route_width payload) (drop 12 payload) (route_init payload) = Ok v \<and>
      rv_table v \<in> set tbls)"
proof -
  from assms have ok: "ordinary_route le payload" "unat (payload ! 1) \<le> route_width payload * 8"
    by (auto simp: route_cases split: if_splits)
  with assms obtain v where v: "route_attrs le (route_width payload) (drop 12 payload) (route_init payload) = Ok v"
      "rv_table v \<in> set tbls"
      "(case net_new N (if route_width payload = 4 then V4 (ipv4_of_octets (take 4 (rv_dst v)))
           else V6 (ipv6_of_octets (rv_dst v))) (payload ! 1) of
         None \<Rightarrow> Err PrefixLenError | Some net \<Rightarrow> Ok (Some (net_trunc N net))) = Ok (Some q)"
    by (auto simp: route_cases bindr_eq_Ok split: if_splits)
  with route_new [OF ok, of "rv_dst v"] ok(1) show ?thesis
    by (auto split: if_splits)
qed

end

section \<open>What the kernel sends\<close>

text \<open>Encodings of \<open>netlink(7)\<close> and \<open>rtnetlink(7)\<close>: padded attributes, route headers, messages.\<close>

definition padding :: "nat \<Rightarrow> bytes" where
  "padding n = replicate (align n - n) 0"

definition rta :: "bool \<Rightarrow> u16 \<times> bytes \<Rightarrow> bytes" where
  "rta le kd = (case kd of (k, d) \<Rightarrow>
     ne_bytes le 2 (4 + length d) @ ne_bytes le 2 (unat k) @ d @ padding (4 + length d))"

definition rtmsg :: "bool \<Rightarrow> ip_net \<Rightarrow> u8 \<Rightarrow> u8 \<Rightarrow> (u16 \<times> bytes) list \<Rightarrow> bytes" where
  "rtmsg le q table kind as =
     [if is_ipv6 (net_addr q) then AF_INET6 else AF_INET, net_prefix_len q, 0, 0, table, 0, 0, kind] @
     replicate 4 0 @ concat (map (rta le) as)"

definition nl_bytes :: "bool \<Rightarrow> message \<Rightarrow> bytes" where
  "nl_bytes le m = ne_bytes le 4 (16 + length (msg_payload m)) @ ne_bytes le 2 (unat (msg_kind m)) @
     ne_bytes le 2 (unat (msg_flags m)) @ ne_bytes le 4 (unat (msg_seq m)) @ ne_bytes le 4 0 @
     msg_payload m @ padding (16 + length (msg_payload m))"

definition rta_ok :: "u16 \<times> bytes \<Rightarrow> bool" where
  "rta_ok kd = (4 + length (snd kd) < 65536)"

lemma length_padding [simp]: "length (padding n) = align n - n"
  by (simp add: padding_def)

lemma length_rta: "length (rta le kd) = align (4 + length (snd kd))"
  using align_ge [of "4 + length (snd kd)"] by (cases kd) (simp add: rta_def)

lemma length_nl_bytes: "length (nl_bytes le m) = align (16 + length (msg_payload m))"
  using align_ge [of "16 + length (msg_payload m)"] by (simp add: nl_bytes_def)

lemma ne_value_u16: "(of_nat (ne_value le (ne_bytes le 2 (unat k))) :: u16) = k"
  by (simp add: ne_value_ne_bytes)

lemma ne_value_u32: "(of_nat (ne_value le (ne_bytes le 4 (unat k))) :: u32) = k"
  using unat_u32_less [of k] by (simp add: ne_value_ne_bytes)

definition rta_effect :: "bool \<Rightarrow> nat \<Rightarrow> u16 \<times> bytes \<Rightarrow> route_vars \<Rightarrow> (nl_error, route_vars) outcome" where
  "rta_effect le width kd v = (case kd of (k, d) \<Rightarrow>
     if k AND 0x3fff = 1 then
       (if length d = width then Ok (v\<lparr>rv_dst := d @ drop width (rv_dst v), rv_has_dst := True\<rparr>)
        else Err InvalidRtaDst)
     else if k AND 0x3fff = 15 then
       (if length d = 4 then Ok (v\<lparr>rv_table := of_nat (ne_value le d)\<rparr>) else Err InvalidRtaTable)
     else Ok v)"

lemma route_attrs_rta:
  assumes "rta_ok kd" and "length (rv_dst v) = 16" and "width \<le> 16"
  shows "route_attrs le width (rta le kd @ rest) v = bindr (rta_effect le width kd v) (route_attrs le width rest)"
proof -
  obtain k d where kd: "kd = (k, d)" by (cases kd)
  let ?n = "4 + length d"
  define as where "as = rta le kd @ rest"
  have front: "take 2 as = ne_bytes le 2 ?n" "take 2 (drop 2 as) = ne_bytes le 2 (unat k)"
      "drop 4 as = d @ padding ?n @ rest" "4 \<le> length as"
    using length_rta [of le kd] align_ge [of ?n] by (auto simp: as_def kd rta_def)
  then have ne: "as \<noteq> []" by auto
  have n: "unat (of_nat (ne_value le (take 2 as)) :: u16) = ?n"
    using assms(1) by (simp only: front ne_value_ne_bytes unat_of_nat_u16) (simp add: kd rta_ok_def)
  have kind: "(of_nat (ne_value le (take 2 (drop 2 as))) :: u16) = k"
    by (simp only: front ne_value_u16)
  have eff: "route_attr le width ?n as v = rta_effect le width kd v"
    unfolding route_attr_def rta_effect_def kind Let_def by (simp add: kd front)
  have len: "?n \<le> length as" "align ?n \<le> length as" "drop (align ?n) as = rest"
    using length_rta [of le kd] align_ge [of ?n] by (simp_all add: kd as_def)
  have "rest = []" if "?n = length as"
    using that length_rta [of le kd] align_ge [of ?n] by (simp add: kd as_def)
  with len front(4) have "route_attrs le width as v = bindr (rta_effect le width kd v) (route_attrs le width rest)"
    using route_attrs_step [OF ne assms(2,3), of le] by (auto simp: n eff intro!: bindr_cong)
  then show ?thesis by (simp only: as_def)
qed

lemma route_attrs_ignored:
  assumes "list_all (\<lambda>kd. rta_ok kd \<and> fst kd AND 0x3fff \<noteq> 1 \<and> fst kd AND 0x3fff \<noteq> 15) as"
    and "length (rv_dst v) = 16" and "width \<le> 16"
  shows "route_attrs le width (concat (map (rta le) as) @ rest) v = route_attrs le width rest v"
  using assms(1) by (induction as) (auto simp: route_attrs_rta assms(2,3) rta_effect_def)

definition other_rta :: "u16 \<times> bytes \<Rightarrow> bool" where
  "other_rta kd = (rta_ok kd \<and> fst kd AND 0x3fff \<noteq> 1 \<and> fst kd AND 0x3fff \<noteq> 15)"

lemma route_attrs_kernel:
  assumes "list_all other_rta (as1 @ as2 @ as3)" and "width \<le> 16" and "length d = width"
    and "length (rv_dst v) = 16"
  shows "route_attrs le width (concat (map (rta le) (as1 @ [(15, ne_bytes le 4 (unat table))] @ as2 @ [(1, d)] @ as3))) v =
    Ok \<lparr>rv_table = table, rv_dst = d @ drop width (rv_dst v), rv_has_dst = True\<rparr>"
proof -
  have others: "list_all (\<lambda>kd. rta_ok kd \<and> fst kd AND 0x3fff \<noteq> 1 \<and> fst kd AND 0x3fff \<noteq> 15) as"
    if "as \<in> {as1, as2, as3}" for as
    using assms(1) that by (auto simp: other_rta_def [abs_def])
  have ok: "rta_ok (15, ne_bytes le 4 (unat table))" "rta_ok (1, d)"
    using assms(2,3) by (simp_all add: rta_ok_def)
  have step: "route_attrs le width (concat (map (rta le) as) @ rest) u = route_attrs le width rest u"
    if "as \<in> {as1, as2, as3}" "length (rv_dst u) = 16" for as rest u
    using route_attrs_ignored [OF others] that assms(2) by blast
  show ?thesis
    using assms(2-4) step [of as1] step [of as2] step [of as3 _ "[]"] ok
    by (cases v) (simp add: route_attrs_rta rta_effect_def ne_value_u32)
qed

context ipnet
begin

lemma route_rtmsg:
  assumes "net_wf q" and "net_mask q = q" and "list_all other_rta (as1 @ as2 @ as3)"
  shows "route N le (rtmsg le q t 1
      (as1 @ [(15, ne_bytes le 4 (unat table))] @ as2 @ [(1, octets (net_addr q))] @ as3)) tbls =
    Ok (if table \<in> set tbls then Some q else None)"
proof -
  let ?as = "as1 @ [(15, ne_bytes le 4 (unat table))] @ as2 @ [(1, octets (net_addr q))] @ as3"
  define payload where "payload = rtmsg le q t 1 ?as"
  have hdr: "payload ! 0 = (if is_ipv6 (net_addr q) then AF_INET6 else AF_INET)" "payload ! 1 = net_prefix_len q"
      "drop 12 payload = concat (map (rta le) ?as)" "12 \<le> length payload"
    by (simp_all add: payload_def rtmsg_def)
  have ord: "ordinary_route le payload"
    by (simp add: ordinary_route_def payload_def rtmsg_def AF_INET_def AF_INET6_def ne_value_def)
  have width: "route_width payload = length (octets (net_addr q))" "route_width payload \<le> 16"
      "route_width payload * 8 = addr_bits (net_addr q)"
    by (cases q; simp add: route_width_def hdr AF_INET_def AF_INET6_def)+
  have attrs: "route_attrs le (route_width payload) (drop 12 payload) (route_init payload) =
      Ok \<lparr>rv_table = table, rv_dst = octets (net_addr q) @ replicate (16 - route_width payload) 0, rv_has_dst = True\<rparr>"
    unfolding hdr(3) using route_attrs_kernel [OF assms(3) width(2) width(1) [symmetric]] by simp
  have ip: "(if route_width payload = 4 then V4 (ipv4_of_octets (take 4 (octets (net_addr q) @ r)))
      else V6 (ipv6_of_octets (octets (net_addr q) @ r))) = net_addr q" if "is_ipv6 (net_addr q) \<Longrightarrow> r = []" for r
    using that by (cases q) (simp_all add: route_width_def hdr AF_INET_def AF_INET6_def)
  have r: "is_ipv6 (net_addr q) \<Longrightarrow> replicate (16 - route_width payload) 0 = []"
    using width(1) by (cases q) simp_all
  have new: "net_new N (net_addr q) (net_prefix_len q) = Some q" "net_trunc N q = q"
    using assms(1,2) by (simp_all add: new_spec trunc_spec net_wf_def)
  have "\<not> length payload < 12" "\<not> unat (net_prefix_len q) > route_width payload * 8"
    using hdr(4) assms(1) by (simp_all add: width(3) net_wf_def)
  then have "route N le payload tbls = (if table \<notin> set tbls then Ok None else Ok (Some q))"
    by (simp only: route_cases ord attrs bindr.simps ip [OF r] hdr(2) new option.case route_vars.select_convs
        simp_thms if_True if_False)
  then show ?thesis by (simp add: payload_def)
qed

end

lemma messages_nl_bytes:
  assumes "16 + length (msg_payload m) < 2 ^ 32"
  shows "messages le f (nl_bytes le m @ rest) st =
    (let (st, r) = f m st in tryr r st (\<lambda>_. messages le f rest st))"
proof -
  let ?p = "msg_payload m"
  let ?n = "16 + length ?p"
  define b where "b = nl_bytes le m @ rest"
  have front: "take 4 b = ne_bytes le 4 ?n" "take 2 (drop 4 b) = ne_bytes le 2 (unat (msg_kind m))"
      "take 2 (drop 6 b) = ne_bytes le 2 (unat (msg_flags m))" "take 4 (drop 8 b) = ne_bytes le 4 (unat (msg_seq m))"
      "drop 16 b = ?p @ padding ?n @ rest"
    by (simp_all add: b_def nl_bytes_def)
  have len: "msg_len le b = ?n"
    unfolding msg_len_def front ne_value_ne_bytes using assms by (simp add: unat_of_nat del: of_nat_add)
  have head: "msg_head le b = m"
    unfolding msg_head_def front ne_value_u16 ne_value_u32 len HEADER_def by (simp add: front)
  have size: "?n \<le> length b" "align ?n \<le> length b" "drop (align ?n) b = rest" "b \<noteq> []"
    using length_nl_bytes [of le m] align_ge [of ?n] by (auto simp: b_def)
  have "rest = []" if "?n = length b"
  proof -
    have "length b = align ?n + length rest"
      using length_nl_bytes [of le m] by (simp add: b_def)
    with that align_ge [of ?n] have "length rest = 0" by linarith
    then show ?thesis by simp
  qed
  with size have tail: "(if ?n = length b then (s, Ok ()) else if align ?n \<le> length b
      then messages le f (drop (align ?n) b) s else (s, Err ShortPadding)) = messages le f rest s" for s
    by simp
  have "\<not> length b < HEADER" "HEADER \<le> ?n" using size(1) by (simp_all add: HEADER_def)
  with size(1) have "messages le f b st = (let (st, r) = f m st in tryr r st (\<lambda>_. messages le f rest st))"
    by (simp only: messages_step [OF size(4)] len head tail simp_thms if_True if_False)
  then show ?thesis by (simp only: b_def)
qed

lemmas messages_nl_bytes_last = messages_nl_bytes [where rest = "[]", simplified]

section \<open>Properties\<close>

text \<open>
  No datagram makes the netlink decoders panic: the message walk (whatever closure it
  runs, as long as that does not panic), the route decoder and the dump status.
\<close>

theorem netlink_never_panics:
  assumes "\<And>m st. snd (f m st) \<noteq> Panic"
  shows "snd (messages le f bytes st) \<noteq> Panic \<and> route N le payload tbls \<noteq> Panic \<and>
    dump_status le payload saw \<noteq> Panic"
  using messages_no_panic [OF assms] route_no_panic
  by (auto simp: dump_status_def i32n_def outcome_simps ensure_def)

theorem netlink_never_panics_witness:
  "snd (messages True (\<lambda>m n. (n + 1 :: nat, Ok ())) [16, 0, 0] 0) \<noteq> Panic"
  using netlink_never_panics [of "\<lambda>m n. (n + 1 :: nat, Ok ())" True "[16, 0, 0]" 0 ipnet_ref "[]" "[]" False]
  by simp

text \<open>
  The walk delivers a datagram's messages to the closure in order, each exactly once and
  with its fields intact, and stops at the first error: on the encoding of any list of messages
  it behaves as the closure run over that list.
\<close>

theorem messages_in_order:
  assumes "\<forall>m \<in> set ms. 16 + length (msg_payload m) < 2 ^ 32"
  shows "messages le f (concat (map (nl_bytes le) ms)) st = run_all f ms st"
  using assms by (induction ms arbitrary: st) (auto simp: messages_nl_bytes intro!: arg_cong2 [where f = tryr] prod.case_cong)

theorem messages_in_order_witness:
  "messages True (\<lambda>m n. (n + 1 :: nat, Ok ())) (concat (map (nl_bytes True)
     [\<lparr>msg_kind = 24, msg_flags = 2, msg_seq = 7, msg_payload = [1, 2, 3]\<rparr>,
      \<lparr>msg_kind = 3, msg_flags = 2, msg_seq = 7, msg_payload = []\<rparr>])) 0 = (2, Ok ())"
  by (subst messages_in_order) simp_all

text \<open>
  C29: The route decoder exports only ordinary routes: a prefix it returns comes from a
  destination-only unicast route that is not a cache clone, has the family and length of the
  message header, has its host bits cleared, and belongs to one of the configured tables.
\<close>

theorem route_only_ordinary:
  assumes "ipnet N" and "route N le payload tbls = Ok (Some q)"
  shows "payload ! 7 = 1 \<and> payload ! 2 = 0 \<and>
    (of_nat (ne_value le (take 4 (drop 8 payload))) :: u32) AND 0x200 = 0 \<and>
    net_wf q \<and> net_trunc N q = q \<and> net_prefix_len q = payload ! 1 \<and>
    is_ipv6 (net_addr q) = (payload ! 0 = AF_INET6) \<and>
    (\<exists>v. route_attrs le (route_width payload) (drop 12 payload) (route_init payload) = Ok v \<and>
      rv_table v \<in> set tbls)"
  using ipnet.route_Some [OF assms] ipnet.trunc_spec [OF assms(1), of q] by (simp add: ordinary_route_def)

theorem route_only_ordinary_witness:
  "net_wf (NetV4 0x0A000000 8) \<and> net_trunc ipnet_ref (NetV4 0x0A000000 8) = NetV4 0x0A000000 8"
proof -
  have "net_wf (NetV4 0x0A000000 8)" "net_mask (NetV4 0x0A000000 8) = NetV4 0x0A000000 8"
    by (simp_all add: net_mask_def mask_top_def)
  from ref.route_rtmsg [OF this, of "[]" "[]" "[]" True 254 254 "[254]"]
  have "\<exists>payload. route ipnet_ref True payload [254] = Ok (Some (NetV4 0x0A000000 8))"
    by auto
  with route_only_ordinary [OF ref.ipnet_axioms] show ?thesis by blast
qed



text \<open>
  A dump ends successfully exactly with an empty or zero status, or with \<open>ENOENT\<close> when no
  route was received: an error after the first route never passes for a complete dump.
\<close>

theorem dump_status_ok_iff:
  "dump_status le payload saw_route = Ok () \<longleftrightarrow> payload = [] \<or>
     4 \<le> length payload \<and>
     (let code = sint (of_nat (ne_value le (take 4 payload)) :: u32) in code = 0 \<or> code = - 2 \<and> \<not> saw_route)"
  by (auto simp: dump_status_def i32n_def outcome_simps ENOENT_def Let_def)

end
