(* ===== verification/Kernel.thy ===== *)
theory Kernel
  imports Netlink
begin

unbundle bit_operations_syntax

text \<open>
  Kernel route collection of \<open>src/netlink.rs\<close>: receiving datagrams, draining notifications,
  the complete dump of the selected tables, and the export sets of the ACLs.

  A netlink socket is the list of the results its next \<open>recvmsg\<close> calls give; an empty list is
  a socket with nothing queued. A \<open>HashSet\<close> of prefixes is the distinct list of its elements in
  the order it iterates, a \<open>HashMap\<close> of exports an association list. The waiting loop of a dump
  runs against a script of rounds, one for each iteration: the time elapsed, the stop flag and
  what has arrived since. A loop whose script ends before it does is still waiting (\<open>None\<close>).
\<close>

section \<open>Sockets\<close>

datatype io_error = WouldBlock | Interrupted | InvalidData | OtherIo

record datagram =
  dg_bytes :: bytes
  dg_flags :: u32
  dg_namelen :: u32
  dg_pid :: u32

datatype syscall = Failed io_error | Received datagram

type_synonym socket = "syscall list"

text \<open>\<open>MSG_TRUNC\<close> and the size of \<open>sockaddr_nl\<close> in the Linux ABI.\<close>

definition MSG_TRUNC :: u32 where
  "MSG_TRUNC = 0x20"

definition SOCKADDR_NL_SIZE :: u32 where
  "SOCKADDR_NL_SIZE = 12"

definition recvmsg :: "syscall \<Rightarrow> io_error + bytes" where
  "recvmsg c = (case c of
     Failed e \<Rightarrow> Inl e
   | Received d \<Rightarrow>
       if dg_flags d AND MSG_TRUNC \<noteq> 0 then Inl InvalidData
       else if dg_namelen d \<noteq> SOCKADDR_NL_SIZE \<or> dg_pid d \<noteq> 0 then Inl InvalidData
       else Inr (dg_bytes d))"

fun recv :: "socket \<Rightarrow> (io_error + bytes) \<times> socket" where
  "recv [] = (Inl WouldBlock, [])"
| "recv (c # s) = (recvmsg c, s)"

text \<open>The bytes of a dump request.\<close>

definition request_bytes :: "bool \<Rightarrow> u32 \<Rightarrow> u8 \<Rightarrow> u32 \<Rightarrow> bytes" where
  "request_bytes le seq family table =
     ne_bytes le 4 36 @ ne_bytes le 2 26 @ ne_bytes le 2 0x301 @ ne_bytes le 4 (unat seq) @ replicate 4 0 @
     [family] @ replicate 11 0 @ ne_bytes le 2 8 @ ne_bytes le 2 15 @ ne_bytes le 4 (unat table)"

text \<open>The result of \<open>sendto\<close> is the parameter \<open>send\<close>.\<close>

definition request :: "(bytes \<Rightarrow> int) \<Rightarrow> bool \<Rightarrow> u32 \<Rightarrow> u8 \<Rightarrow> u32 \<Rightarrow> (nl_error, unit) outcome" where
  "request send le seq family table =
    (let req = request_bytes le seq family table; n = send req in
     bindr (ensure (\<not> n < 0) RequestFailed) (\<lambda>_.
     ensure (nat n = length req) ShortRequest))"

text \<open>
  Opening a socket: what \<open>socket\<close>, \<open>setsockopt\<close>, \<open>getsockopt\<close> (with the effective size) and \<open>bind\<close>
  return. The casts are those of the source: the requested size as \<open>i32\<close>, the effective one as
  \<open>usize\<close>. The value says whether the warning about a capped buffer is logged.
\<close>

record nl_open_env =
  no_socket :: int
  no_setsockopt :: "32 word \<Rightarrow> int"
  no_getsockopt :: "int \<times> 32 word"
  no_bind :: "u32 \<Rightarrow> int"

definition option_call :: "int \<Rightarrow> (nl_error, unit) outcome" where
  "option_call rc = ensure (\<not> rc < 0) OptionFailed"

definition saturating_double :: "u64 \<Rightarrow> u64" where
  "saturating_double n = (if 2 * unat n < 2 ^ 64 then 2 * n else - 1)"

definition open_socket :: "nl_open_env \<Rightarrow> u32 \<Rightarrow> u64 \<Rightarrow> (nl_error, bool) outcome" where
  "open_socket env groups buffer =
     bindr (ensure (\<not> no_socket env < 0) SocketFailed) (\<lambda>_.
     bindr (option_call (no_setsockopt env (ucast buffer))) (\<lambda>_.
     let (rc, effective) = no_getsockopt env in
     bindr (ensure (\<not> rc < 0) GetOptionFailed) (\<lambda>_.
     let capped = (groups \<noteq> 0 \<and> (scast effective :: u64) < saturating_double buffer) in
     bindr (ensure (\<not> no_bind env groups < 0) NlBindFailed) (\<lambda>_.
     Ok capped))))"

text \<open>\<open>poll\<close> on the two sockets: the return value, the error of a negative one, and the events.\<close>

definition POLLHUP :: u16 where
  "POLLHUP = 0x10"

definition POLLNVAL :: u16 where
  "POLLNVAL = 0x20"

record poll_result =
  pl_rc :: int
  pl_errno :: io_error
  pl_revents :: "u16 list"

definition poll :: "poll_result \<Rightarrow> (nl_error, unit) outcome" where
  "poll r =
     bindr (ensure (\<not> (pl_rc r < 0 \<and> pl_errno r \<noteq> Interrupted)) PollFailed) (\<lambda>_.
     ensure (list_all (\<lambda>revents. revents AND (POLLNVAL OR POLLHUP) = 0) (pl_revents r)) NetlinkSocketClosed)"

section \<open>Notifications\<close>

record events =
  ev_changed :: bool
  ev_lost :: bool
  ev_datagrams :: u64

definition events_default :: events where
  "events_default = \<lparr>ev_changed = False, ev_lost = False, ev_datagrams = 0\<rparr>"

definition drain_msg :: "message \<Rightarrow> events \<Rightarrow> events \<times> (nl_error, unit) outcome" where
  "drain_msg m ev =
    (if msg_kind m = 4 \<or> msg_kind m = 2 then (ev\<lparr>ev_lost := True\<rparr>, Ok ())
     else if 16 \<le> msg_kind m \<and> msg_kind m \<le> 28 \<or> 104 \<le> msg_kind m \<and> msg_kind m \<le> 106
       then (ev\<lparr>ev_changed := True\<rparr>, Ok ())
     else (ev, Ok ()))"

text \<open>The bounded receive loop: the number of passes left, the socket and the events so far.\<close>

fun drain_loop :: "bool \<Rightarrow> nat \<Rightarrow> socket \<Rightarrow> events \<Rightarrow> (nl_error, events \<times> socket) outcome" where
  "drain_loop le 0 s ev = Ok (ev, s)"
| "drain_loop le (Suc k) s ev = (case recv s of
     (Inr data, s) \<Rightarrow>
       let ev = ev\<lparr>ev_datagrams := ev_datagrams ev + 1\<rparr> in
       if data = [] then Ok (ev\<lparr>ev_lost := True\<rparr>, s)
       else (case messages le drain_msg data ev of
           (ev, Ok _) \<Rightarrow> drain_loop le k s ev
         | (ev, Err _) \<Rightarrow> drain_loop le k s (ev\<lparr>ev_lost := True\<rparr>)
         | (ev, Panic) \<Rightarrow> Panic)
   | (Inl WouldBlock, s) \<Rightarrow> Ok (ev, s)
   | (Inl Interrupted, s) \<Rightarrow> drain_loop le k s ev
   | (Inl _, s) \<Rightarrow> Ok (ev\<lparr>ev_lost := True\<rparr>, s))"

definition drain :: "bool \<Rightarrow> socket \<Rightarrow> (nl_error, events \<times> socket) outcome" where
  "drain le s = drain_loop le 128 s events_default"

section \<open>Dumps\<close>

record dump_state =
  ds_done :: bool
  ds_saw_route :: bool
  ds_result :: "ip_net list"

definition dump_msg :: "ipnet_ops \<Rightarrow> bool \<Rightarrow> config \<Rightarrow> u32 \<Rightarrow> message \<Rightarrow> dump_state \<Rightarrow>
    dump_state \<times> (nl_error, unit) outcome" where
  "dump_msg N le cfg seq m st =
     tryr (ensure (msg_seq m = seq) UnexpectedSequence) st (\<lambda>_.
     tryr (ensure (msg_flags m AND NLM_F_DUMP_INTR = 0) InterruptedDump) st (\<lambda>_.
     if msg_kind m = NLMSG_DONE then
       tryr (dump_status le (msg_payload m) (ds_saw_route st)) st (\<lambda>_. (st\<lparr>ds_done := True\<rparr>, Ok ()))
     else if msg_kind m = 2 then
       tryr (ensure (4 \<le> length (msg_payload m)) ShortNlmsgError) st (\<lambda>_.
       tryr (i32n le (msg_payload m)) st (\<lambda>code.
       if code = - ENOENT \<and> \<not> ds_saw_route st then (st\<lparr>ds_done := True\<rparr>, Ok ())
       else if code \<noteq> 0 then (st, Err (DumpFailed (saturating_neg code)))
       else (st, Ok ())))
     else if msg_kind m = 4 then (st, Err DumpOverrun)
     else if msg_kind m = RTM_NEWROUTE then
       let st = st\<lparr>ds_saw_route := True\<rparr> in
       tryr (route N le (msg_payload m) (tables (cfg_kernel cfg))) st (\<lambda>r.
       case r of
         Some prefix \<Rightarrow>
           let st = st\<lparr>ds_result := List.insert prefix (ds_result st)\<rparr> in
           tryr (ensure (length (ds_result st) \<le> unat (max_prefixes (cfg_kernel cfg))) MaxPrefixesExceeded) st (\<lambda>_.
           (st, Ok ()))
       | None \<Rightarrow> (st, Ok ()))
     else (st, Ok ())))"

fun dump_batch :: "ipnet_ops \<Rightarrow> bool \<Rightarrow> config \<Rightarrow> u32 \<Rightarrow> nat \<Rightarrow> socket \<Rightarrow> dump_state \<Rightarrow>
    (nl_error, dump_state \<times> socket) outcome" where
  "dump_batch N le cfg seq 0 s st = Ok (st, s)"
| "dump_batch N le cfg seq (Suc k) s st = (case recv s of
     (Inr data, s) \<Rightarrow>
       bindr (ensure (data \<noteq> []) EmptyDumpDatagram) (\<lambda>_.
       let (st, r) = messages le (dump_msg N le cfg seq) data st in
       bindr r (\<lambda>_.
       if ds_done st then Ok (st, s) else dump_batch N le cfg seq k s st))
   | (Inl WouldBlock, s) \<Rightarrow> Ok (st, s)
   | (Inl Interrupted, s) \<Rightarrow> dump_batch N le cfg seq k s st
   | (Inl _, s) \<Rightarrow> Err DumpRecvFailed)"

record round =
  rd_stop :: bool
  rd_elapsed_ms :: nat
  rd_events :: socket
  rd_dump :: socket
  rd_poll :: poll_result

record snap_vars =
  sv_events :: socket
  sv_dump :: socket
  sv_state :: dump_state
  sv_changed :: bool

text \<open>One iteration of \<open>while !done\<close>.\<close>

definition dump_round :: "ipnet_ops \<Rightarrow> bool \<Rightarrow> config \<Rightarrow> u32 \<Rightarrow> round \<Rightarrow> snap_vars \<Rightarrow>
    (nl_error, snap_vars) outcome" where
  "dump_round N le cfg seq r v =
     bindr (ensure (\<not> rd_stop r) Stopping) (\<lambda>_.
     bindr (ensure (rd_elapsed_ms r < 1000 * unat (dump_timeout_secs (cfg_kernel cfg))) DumpDeadlineExceeded) (\<lambda>_.
     bindr (drain le (sv_events v @ rd_events r)) (\<lambda>(ev, events).
     bindr (ensure (\<not> ev_lost ev) LossDuringDump) (\<lambda>_.
     bindr (dump_batch N le cfg seq 128 (sv_dump v @ rd_dump r) (sv_state v)) (\<lambda>(st, dump).
     bindr (if \<not> ds_done st then poll (rd_poll r) else Ok ()) (\<lambda>_.
     Ok \<lparr>sv_events = events, sv_dump = dump, sv_state = st, sv_changed = sv_changed v \<or> ev_changed ev\<rparr>))))))"

fun dump_loop :: "ipnet_ops \<Rightarrow> bool \<Rightarrow> config \<Rightarrow> u32 \<Rightarrow> round list \<Rightarrow> snap_vars \<Rightarrow>
    (nl_error, snap_vars \<times> round list) outcome option" where
  "dump_loop N le cfg seq [] v = (if ds_done (sv_state v) then Some (Ok (v, [])) else None)"
| "dump_loop N le cfg seq (r # rs) v =
    (if ds_done (sv_state v) then Some (Ok (v, r # rs))
     else case dump_round N le cfg seq r v of
       Ok v \<Rightarrow> dump_loop N le cfg seq rs v
     | Err e \<Rightarrow> Some (Err e)
     | Panic \<Rightarrow> Some Panic)"

text \<open>The family and table pairs, in the order of the two nested \<open>for\<close> loops.\<close>

definition dump_targets :: "config \<Rightarrow> (u8 \<times> u32) list" where
  "dump_targets cfg = concat (map (\<lambda>family.
     if family = AF_INET6 \<and> \<not> cfg_ipv6 cfg then []
     else map (\<lambda>table. (family, table)) (tables (cfg_kernel cfg))) [AF_INET, AF_INET6])"

definition next_seq :: "u32 \<Rightarrow> u32" where
  "next_seq seq = max (seq + 1) 1"

fun dump_all :: "ipnet_ops \<Rightarrow> bool \<Rightarrow> config \<Rightarrow> (bytes \<Rightarrow> int) \<Rightarrow> (u8 \<times> u32) list \<Rightarrow> u32 \<Rightarrow> round list \<Rightarrow>
    snap_vars \<Rightarrow> (u32 \<times> (nl_error, snap_vars) outcome) option" where
  "dump_all N le cfg send [] seq rs v = Some (seq, Ok v)"
| "dump_all N le cfg send ((family, table) # targets) seq rs v =
    (let seq = next_seq seq in
     case request send le seq family table of
       Err e \<Rightarrow> Some (seq, Err e)
     | Panic \<Rightarrow> Some (seq, Panic)
     | Ok _ \<Rightarrow> (case dump_loop N le cfg seq rs
         (v\<lparr>sv_state := (sv_state v)\<lparr>ds_done := False, ds_saw_route := False\<rparr>\<rparr>) of
       None \<Rightarrow> None
     | Some (Ok (v, rs)) \<Rightarrow> dump_all N le cfg send targets seq rs v
     | Some (Err e) \<Rightarrow> Some (seq, Err e)
     | Some Panic \<Rightarrow> Some (seq, Panic)))"

text \<open>The operating system during one snapshot.\<close>

record snap_env =
  se_open :: nl_open_env
  se_option :: int
  se_send :: "bytes \<Rightarrow> int"
  se_rounds :: "round list"
  se_final_events :: socket

definition snapshot :: "ipnet_ops \<Rightarrow> bool \<Rightarrow> config \<Rightarrow> snap_env \<Rightarrow> socket \<Rightarrow> u32 \<Rightarrow>
    (u32 \<times> (nl_error, ip_net list \<times> bool) outcome) option" where
  "snapshot N le cfg env events seq =
    (case bindr (open_socket (se_open env) 0 (receive_buffer_bytes (cfg_kernel cfg))) (\<lambda>_. option_call (se_option env)) of
       Err e \<Rightarrow> Some (seq, Err e)
     | Panic \<Rightarrow> Some (seq, Panic)
     | Ok _ \<Rightarrow> (case dump_all N le cfg (se_send env) (dump_targets cfg) seq (se_rounds env)
         \<lparr>sv_events = events, sv_dump = [],
          sv_state = \<lparr>ds_done = False, ds_saw_route = False, ds_result = []\<rparr>, sv_changed = False\<rparr> of
       None \<Rightarrow> None
     | Some (seq, Ok v) \<Rightarrow>
         Some (seq,
           bindr (drain le (sv_events v @ se_final_events env)) (\<lambda>(ev, _).
           bindr (ensure (\<not> ev_lost ev) LossAtEndOfDump) (\<lambda>_.
           Ok (ds_result (sv_state v), sv_changed v \<or> ev_changed ev))))
     | Some (seq, Err e) \<Rightarrow> Some (seq, Err e)
     | Some (seq, Panic) \<Rightarrow> Some (seq, Panic)))"

text \<open>The notification socket that \<open>run\<close> opens first: its multicast groups and its buffer.\<close>

definition run_groups :: "config \<Rightarrow> u32" where
  "run_groups cfg = 1 OR 0x10 OR 0x40 OR (if cfg_ipv6 cfg then 0x100 OR 0x400 else 0)"

definition run_open :: "nl_open_env \<Rightarrow> config \<Rightarrow> (nl_error, bool) outcome" where
  "run_open env cfg = open_socket env (run_groups cfg) (receive_buffer_bytes (cfg_kernel cfg))"

section \<open>Exports\<close>

type_synonym prefixes = "ip_net list"
type_synonym exports = "(string \<times> prefixes) list"

fun filter_acls :: "ipnet_ops \<Rightarrow> config \<Rightarrow> prefixes \<Rightarrow> string list \<Rightarrow> (nl_error, exports) outcome" where
  "filter_acls N cfg prefixes [] = Ok []"
| "filter_acls N cfg prefixes (name # names) =
     bindr (expect (map_of (acls cfg) name)) (\<lambda>acl.
     bindr (filter_acls N cfg prefixes names) (\<lambda>rest.
     Ok ((name, List.filter (permits N acl) prefixes) # rest)))"

definition filter_exports :: "ipnet_ops \<Rightarrow> config \<Rightarrow> prefixes \<Rightarrow> (nl_error, exports) outcome" where
  "filter_exports N cfg prefixes = filter_acls N cfg prefixes (remdups (map export_acl (peers cfg)))"

section \<open>Draining notifications\<close>

definition loss_kind :: "u16 \<Rightarrow> bool" where
  "loss_kind k = (k = 4 \<or> k = 2)"

definition change_kind :: "u16 \<Rightarrow> bool" where
  "change_kind k = (16 \<le> k \<and> k \<le> 28 \<or> 104 \<le> k \<and> k \<le> 106)"

text \<open>A receive result that loses no notification, and one that announces a change.\<close>

definition clean :: "bool \<Rightarrow> syscall \<Rightarrow> bool" where
  "clean le c = (case recvmsg c of
     Inr data \<Rightarrow> data \<noteq> [] \<and> snd (decode le data) = Ok () \<and> (\<forall>m \<in> set (fst (decode le data)). \<not> loss_kind (msg_kind m))
   | Inl e \<Rightarrow> e = WouldBlock \<or> e = Interrupted)"

definition announces :: "bool \<Rightarrow> syscall \<Rightarrow> bool" where
  "announces le c = (case recvmsg c of
     Inr data \<Rightarrow> \<exists>m \<in> set (fst (decode le data)). change_kind (msg_kind m)
   | Inl _ \<Rightarrow> False)"

lemma calls_no_panic [simp, no_panic]:
  "request send le seq family table \<noteq> Panic" "option_call rc \<noteq> Panic" "open_socket env groups buffer \<noteq> Panic" "poll r \<noteq> Panic"
  by (simp_all add: request_def option_call_def open_socket_def poll_def Let_def bindr_eq_Panic split: prod.split)

lemma change_not_loss: "change_kind k \<Longrightarrow> \<not> loss_kind k"
  by (auto simp: change_kind_def loss_kind_def word_le_nat_alt)

lemma drain_msg_eq:
  "drain_msg m ev = (ev\<lparr>ev_lost := ev_lost ev \<or> loss_kind (msg_kind m),
     ev_changed := ev_changed ev \<or> change_kind (msg_kind m)\<rparr>, Ok ())"
  using change_not_loss [of "msg_kind m"]
  by (cases ev) (auto simp: drain_msg_def loss_kind_def change_kind_def)

lemma run_drain:
  "run_all drain_msg ms ev = (ev\<lparr>ev_lost := ev_lost ev \<or> (\<exists>m \<in> set ms. loss_kind (msg_kind m)),
     ev_changed := ev_changed ev \<or> (\<exists>m \<in> set ms. change_kind (msg_kind m))\<rparr>, Ok ())"
  by (induction ms arbitrary: ev) (auto simp: drain_msg_eq)

lemma messages_drain:
  "messages le drain_msg data ev = (ev\<lparr>ev_lost := ev_lost ev \<or> (\<exists>m \<in> set (fst (decode le data)). loss_kind (msg_kind m)),
     ev_changed := ev_changed ev \<or> (\<exists>m \<in> set (fst (decode le data)). change_kind (msg_kind m))\<rparr>, snd (decode le data))"
  by (simp add: messages_decode run_drain)

lemma drain_step:
  "\<exists>ev1. (drain_loop le (Suc k) (c # t) ev = drain_loop le k t ev1 \<or> drain_loop le (Suc k) (c # t) ev = Ok (ev1, t)) \<and>
     (ev_lost ev1 \<longleftrightarrow> ev_lost ev \<or> \<not> clean le c) \<and> (ev_changed ev1 \<longleftrightarrow> ev_changed ev \<or> announces le c)"
proof (cases "recvmsg c")
  case (Inl e)
  then show ?thesis
    by (cases e) (auto simp: clean_def announces_def intro: exI [of _ ev] exI [of _ "ev\<lparr>ev_lost := True\<rparr>"])
next
  case (Inr data)
  let ?ev0 = "ev\<lparr>ev_datagrams := ev_datagrams ev + 1\<rparr>"
  obtain ev1 r where m: "messages le drain_msg data ?ev0 = (ev1, r)"
    by (cases "messages le drain_msg data ?ev0")
  from m [symmetric] have eff: "snd (decode le data) = r"
      "ev_lost ev1 \<longleftrightarrow> ev_lost ev \<or> (\<exists>m \<in> set (fst (decode le data)). loss_kind (msg_kind m))"
      "ev_changed ev1 \<longleftrightarrow> ev_changed ev \<or> announces le c"
    using Inr by (auto simp: messages_drain announces_def)
  show ?thesis
  proof (cases "data = []")
    case True
    with Inr show ?thesis
      by (intro exI [of _ "?ev0\<lparr>ev_lost := True\<rparr>"]) (simp add: clean_def announces_def)
  next
    case False
    show ?thesis
    proof (cases r)
      case (Ok u)
      with False Inr m eff show ?thesis
        by (intro exI [of _ ev1]) (auto simp: clean_def)
    next
      case (Err e)
      with False Inr m eff show ?thesis
        by (intro exI [of _ "ev1\<lparr>ev_lost := True\<rparr>"]) (auto simp: clean_def)
    next
      case Panic
      with eff(1) decode_no_panic [of le data] show ?thesis by simp
    qed
  qed
qed

lemma drain_loop_spec:
  "\<exists>ev' used rest. drain_loop le k s ev = Ok (ev', rest) \<and> s = used @ rest \<and>
     (ev_lost ev' \<longleftrightarrow> ev_lost ev \<or> (\<exists>c \<in> set used. \<not> clean le c)) \<and>
     (ev_changed ev' \<longleftrightarrow> ev_changed ev \<or> (\<exists>c \<in> set used. announces le c))"
proof (induction k arbitrary: s ev)
  case 0
  show ?case by (rule exI [of _ ev], rule exI [of _ "[]"], rule exI [of _ s]) simp
next
  case (Suc k)
  show ?case
  proof (cases s)
    case Nil
    then show ?thesis by (intro exI [of _ ev] exI [of _ "[]"] exI [of _ "[]"]) simp
  next
    case (Cons c t)
    obtain ev1 where step: "drain_loop le (Suc k) s ev = drain_loop le k t ev1 \<or> drain_loop le (Suc k) s ev = Ok (ev1, t)"
        "ev_lost ev1 \<longleftrightarrow> ev_lost ev \<or> \<not> clean le c" "ev_changed ev1 \<longleftrightarrow> ev_changed ev \<or> announces le c"
      using drain_step [of le k c t ev] Cons by blast
    obtain ev' used rest where rest: "drain_loop le k t ev1 = Ok (ev', rest)" "t = used @ rest"
        "ev_lost ev' \<longleftrightarrow> ev_lost ev1 \<or> (\<exists>c \<in> set used. \<not> clean le c)"
        "ev_changed ev' \<longleftrightarrow> ev_changed ev1 \<or> (\<exists>c \<in> set used. announces le c)"
      using Suc [of t ev1] by blast
    from step(1) show ?thesis
    proof
      assume "drain_loop le (Suc k) s ev = drain_loop le k t ev1"
      with rest(1) have "drain_loop le (Suc k) s ev = Ok (ev', rest)" by simp
      moreover have "s = (c # used) @ rest" using rest(2) Cons by simp
      ultimately show ?thesis using rest(3,4) step(2,3) by (metis list.set_intros(1,2) set_ConsD)
    next
      assume "drain_loop le (Suc k) s ev = Ok (ev1, t)"
      moreover have "s = [c] @ t" using Cons by simp
      ultimately show ?thesis using step(2,3) by (metis list.set_intros(1) empty_iff empty_set set_ConsD)
    qed
  qed
qed

lemma drain_spec:
  obtains ev used rest where "drain le s = Ok (ev, rest)" "s = used @ rest"
    "ev_lost ev \<longleftrightarrow> (\<exists>c \<in> set used. \<not> clean le c)" "ev_changed ev \<longleftrightarrow> (\<exists>c \<in> set used. announces le c)"
  using drain_loop_spec [of le 128 s events_default] unfolding drain_def events_default_def by auto

lemma drain_no_panic [no_panic]: "drain le s \<noteq> Panic"
  by (rule drain_spec [of le s]) simp

lemma drain_not_Err [simp]: "drain le s \<noteq> Err e"
  by (rule drain_spec [of le s]) simp

section \<open>What a dump collects\<close>

text \<open>The routes of one message, of one receive result, and the results a dump may read past.\<close>

definition msg_routes :: "ipnet_ops \<Rightarrow> bool \<Rightarrow> u32 list \<Rightarrow> message \<Rightarrow> ip_net set" where
  "msg_routes N le tbls m = {p. msg_kind m = RTM_NEWROUTE \<and> route N le (msg_payload m) tbls = Ok (Some p)}"

definition recv_routes :: "ipnet_ops \<Rightarrow> bool \<Rightarrow> u32 list \<Rightarrow> syscall \<Rightarrow> ip_net set" where
  "recv_routes N le tbls c = (case recvmsg c of
     Inr data \<Rightarrow> (\<Union>m \<in> set (fst (decode le data)). msg_routes N le tbls m) | Inl _ \<Rightarrow> {})"

definition sound_read :: "bool \<Rightarrow> syscall \<Rightarrow> bool" where
  "sound_read le c = (case recvmsg c of
     Inr data \<Rightarrow> data \<noteq> [] \<and> snd (decode le data) = Ok () | Inl e \<Rightarrow> e = WouldBlock \<or> e = Interrupted)"

definition result_ok :: "config \<Rightarrow> ip_net list \<Rightarrow> bool" where
  "result_ok cfg ps = (distinct ps \<and> length ps \<le> unat (max_prefixes (cfg_kernel cfg)))"

lemma tryr_eq: "tryr m st k = (st', r) \<longleftrightarrow> (case m of Ok x \<Rightarrow> k x = (st', r) | Err e \<Rightarrow> st' = st \<and> r = Err e | Panic \<Rightarrow> st' = st \<and> r = Panic)"
  by (auto simp: tryr_def split: outcome.split)

lemma snd_tryr_Panic: "snd (tryr m st k) = Panic \<longleftrightarrow> m = Panic \<or> (\<exists>x. m = Ok x \<and> snd (k x) = Panic)"
  by (cases m) auto

lemma dump_status_no_panic [no_panic]: "dump_status le payload saw \<noteq> Panic"
  by (auto simp: dump_status_def i32n_def outcome_simps ensure_def)

lemma i32n_no_panic: "4 \<le> length b \<Longrightarrow> i32n le b \<noteq> Panic"
  by (auto simp: i32n_def outcome_simps)

lemma dump_msg_no_panic [no_panic]: "snd (dump_msg N le cfg seq m st) \<noteq> Panic"
  unfolding dump_msg_def Let_def
  by (auto simp: snd_tryr_Panic dump_status_no_panic i32n_no_panic route_no_panic split: if_splits option.splits)

lemma dump_msg_Ok:
  assumes "dump_msg N le cfg seq m st = (st', Ok ())"
  shows "set (ds_result st') = set (ds_result st) \<union> msg_routes N le (tables (cfg_kernel cfg)) m \<and>
    (result_ok cfg (ds_result st) \<longrightarrow> result_ok cfg (ds_result st'))"
  using assms unfolding dump_msg_def Let_def
  by (auto simp: tryr_eq msg_routes_def result_ok_def NLMSG_DONE_def RTM_NEWROUTE_def ensure_def
      split: outcome.splits if_splits option.splits)

lemma run_dump:
  assumes "run_all (dump_msg N le cfg seq) ms st = (st', Ok ())"
  shows "set (ds_result st') = set (ds_result st) \<union> (\<Union>m \<in> set ms. msg_routes N le (tables (cfg_kernel cfg)) m) \<and>
    (result_ok cfg (ds_result st) \<longrightarrow> result_ok cfg (ds_result st'))"
  using assms
proof (induction ms arbitrary: st)
  case (Cons m ms)
  then obtain st1 where "dump_msg N le cfg seq m st = (st1, Ok ())" "run_all (dump_msg N le cfg seq) ms st1 = (st', Ok ())"
    by (auto simp: Let_def tryr_eq split: prod.splits outcome.splits)
  with Cons.IH dump_msg_Ok show ?case by (metis (no_types, lifting) UN_insert Un_assoc list.simps(15))
qed simp

lemma messages_dump:
  assumes "messages le (dump_msg N le cfg seq) data st = (st', Ok ())"
  shows "snd (decode le data) = Ok () \<and>
    set (ds_result st') = set (ds_result st) \<union> (\<Union>m \<in> set (fst (decode le data)). msg_routes N le (tables (cfg_kernel cfg)) m) \<and>
    (result_ok cfg (ds_result st) \<longrightarrow> result_ok cfg (ds_result st'))"
  using assms run_dump [of N le cfg seq "fst (decode le data)" st st']
  by (auto simp: messages_decode Let_def tryr_eq split: prod.splits outcome.splits)

text \<open>
  The common shape of the collecting loops: from a queue of receive results they take a front
  part, and add exactly its routes.
\<close>

definition collected :: "ipnet_ops \<Rightarrow> bool \<Rightarrow> config \<Rightarrow> socket \<Rightarrow> dump_state \<Rightarrow> socket \<Rightarrow> dump_state \<Rightarrow> bool" where
  "collected N le cfg s st s' st' = (\<exists>used. s = used @ s' \<and> (\<forall>c \<in> set used. sound_read le c) \<and>
     set (ds_result st') = set (ds_result st) \<union> (\<Union>c \<in> set used. recv_routes N le (tables (cfg_kernel cfg)) c) \<and>
     (result_ok cfg (ds_result st) \<longrightarrow> result_ok cfg (ds_result st')))"

lemma collected_refl: "collected N le cfg s st s st"
  by (auto simp: collected_def)

lemma collected_trans:
  "collected N le cfg s st s' st' \<Longrightarrow> collected N le cfg s' st' s'' st'' \<Longrightarrow> collected N le cfg s st s'' st''"
  unfolding collected_def by (elim exE conjE) (rule_tac x = "used @ useda" in exI, auto)

lemma collected_append:
  "collected N le cfg s st s' st' \<Longrightarrow> collected N le cfg (s @ t) st (s' @ t) st'"
  unfolding collected_def by (elim exE) (rule_tac x = used in exI, auto)

lemma collected_one:
  assumes "sound_read le c"
    and "set (ds_result st') = set (ds_result st) \<union> recv_routes N le (tables (cfg_kernel cfg)) c"
    and "result_ok cfg (ds_result st) \<longrightarrow> result_ok cfg (ds_result st')"
  shows "collected N le cfg (c # s) st s st'"
  unfolding collected_def using assms by (intro exI [of _ "[c]"]) simp

lemma dump_batch_collects:
  "dump_batch N le cfg seq k s st = Ok (st', s') \<Longrightarrow> collected N le cfg s st s' st'"
proof (induction k arbitrary: s st)
  case 0
  then show ?case by (simp add: collected_refl)
next
  case (Suc k)
  show ?case
  proof (cases s)
    case Nil
    with Suc.prems show ?thesis by (simp add: collected_refl)
  next
    case (Cons c t)
    show ?thesis
    proof (cases "recvmsg c")
      case (Inl e)
      then have "collected N le cfg s st t st" if "e = WouldBlock \<or> e = Interrupted"
        using that Cons by (auto intro!: collected_one simp: sound_read_def recv_routes_def)
      with Suc Inl Cons show ?thesis
        by (cases e) (auto intro: collected_trans)
    next
      case (Inr data)
      obtain st1 where m: "messages le (dump_msg N le cfg seq) data st = (st1, Ok ())" and "data \<noteq> []"
          and rest: "if ds_done st1 then (st', s') = (st1, t) else dump_batch N le cfg seq k t st1 = Ok (st', s')"
        using Suc.prems Cons Inr by (auto simp: bindr_eq_Ok Let_def split: prod.splits if_splits)
      from messages_dump [OF m] \<open>data \<noteq> []\<close> Inr Cons have "collected N le cfg s st t st1"
        by (auto intro!: collected_one simp: sound_read_def recv_routes_def)
      with rest Suc.IH show ?thesis by (auto split: if_splits intro: collected_trans)
    qed
  qed
qed

lemma dump_batch_no_panic [no_panic]: "dump_batch N le cfg seq k s st \<noteq> Panic"
proof (induction k arbitrary: s st)
  case (Suc k)
  have "r \<noteq> Panic" if "messages le (dump_msg N le cfg seq) data st = (st1, r)" for data st1 r
    using messages_no_panic [of "dump_msg N le cfg seq" le data st] dump_msg_no_panic that by auto
  with Suc show ?case
    by (cases s) (auto simp: bindr_eq_Panic Let_def split: prod.split sum.split io_error.split)
qed simp

lemma dump_round_no_panic [no_panic]: "dump_round N le cfg seq r v \<noteq> Panic"
  by (auto simp: dump_round_def bindr_eq_Panic drain_no_panic dump_batch_no_panic split: prod.splits if_splits)

lemma dump_round_collects:
  assumes "dump_round N le cfg seq r v = Ok v'"
  shows "collected N le cfg (sv_dump v @ rd_dump r) (sv_state v) (sv_dump v') (sv_state v') \<and>
    \<not> rd_stop r \<and> rd_elapsed_ms r < 1000 * unat (dump_timeout_secs (cfg_kernel cfg))"
  using assms by (auto simp: dump_round_def bindr_eq_Ok split: prod.splits dest: dump_batch_collects)

definition expired :: "config \<Rightarrow> round \<Rightarrow> bool" where
  "expired cfg r = (rd_stop r \<or> 1000 * unat (dump_timeout_secs (cfg_kernel cfg)) \<le> rd_elapsed_ms r)"

lemma dump_loop_collects:
  assumes "dump_loop N le cfg seq rs v = Some (Ok (v', rs'))"
  shows "\<exists>now. rs = now @ rs' \<and> list_all (\<lambda>r. \<not> expired cfg r) now \<and>
    collected N le cfg (sv_dump v @ concat (map rd_dump now)) (sv_state v) (sv_dump v') (sv_state v')"
  using assms
proof (induction rs arbitrary: v)
  case Nil
  then show ?case by (auto simp: collected_refl split: if_splits)
next
  case (Cons r rs)
  show ?case
  proof (cases "ds_done (sv_state v)")
    case True
    with Cons.prems show ?thesis by (intro exI [of _ "[]"]) (auto simp: collected_refl)
  next
    case False
    with Cons.prems obtain v1 where v1: "dump_round N le cfg seq r v = Ok v1"
        "dump_loop N le cfg seq rs v1 = Some (Ok (v', rs'))"
      by (auto split: outcome.splits)
    from Cons.IH [OF v1(2)] obtain now where now: "rs = now @ rs'" "list_all (\<lambda>r. \<not> expired cfg r) now"
        "collected N le cfg (sv_dump v1 @ concat (map rd_dump now)) (sv_state v1) (sv_dump v') (sv_state v')"
      by blast
    have "collected N le cfg ((sv_dump v @ rd_dump r) @ concat (map rd_dump now)) (sv_state v)
        (sv_dump v1 @ concat (map rd_dump now)) (sv_state v1)"
      using dump_round_collects [OF v1(1)] by (intro collected_append) simp
    from collected_trans [OF this now(3)] now(1,2) dump_round_collects [OF v1(1)] show ?thesis
      by (intro exI [of _ "r # now"]) (simp add: expired_def)
  qed
qed

lemma dump_loop_returns:
  "r \<in> set rs \<Longrightarrow> expired cfg r \<Longrightarrow> dump_loop N le cfg seq rs v \<noteq> None"
proof (induction rs arbitrary: v)
  case (Cons r' rs)
  then show ?case
    using dump_round_collects [of N le cfg seq r' v]
    by (auto simp: expired_def not_less split: outcome.splits)
qed simp

lemma dump_loop_no_panic [no_panic]: "dump_loop N le cfg seq rs v \<noteq> Some Panic"
  by (induction rs arbitrary: v) (auto simp: dump_round_no_panic split: outcome.splits)

lemma dump_all_collects:
  assumes "dump_all N le cfg send targets seq rs v = Some (seq', Ok v')"
  shows "\<exists>now rest. rs = now @ rest \<and>
    collected N le cfg (sv_dump v @ concat (map rd_dump now)) (sv_state v) (sv_dump v') (sv_state v')"
  using assms
proof (induction targets arbitrary: seq rs v)
  case Nil
  then have "rs = [] @ rs \<and> collected N le cfg (sv_dump v @ concat (map rd_dump [])) (sv_state v) (sv_dump v') (sv_state v')"
    by (simp add: collected_refl)
  then show ?case by blast
next
  case (Cons ft targets)
  obtain family table where ft: "ft = (family, table)" by (cases ft)
  let ?v = "v\<lparr>sv_state := (sv_state v)\<lparr>ds_done := False, ds_saw_route := False\<rparr>\<rparr>"
  from Cons.prems obtain v1 rs1 where v1: "dump_loop N le cfg (next_seq seq) rs ?v = Some (Ok (v1, rs1))"
      "dump_all N le cfg send targets (next_seq seq) rs1 v1 = Some (seq', Ok v')"
    by (auto simp: ft Let_def split: if_splits option.splits outcome.splits)
  from dump_loop_collects [OF v1(1)] obtain now where now: "rs = now @ rs1"
      "collected N le cfg (sv_dump v @ concat (map rd_dump now)) (sv_state v) (sv_dump v1) (sv_state v1)"
    by (auto simp: collected_def)
  from Cons.IH [OF v1(2)] obtain now' rest where now': "rs1 = now' @ rest"
      "collected N le cfg (sv_dump v1 @ concat (map rd_dump now')) (sv_state v1) (sv_dump v') (sv_state v')"
    by blast
  from collected_trans [OF collected_append [OF now(2)] now'(2)] now(1) now'(1) show ?case
    by (intro exI [of _ "now @ now'"] exI [of _ rest]) simp
qed

lemma dump_all_returns:
  assumes "r \<in> set rs" and "expired cfg r"
  shows "dump_all N le cfg send targets seq rs v \<noteq> None"
  using assms(1)
proof (induction targets arbitrary: seq rs v)
  case (Cons ft targets)
  obtain family table where ft: "ft = (family, table)" by (cases ft)
  have "r \<in> set rs'" if "dump_loop N le cfg (next_seq seq) rs u = Some (Ok (v', rs'))" for u v' rs'
    using dump_loop_collects [OF that] Cons.prems assms(2) by (auto simp: list_all_iff)
  with Cons.IH dump_loop_returns [OF Cons.prems assms(2), of N le "next_seq seq"
      "v\<lparr>sv_state := (sv_state v)\<lparr>ds_done := False, ds_saw_route := False\<rparr>\<rparr>"] show ?case
    by (auto simp: ft Let_def split: option.splits outcome.splits)
qed simp

lemma dump_all_no_panic: "dump_all N le cfg send targets seq rs v = Some (seq', r) \<Longrightarrow> r \<noteq> Panic"
proof (induction targets arbitrary: seq rs v)
  case (Cons ft targets)
  obtain family table where ft: "ft = (family, table)" by (cases ft)
  show ?case
    using Cons.prems Cons.IH
    by (auto simp: ft Let_def dump_loop_no_panic split: if_splits option.splits outcome.splits)
qed auto

lemma snapshot_Ok:
  assumes "snapshot N le cfg env events seq = Some (seq', Ok (ps, changed))"
  shows "\<exists>used rest. concat (map rd_dump (se_rounds env)) = used @ rest \<and> (\<forall>c \<in> set used. sound_read le c) \<and>
    set ps = (\<Union>c \<in> set used. recv_routes N le (tables (cfg_kernel cfg)) c) \<and> result_ok cfg ps"
proof -
  let ?v = "\<lparr>sv_events = events, sv_dump = [],
    sv_state = \<lparr>ds_done = False, ds_saw_route = False, ds_result = []\<rparr>, sv_changed = False\<rparr>"
  from assms obtain v where v: "dump_all N le cfg (se_send env) (dump_targets cfg) seq (se_rounds env) ?v = Some (seq', Ok v)"
      "ps = ds_result (sv_state v)"
    by (auto simp: snapshot_def bindr_eq_Ok split: if_splits option.splits outcome.splits prod.splits)
  from dump_all_collects [OF v(1)] obtain now rest where "se_rounds env = now @ rest"
      "collected N le cfg (concat (map rd_dump now)) (sv_state ?v) (sv_dump v) (sv_state v)"
    by auto
  then obtain used where "concat (map rd_dump (se_rounds env)) = used @ (sv_dump v @ concat (map rd_dump rest))"
      "\<forall>c \<in> set used. sound_read le c" "result_ok cfg ps"
      "set ps = (\<Union>c \<in> set used. recv_routes N le (tables (cfg_kernel cfg)) c)"
    by (auto simp: collected_def v(2) result_ok_def)
  then show ?thesis by blast
qed

lemma recv_routes_wf:
  assumes "ipnet N" and "p \<in> recv_routes N le tbls c"
  shows "net_wf p \<and> net_mask p = p"
  using assms(2) ipnet.route_Some [OF assms(1)]
  by (auto simp: recv_routes_def msg_routes_def split: sum.splits)

section \<open>What the ACLs let through\<close>

lemma filter_acls_Ok:
  assumes "set names \<subseteq> fst ` set (acls cfg)"
  shows "filter_acls N cfg ps names =
    Ok (map (\<lambda>name. (name, List.filter (permits N (the (map_of (acls cfg) name))) ps)) names)"
  using assms
proof (induction names)
  case (Cons name names)
  then obtain a where "map_of (acls cfg) name = Some a"
    by (auto simp: map_of_eq_None_iff simp del: not_None_eq) (metis map_of_SomeD option.exhaust map_of_eq_None_iff image_eqI fst_conv)
  with Cons show ?case by simp
qed simp

lemma filter_exports_Ok:
  assumes "config_ok N cfg"
  shows "filter_exports N cfg ps = Ok (map (\<lambda>name. (name, List.filter (permits N (the (map_of (acls cfg) name))) ps))
    (remdups (map export_acl (peers cfg))))"
  unfolding filter_exports_def
  using assms by (intro filter_acls_Ok) (auto simp: config_ok_def peer_ok_def)

lemma filter_exports_lookup:
  assumes "filter_exports N cfg ps = Ok ex"
  shows "map_of ex name = (if name \<in> export_acl ` set (peers cfg)
    then Some (List.filter (permits N (the (map_of (acls cfg) name))) ps) else None)"
proof -
  have "map_of ex name = (if name \<in> set names then Some (List.filter (permits N (the (map_of (acls cfg) name))) ps) else None)"
    if "filter_acls N cfg ps names = Ok ex" for names
    using that by (induction names arbitrary: ex) (auto simp: bindr_eq_Ok)
  with assms show ?thesis by (auto simp: filter_exports_def)
qed

section \<open>Opening and asking\<close>

lemma be_bytes_zero: "be_bytes n 0 = replicate n 0"
  by (induction n) (simp_all add: replicate_append_same)

lemma request_message:
  "request_bytes le seq family table = nl_bytes le \<lparr>msg_kind = 26, msg_flags = 0x301, msg_seq = seq,
     msg_payload = family # replicate 11 0 @ rta le (15, ne_bytes le 4 (unat table))\<rparr>"
proof -
  have "ne_bytes le 4 0 = replicate 4 0" by (simp add: ne_bytes_def be_bytes_zero)
  then show ?thesis by (simp add: request_bytes_def nl_bytes_def rta_def padding_def align_def)
qed

lemma bit_run_groups: "bit (run_groups cfg) g \<longleftrightarrow> g \<in> {0, 4, 6} \<or> cfg_ipv6 cfg \<and> g \<in> {8, 10}"
proof -
  have e: "(1 :: u32) = 2 ^ 0" "(0x10 :: u32) = 2 ^ 4" "(0x40 :: u32) = 2 ^ 6" "(0x100 :: u32) = 2 ^ 8" "(0x400 :: u32) = 2 ^ 10"
    by simp_all
  have p: "bit (2 ^ k :: u32) g \<longleftrightarrow> g = k" if "k < 32" for k using that by (auto simp: bit_exp_iff)
  have b: "bit (1 :: u32) g \<longleftrightarrow> g = 0" "bit (0x10 :: u32) g \<longleftrightarrow> g = 4" "bit (0x40 :: u32) g \<longleftrightarrow> g = 6"
      "bit (0x100 :: u32) g \<longleftrightarrow> g = 8" "bit (0x400 :: u32) g \<longleftrightarrow> g = 10"
    unfolding e by (rule p, simp)+
  show ?thesis
    unfolding run_groups_def
    by (cases "cfg_ipv6 cfg")
      (simp_all only: bit_or_iff b if_True if_False insert_iff empty_iff simp_thms bit_0_eq bot_apply bot_bool_def disj_assoc)
qed

lemma unat_saturating_double: "unat b \<le> 2 ^ 30 \<Longrightarrow> unat (saturating_double b) = 2 * unat b"
  using unat_mult_lem [of 2 b] by (simp add: saturating_double_def)

section \<open>Properties\<close>

text \<open>
  A dump request is what it means to be: read with the program's own message walk it is one
  message, a request to dump the routes of the family with the sequence number, carrying the table
  as its only attribute; and it counts as sent exactly when the kernel took all of its 36 bytes.
\<close>

theorem request_one_message:
  "messages le (\<lambda>m ms. (ms @ [m], Ok ())) (request_bytes le seq family table) [] =
    ([\<lparr>msg_kind = 26, msg_flags = 0x301, msg_seq = seq,
       msg_payload = family # replicate 11 0 @ rta le (15, ne_bytes le 4 (unat table))\<rparr>], Ok ()) \<and>
   (request send le seq family table = Ok () \<longleftrightarrow> send (request_bytes le seq family table) = 36)"
  by (auto simp: request_message messages_nl_bytes_last length_rta align_def request_def length_nl_bytes Let_def bindr_eq_Ok)

text \<open>
  C35: The notification socket is opened as configured. With a validated configuration the size asked
  of the kernel is the configured one (the cast to \<open>i32\<close> loses nothing), the socket is open exactly when
  every call succeeded, the operator is warned exactly when the effective size is less than twice
  the configured one, and the groups joined are those of links, IPv4 addresses and IPv4 routes,
  and with IPv6 those of IPv6 addresses and routes.
\<close>

theorem notifications_subscribed:
  assumes "validate N cfg = Ok ()" and "no_getsockopt env = (rc, effective)" and "0 \<le> sint effective"
  shows "(run_open env cfg = Ok capped \<longleftrightarrow>
      0 \<le> no_socket env \<and> 0 \<le> rc \<and> 0 \<le> no_bind env (run_groups cfg) \<and>
      (\<exists>w. sint w = int (unat (receive_buffer_bytes (cfg_kernel cfg))) \<and> 0 \<le> no_setsockopt env w) \<and>
      capped = (sint effective < 2 * int (unat (receive_buffer_bytes (cfg_kernel cfg))))) \<and>
    {g. bit (run_groups cfg) g} = {0, 4, 6} \<union> (if cfg_ipv6 cfg then {8, 10} else {})"
proof
  let ?b = "receive_buffer_bytes (cfg_kernel cfg)"
  have small: "unat ?b \<le> 2 ^ 30" using assms(1) by (simp add: validate_ok_iff config_ok_def global_ok_def)
  have set: "(\<exists>w. sint w = int (unat ?b) \<and> 0 \<le> no_setsockopt env w) \<longleftrightarrow> 0 \<le> no_setsockopt env (ucast ?b)"
    using usize_as_i32 [OF small] by (metis scast_eq scast_id)
  have "bit (run_groups cfg) 0" by (simp only: bit_run_groups) simp
  then have "run_groups cfg \<noteq> 0" by auto
  moreover have "(scast effective :: u64) < saturating_double ?b \<longleftrightarrow> sint effective < 2 * int (unat ?b)"
    unfolding word_less_nat_alt unat_saturating_double [OF small] i32_as_usize [OF assms(3)] using assms(3) by linarith
  ultimately show "run_open env cfg = Ok capped \<longleftrightarrow>
      0 \<le> no_socket env \<and> 0 \<le> rc \<and> 0 \<le> no_bind env (run_groups cfg) \<and>
      (\<exists>w. sint w = int (unat ?b) \<and> 0 \<le> no_setsockopt env w) \<and> capped = (sint effective < 2 * int (unat ?b))"
    unfolding run_open_def open_socket_def option_call_def set assms(2) by (auto simp: Let_def bindr_eq_Ok)
  show "{g. bit (run_groups cfg) g} = {0, 4, 6} \<union> (if cfg_ipv6 cfg then {8, 10} else {})"
    by (auto simp only: bit_run_groups mem_Collect_eq Un_iff insert_iff empty_iff split: if_splits)
qed

definition example_open :: nl_open_env where
  "example_open = \<lparr>no_socket = 3, no_setsockopt = (\<lambda>_. 0), no_getsockopt = (0, 0x10000000), no_bind = (\<lambda>_. 0)\<rparr>"

theorem notifications_subscribed_witness:
  "run_open example_open example_config = Ok False"
proof -
  have valid: "validate ipnet_ref example_config = Ok ()" using example_config_ok by (simp add: validate_ok_iff)
  have calls: "no_getsockopt example_open = (0, 0x10000000)" "0 \<le> no_socket example_open"
      "0 \<le> no_bind example_open (run_groups example_config)" "0 \<le> no_setsockopt example_open w" for w
    by (simp_all add: example_open_def)
  have eff: "sint (0x10000000 :: 32 word) = 0x10000000" using i32_small [of "0x10000000"] by simp
  have buf: "unat (receive_buffer_bytes (cfg_kernel example_config)) = 0x4000000"
    by (simp add: example_config_def kernel_default_def)
  have "\<exists>w :: 32 word. sint w = int (unat (receive_buffer_bytes (cfg_kernel example_config)))"
    using usize_as_i32 [of "receive_buffer_bytes (cfg_kernel example_config)"] buf by auto
  with notifications_subscribed [OF valid calls(1), of False] calls(2-4) eff buf show ?thesis by auto
qed


text \<open>
  \<open>drain\<close> detects every loss: it takes a front part of the queued receive results, and
  reports loss exactly when one of them was truncated, came from a sender other than the kernel,
  failed, was empty or malformed, or carried an overrun or error message; it reports a change
  exactly when one of them carried a route, link or rule notification.
\<close>

theorem drain_detects_loss:
  "\<exists>ev used rest. drain le s = Ok (ev, rest) \<and> s = used @ rest \<and>
     (ev_lost ev \<longleftrightarrow> (\<exists>c \<in> set used. \<not> clean le c)) \<and>
     (ev_changed ev \<longleftrightarrow> (\<exists>c \<in> set used. announces le c))"
  by (rule drain_spec [of le s]) blast

theorem drain_detects_loss_witness:
  "\<exists>ev rest. drain True [Received \<lparr>dg_bytes = [], dg_flags = 0, dg_namelen = 12, dg_pid = 7\<rparr>] = Ok (ev, rest)"
  using drain_detects_loss [of True "[Received \<lparr>dg_bytes = [], dg_flags = 0, dg_namelen = 12, dg_pid = 7\<rparr>]"] by blast


lemma drain_Nil [simp]: "drain le [] = Ok (events_default, [])"
  by (simp add: drain_def numeral_eq_Suc)

text \<open>A kernel with one route: a dump of two messages.\<close>

definition example_dump :: bytes where
  "example_dump =
     nl_bytes True \<lparr>msg_kind = RTM_NEWROUTE, msg_flags = 2, msg_seq = 1, msg_payload =
       rtmsg True (NetV4 0xC6336400 24) 254 1
         ([] @ [(15, ne_bytes True 4 (unat (254 :: u32)))] @ [] @ [(1, octets (net_addr (NetV4 0xC6336400 24)))] @ [])\<rparr> @
     nl_bytes True \<lparr>msg_kind = NLMSG_DONE, msg_flags = 2, msg_seq = 1, msg_payload = []\<rparr> @ []"

definition example_poll :: poll_result where
  "example_poll = \<lparr>pl_rc = 1, pl_errno = OtherIo, pl_revents = [0, 1]\<rparr>"

definition example_env :: snap_env where
  "example_env = \<lparr>se_open = example_open, se_option = 0, se_send = (\<lambda>req. int (length req)),
     se_rounds = [\<lparr>rd_stop = False, rd_elapsed_ms = 3, rd_events = [],
       rd_dump = [Received \<lparr>dg_bytes = example_dump, dg_flags = 0, dg_namelen = 12, dg_pid = 0\<rparr>], rd_poll = example_poll\<rparr>],
     se_final_events = []\<rparr>"

lemma example_dump_batch:
  "dump_batch ipnet_ref True example_config 1 128
     [Received \<lparr>dg_bytes = example_dump, dg_flags = 0, dg_namelen = 12, dg_pid = 0\<rparr>]
     \<lparr>ds_done = False, ds_saw_route = False, ds_result = []\<rparr> =
   Ok (\<lparr>ds_done = True, ds_saw_route = True, ds_result = [NetV4 0xC6336400 24]\<rparr>, [])"
proof -
  let ?q = "NetV4 0xC6336400 24"
  have "net_wf ?q" "net_mask ?q = ?q" by (simp_all add: net_mask_def mask_top_def)
  note rt = ref.route_rtmsg [OF this, of "[]" "[]" "[]" True 254 254 "[254]", simplified]
  have "messages True (dump_msg ipnet_ref True example_config 1) example_dump
      \<lparr>ds_done = False, ds_saw_route = False, ds_result = []\<rparr> =
      (\<lparr>ds_done = True, ds_saw_route = True, ds_result = [?q]\<rparr>, Ok ())"
    unfolding example_dump_def
    by (simp add: messages_nl_bytes messages_nl_bytes_last rtmsg_def length_rta align_def)
      (simp add: dump_msg_def RTM_NEWROUTE_def NLMSG_DONE_def NLM_F_DUMP_INTR_def example_config_def kernel_default_def
        rt [unfolded rtmsg_def, simplified] dump_status_def)
  moreover have "0 < length example_dump" by (simp add: example_dump_def nl_bytes_def)
  moreover have n: "(128 :: nat) = Suc 127" by simp
  ultimately show ?thesis
    unfolding n by (simp only: dump_batch.simps recv.simps) (simp add: recvmsg_def MSG_TRUNC_def SOCKADDR_NL_SIZE_def)
qed

lemma example_open_ok: "open_socket example_open groups buffer = Ok (groups \<noteq> 0 \<and> 0x10000000 < saturating_double buffer)" "option_call 0 = Ok ()"
  by (simp_all add: open_socket_def example_open_def option_call_def)

lemma example_snapshot:
  "snapshot ipnet_ref True example_config example_env [] 0 = Some (1, Ok ([NetV4 0xC6336400 24], False))"
proof -
  have "dump_targets example_config = [(AF_INET, 254)]"
    by (simp add: dump_targets_def example_config_def kernel_default_def AF_INET_def AF_INET6_def)
  then show ?thesis
    by (simp add: snapshot_def example_env_def next_seq_def dump_round_def example_dump_batch events_default_def example_open_ok request_def)
      (simp add: example_config_def kernel_default_def events_default_def)
qed


text \<open>
  C31: A snapshot always returns: it never panics, and once the clock has passed the dump deadline
  or the stop flag is set in some iteration, the waiting loop has ended with a result or an error.
\<close>

theorem snapshot_returns:
  assumes "\<exists>r \<in> set (se_rounds env). rd_stop r \<or> 1000 * unat (dump_timeout_secs (cfg_kernel cfg)) \<le> rd_elapsed_ms r"
  shows "\<exists>seq' r. snapshot N le cfg env events seq = Some (seq', r) \<and> r \<noteq> Panic"
proof -
  let ?v = "\<lparr>sv_events = events, sv_dump = [],
    sv_state = \<lparr>ds_done = False, ds_saw_route = False, ds_result = []\<rparr>, sv_changed = False\<rparr>"
  have "dump_all N le cfg (se_send env) (dump_targets cfg) seq (se_rounds env) ?v \<noteq> None"
    using assms dump_all_returns [of _ "se_rounds env" cfg] by (auto simp: expired_def)
  moreover have "r \<noteq> Panic"
    if "dump_all N le cfg (se_send env) (dump_targets cfg) seq (se_rounds env) ?v = Some (seq', r)" for seq' r
    using dump_all_no_panic [OF that] .
  ultimately show ?thesis
    by (auto simp: snapshot_def bindr_eq_Panic drain_no_panic split: outcome.splits prod.splits)
qed

definition example_round :: round where
  "example_round = \<lparr>rd_stop = False, rd_elapsed_ms = 10000, rd_events = [], rd_dump = [], rd_poll = example_poll\<rparr>"

theorem snapshot_returns_witness:
  "\<exists>seq' r. snapshot ipnet_ref True example_config \<lparr>se_open = example_open, se_option = 0, se_send = (\<lambda>req. int (length req)),
     se_rounds = [example_round], se_final_events = []\<rparr> [] 0 = Some (seq', r) \<and> r \<noteq> Panic"
  by (rule snapshot_returns) (simp add: example_round_def example_config_def kernel_default_def)

text \<open>
  An export set is exactly the permitted part of the snapshot: with a validated configuration
  \<open>filter\<close> does not panic, and the set published for a peer's ACL contains a prefix if and only
  if the kernel has it and that ACL permits it.
\<close>

theorem exports_exactly_permitted:
  assumes "config_ok N cfg" and "p \<in> set (peers cfg)"
  shows "\<exists>ex acl qs. filter_exports N cfg ps = Ok ex \<and> map_of (acls cfg) (export_acl p) = Some acl \<and>
    map_of ex (export_acl p) = Some qs \<and> (\<forall>q. q \<in> set qs \<longleftrightarrow> q \<in> set ps \<and> permits N acl q)"
proof -
  obtain ex where ex: "filter_exports N cfg ps = Ok ex" using filter_exports_Ok [OF assms(1)] by blast
  have "export_acl p \<in> fst ` set (acls cfg)"
    using config_ok_peer [OF assms] by (simp add: peer_ok_def)
  then obtain acl where acl: "map_of (acls cfg) (export_acl p) = Some acl"
    by (metis map_of_eq_None_iff option.exhaust)
  from filter_exports_lookup [OF ex, of "export_acl p"] assms(2) acl ex show ?thesis by auto
qed

theorem exports_exactly_permitted_witness:
  "\<exists>ex qs. filter_exports ipnet_ref example_config [NetV4 0xC6336400 24, NetV4 0x0A000000 8] = Ok ex \<and>
     map_of ex ''export'' = Some qs \<and> NetV4 0x0A000000 8 \<notin> set qs"
proof -
  have peer: "example_peer \<in> set (peers example_config)" "export_acl example_peer = ''export''"
    "map_of (acls example_config) ''export'' = Some example_acl"
    by (simp_all add: example_config_def example_peer_def)
  have "\<not> permits ipnet_ref example_acl (NetV4 0x0A000000 8)"
    by (simp add: permits_def example_acl_def rule_matches_def ipnet_ref_def mask_top_def)
  with exports_exactly_permitted [OF example_config_ok peer(1), of "[NetV4 0xC6336400 24, NetV4 0x0A000000 8]"] peer
  show ?thesis by auto
qed

end
