(* ===== verification/Freshness.thy ===== *)
theory Freshness
  imports Kernel
begin

text \<open>
  Publication of kernel state in \<open>src/netlink.rs\<close>: the staleness record, the watchdog that
  withdraws stale exports, and the reconciliation loop of \<open>run\<close>.

  The loop and the watchdog are two threads that meet at a mutex: the state machine below
  interleaves their critical sections in any order, with the clock advancing in between. Times
  are milliseconds of the monotonic clock. A watch channel holds its latest value and counts
  the values sent. The counters that only feed log lines are not kept.
\<close>

section \<open>Definitions\<close>

record 'a watch =
  w_value :: 'a
  w_version :: nat

definition send_replace :: "'a \<Rightarrow> 'a watch \<Rightarrow> 'a watch" where
  "send_replace v w = \<lparr>w_value = v, w_version = w_version w + 1\<rparr>"

text \<open>Equality of \<open>HashMap\<close>s of \<open>HashSet\<close>s: the order of keys and elements does not matter.\<close>

definition exports_eq :: "exports \<Rightarrow> exports \<Rightarrow> bool" where
  "exports_eq a b = (set (map fst a) = set (map fst b) \<and>
     list_all (\<lambda>(name, ps). case map_of b name of Some qs \<Rightarrow> set ps = set qs | None \<Rightarrow> False) a)"

record freshness =
  dirty_since :: "nat option"
  withdrawn :: bool

definition invalidate :: "nat \<Rightarrow> freshness \<Rightarrow> freshness" where
  "invalidate now f = f\<lparr>dirty_since := Some (unwrap_or (dirty_since f) now)\<rparr>"

definition expire :: "nat \<Rightarrow> nat \<Rightarrow> freshness \<Rightarrow> exports watch \<Rightarrow> freshness \<times> exports watch" where
  "expire now limit f tx =
    (if \<not> withdrawn f \<and> is_some_and (dirty_since f) (\<lambda>start. now - start \<ge> limit)
     then (f\<lparr>withdrawn := True\<rparr>, send_replace [] tx)
     else (f, tx))"

definition publish :: "nat \<Rightarrow> bool \<Rightarrow> exports \<Rightarrow> freshness \<Rightarrow> exports watch \<Rightarrow> freshness \<times> exports watch" where
  "publish now changed ex f tx =
    (f\<lparr>dirty_since := (if changed then Some now else None), withdrawn := False\<rparr>,
     if \<not> exports_eq (w_value tx) ex then send_replace ex tx else tx)"

datatype phase = Top | Dumping | Filtering prefixes bool | Stopped

record kstate =
  k_phase :: phase
  k_clock :: nat
  k_dirty :: bool
  k_due :: nat
  k_periodic :: nat
  k_seq :: u32
  k_retries :: u32
  k_fresh :: freshness
  k_tx :: "exports watch"

definition run_init :: "nat \<Rightarrow> exports watch \<Rightarrow> kstate" where
  "run_init now tx = \<lparr>k_phase = Top, k_clock = now, k_dirty = True, k_due = now, k_periodic = now,
     k_seq = 0, k_retries = 0, k_fresh = \<lparr>dirty_since = Some now, withdrawn = False\<rparr>, k_tx = tx\<rparr>"

definition stale_limit :: "config \<Rightarrow> nat" where
  "stale_limit cfg = 1000 * unat (stale_timeout_secs (cfg_kernel cfg))"

definition watchdog_tick :: "config \<Rightarrow> kstate \<Rightarrow> kstate" where
  "watchdog_tick cfg s = (let (f, tx) = expire (k_clock s) (stale_limit cfg) (k_fresh s) (k_tx s)
     in s\<lparr>k_fresh := f, k_tx := tx\<rparr>)"

text \<open>The top of the loop: drained events and the decision to dump.\<close>

definition run_top :: "events \<Rightarrow> kstate \<Rightarrow> kstate" where
  "run_top ev s =
    (let now = k_clock s;
         s = (if ev_changed ev \<or> ev_lost ev \<or> k_periodic s \<le> now
              then s\<lparr>k_dirty := True, k_fresh := invalidate now (k_fresh s)\<rparr> else s)
     in if k_dirty s \<and> k_due s \<le> now then s\<lparr>k_phase := Dumping\<rparr> else s)"

definition saturating_inc :: "u32 \<Rightarrow> u32" where
  "saturating_inc n = (if unat n + 1 < 2 ^ 32 then n + 1 else n)"

definition retry_delay :: "u32 \<Rightarrow> nat" where
  "retry_delay retries = min (100 * 2 ^ min (unat retries) 5) 3000"

text \<open>The \<open>Err\<close> arm: the dump is discarded and retried later.\<close>

definition run_failed :: "u32 \<Rightarrow> kstate \<Rightarrow> kstate" where
  "run_failed seq s = (let retries = saturating_inc (k_retries s) in
     s\<lparr>k_phase := Top, k_seq := seq, k_retries := retries, k_due := k_clock s + retry_delay retries\<rparr>)"

text \<open>
  The \<open>Ok\<close> arm after the ACLs were evaluated and the notifications drained again; a deadline
  outside the range of the clock (an \<open>i64\<close> of seconds) ends the loop with an error.
\<close>

definition run_filtered :: "config \<Rightarrow> bool \<Rightarrow> exports \<Rightarrow> events \<Rightarrow> kstate \<Rightarrow> kstate" where
  "run_filtered cfg changed ex after s =
    (let now = k_clock s; refresh = unat (refresh_interval_ms (cfg_kernel cfg)) in
     if ev_lost after then s\<lparr>k_phase := Top, k_due := now + refresh\<rparr>
     else
       let changed = changed \<or> ev_changed after; (f, tx) = publish now changed ex (k_fresh s) (k_tx s);
           s = s\<lparr>k_fresh := f, k_tx := tx, k_retries := 0, k_dirty := changed\<rparr>;
           reconcile = unat (reconcile_interval_secs (cfg_kernel cfg)) in
       if now div 1000 + reconcile < 2 ^ 63
       then s\<lparr>k_phase := Top, k_periodic := now + 1000 * reconcile, k_due := now + refresh\<rparr>
       else s\<lparr>k_phase := Stopped\<rparr>)"

datatype klabel = Clock | Watchdog | Drained | DumpFail | DumpDone | Discarded | Published | Stop

inductive kstep :: "ipnet_ops \<Rightarrow> bool \<Rightarrow> config \<Rightarrow> klabel \<Rightarrow> kstate \<Rightarrow> kstate \<Rightarrow> bool"
  for N :: ipnet_ops and le :: bool and cfg :: config where
  clock: "k_clock s \<le> t \<Longrightarrow> kstep N le cfg Clock s (s\<lparr>k_clock := t\<rparr>)"
| watchdog: "k_phase s \<noteq> Stopped \<Longrightarrow> kstep N le cfg Watchdog s (watchdog_tick cfg s)"
| drained: "k_phase s = Top \<Longrightarrow> drain le events = Ok (ev, rest) \<Longrightarrow> kstep N le cfg Drained s (run_top ev s)"
| dump_fail: "k_phase s = Dumping \<Longrightarrow> snapshot N le cfg env events (k_seq s) = Some (seq, Err e) \<Longrightarrow>
    kstep N le cfg DumpFail s (run_failed seq s)"
| dump_done: "k_phase s = Dumping \<Longrightarrow> snapshot N le cfg env events (k_seq s) = Some (seq, Ok (ps, changed)) \<Longrightarrow>
    kstep N le cfg DumpDone s (s\<lparr>k_seq := seq, k_phase := Filtering ps changed\<rparr>)"
| discarded: "k_phase s = Filtering ps changed \<Longrightarrow> filter_exports N cfg ps = Ok ex \<Longrightarrow>
    drain le events = Ok (after, rest) \<Longrightarrow> ev_lost after \<Longrightarrow>
    kstep N le cfg Discarded s (run_filtered cfg changed ex after s)"
| published: "k_phase s = Filtering ps changed \<Longrightarrow> filter_exports N cfg ps = Ok ex \<Longrightarrow>
    drain le events = Ok (after, rest) \<Longrightarrow> \<not> ev_lost after \<Longrightarrow>
    kstep N le cfg Published s (run_filtered cfg changed ex after s)"
| stop: "k_phase s = Top \<or> k_phase s = Dumping \<Longrightarrow> kstep N le cfg Stop s (s\<lparr>k_phase := Stopped\<rparr>)"

inductive kexec :: "ipnet_ops \<Rightarrow> bool \<Rightarrow> config \<Rightarrow> kstate \<Rightarrow> klabel list \<Rightarrow> kstate \<Rightarrow> bool"
  for N :: ipnet_ops and le :: bool and cfg :: config where
  none: "kexec N le cfg s [] s"
| step: "kexec N le cfg s ls s' \<Longrightarrow> kstep N le cfg l s' s'' \<Longrightarrow> kexec N le cfg s (ls @ [l]) s''"

inductive_cases kstepE: "kstep N le cfg l s s'"

text \<open>The states a daemon can be in: it starts with nothing exported.\<close>

definition kreach :: "ipnet_ops \<Rightarrow> bool \<Rightarrow> config \<Rightarrow> kstate \<Rightarrow> bool" where
  "kreach N le cfg s = (\<exists>now version ls. kexec N le cfg (run_init now \<lparr>w_value = [], w_version = version\<rparr>) ls s)"

section \<open>The invariant of the publisher\<close>

text \<open>
  What is published is nothing, or the export of a complete snapshot; a withdrawn publisher
  publishes nothing and waits for a dump; and a pending invalidation is never forgotten.
\<close>

definition complete_snapshot :: "ipnet_ops \<Rightarrow> bool \<Rightarrow> config \<Rightarrow> prefixes \<Rightarrow> bool" where
  "complete_snapshot N le cfg ps =
     (\<exists>env events seq seq' changed. snapshot N le cfg env events seq = Some (seq', Ok (ps, changed)))"

definition exported_from :: "ipnet_ops \<Rightarrow> bool \<Rightarrow> config \<Rightarrow> exports \<Rightarrow> bool" where
  "exported_from N le cfg ex =
     (ex = [] \<or> (\<exists>ps. complete_snapshot N le cfg ps \<and> filter_exports N cfg ps = Ok ex))"

lemma complete_snapshotI:
  "snapshot N le cfg env events seq = Some (seq', Ok (ps, changed)) \<Longrightarrow> complete_snapshot N le cfg ps"
  unfolding complete_snapshot_def by blast

definition kinv :: "ipnet_ops \<Rightarrow> bool \<Rightarrow> config \<Rightarrow> kstate \<Rightarrow> bool" where
  "kinv N le cfg s =
    ((k_dirty s \<longleftrightarrow> dirty_since (k_fresh s) \<noteq> None) \<and>
     (withdrawn (k_fresh s) \<longrightarrow> w_value (k_tx s) = [] \<and> dirty_since (k_fresh s) \<noteq> None) \<and>
     exported_from N le cfg (w_value (k_tx s)) \<and>
     (case k_phase s of
        Dumping \<Rightarrow> k_dirty s
      | Filtering ps changed \<Rightarrow> k_dirty s \<and> complete_snapshot N le cfg ps
      | _ \<Rightarrow> True))"

lemma kinv_init: "kinv N le cfg (run_init now \<lparr>w_value = [], w_version = v\<rparr>)"
  by (simp add: kinv_def run_init_def exported_from_def)

lemma kinv_watchdog: "kinv N le cfg s \<Longrightarrow> kinv N le cfg (watchdog_tick cfg s)"
  by (auto simp: kinv_def watchdog_tick_def expire_def send_replace_def exported_from_def split: phase.splits)

lemma kinv_top: "kinv N le cfg s \<Longrightarrow> k_phase s = Top \<Longrightarrow> kinv N le cfg (run_top ev s)"
  by (auto simp: kinv_def run_top_def invalidate_def Let_def)

lemma kinv_failed: "kinv N le cfg s \<Longrightarrow> k_phase s = Dumping \<Longrightarrow> kinv N le cfg (run_failed seq s)"
  by (auto simp: kinv_def run_failed_def Let_def)

lemma kinv_filtered:
  assumes "kinv N le cfg s" and "k_phase s = Filtering ps changed" and "filter_exports N cfg ps = Ok ex"
  shows "kinv N le cfg (run_filtered cfg changed ex after s)"
proof -
  have "exported_from N le cfg ex"
    using assms by (auto simp: kinv_def exported_from_def)
  with assms(1,2) show ?thesis
    by (auto simp: kinv_def run_filtered_def publish_def send_replace_def Let_def)
qed

lemma kinv_step:
  assumes "kstep N le cfg l s s'" and "kinv N le cfg s"
  shows "kinv N le cfg s'"
  using assms
proof cases
  case (clock t)
  with assms(2) show ?thesis by (auto simp: kinv_def split: phase.splits)
next
  case (dump_done env events seq ps changed)
  with assms(2) show ?thesis by (auto simp: kinv_def intro: complete_snapshotI)
next
  case stop
  with assms(2) show ?thesis by (simp add: kinv_def)
qed (use assms(2) in \<open>auto intro: kinv_watchdog kinv_top kinv_failed kinv_filtered\<close>)

lemma kinv_exec: "kexec N le cfg s ls s' \<Longrightarrow> kinv N le cfg s \<Longrightarrow> kinv N le cfg s'"
  by (induction rule: kexec.induct) (auto intro: kinv_step)

lemma kreach_inv: "kreach N le cfg s \<Longrightarrow> kinv N le cfg s"
  unfolding kreach_def by (blast intro: kinv_exec kinv_init)

lemma kreach_init: "kreach N le cfg (run_init now \<lparr>w_value = [], w_version = v\<rparr>)"
  unfolding kreach_def by (blast intro: kexec.none)

lemma kreach_step: "kreach N le cfg s \<Longrightarrow> kstep N le cfg l s s' \<Longrightarrow> kreach N le cfg s'"
  unfolding kreach_def by (meson kexec.step)

lemma kreach_exec: "kexec N le cfg s ls s' \<Longrightarrow> kreach N le cfg s \<Longrightarrow> kreach N le cfg s'"
  by (induction rule: kexec.induct) (auto intro: kreach_step)

section \<open>Staleness\<close>

text \<open>Between publications a pending invalidation keeps its start, and a withdrawal stands.\<close>

lemma step_keeps_since:
  assumes "kstep N le cfg l s s'" and "l \<noteq> Published" and "dirty_since (k_fresh s) = Some t"
  shows "dirty_since (k_fresh s') = Some t \<and> (withdrawn (k_fresh s) \<longrightarrow> withdrawn (k_fresh s'))"
  using assms
  by cases (auto simp: watchdog_tick_def expire_def run_top_def invalidate_def run_failed_def run_filtered_def Let_def)

lemma exec_keeps_since:
  assumes "kexec N le cfg s ls s'" and "Published \<notin> set ls" and "dirty_since (k_fresh s) = Some t"
  shows "dirty_since (k_fresh s') = Some t \<and> (withdrawn (k_fresh s) \<longrightarrow> withdrawn (k_fresh s'))"
  using assms by (induction rule: kexec.induct) (auto dest: step_keeps_since)

lemma watchdog_withdraws:
  assumes "kinv N le cfg s" and "dirty_since (k_fresh s) = Some t" and "t + stale_limit cfg \<le> k_clock s"
  shows "withdrawn (k_fresh (watchdog_tick cfg s)) \<and> w_value (k_tx (watchdog_tick cfg s)) = []"
  using assms by (auto simp: kinv_def watchdog_tick_def expire_def send_replace_def)

text \<open>Every prefix of a published export set, traced to the ACL that permits it.\<close>

definition export_ok :: "ipnet_ops \<Rightarrow> config \<Rightarrow> exports \<Rightarrow> bool" where
  "export_ok N cfg ex = (\<forall>name ps. map_of ex name = Some ps \<longrightarrow>
     distinct ps \<and> (\<forall>p \<in> set ps. net_wf p \<and> net_mask p = p \<and> permits N (the (map_of (acls cfg) name)) p))"

lemma exported_from_ok:
  assumes "ipnet N" and "exported_from N le cfg ex"
  shows "export_ok N cfg ex"
proof (cases "ex = []")
  case True
  then show ?thesis by (simp add: export_ok_def)
next
  case False
  with assms(2) obtain env events seq seq' ps changed where
    snap: "snapshot N le cfg env events seq = Some (seq', Ok (ps, changed))" and ex: "filter_exports N cfg ps = Ok ex"
    by (auto simp: exported_from_def complete_snapshot_def)
  from snapshot_Ok [OF snap] recv_routes_wf [OF assms(1)]
  have "distinct ps" "\<forall>p \<in> set ps. net_wf p \<and> net_mask p = p"
    by (auto simp: result_ok_def)
  with filter_exports_lookup [OF ex] show ?thesis
    by (auto simp: export_ok_def split: if_splits)
qed

section \<open>Properties\<close>

text \<open>
  C6: Stale exports are withdrawn, and failed dumps never move the deadline. Take any reachable
  state with an invalidation pending since \<open>t\<close>, and any interleaving of notifications, failed or
  discarded dumps, clock and watchdog steps in which no complete dump is published. The
  invalidation still counts from \<open>t\<close>; and as soon as the watchdog runs at or after \<open>t\<close> plus the
  stale limit, nothing is exported.
\<close>

theorem stale_exports_withdrawn:
  assumes "kreach N le cfg s" and "dirty_since (k_fresh s) = Some t"
    and "kexec N le cfg s ls s'" and "Published \<notin> set ls" and "t + stale_limit cfg \<le> k_clock s'"
  shows "dirty_since (k_fresh s') = Some t \<and> w_value (k_tx (watchdog_tick cfg s')) = []"
  using exec_keeps_since [OF assms(3,4,2)] kreach_inv [OF kreach_exec [OF assms(3,1)]] watchdog_withdraws assms(5)
  by blast

theorem stale_exports_withdrawn_witness:
  "w_value (k_tx (watchdog_tick example_config
     ((run_init 0 \<lparr>w_value = [], w_version = 0\<rparr>)\<lparr>k_clock := 30000\<rparr>))) = []"
proof -
  let ?s = "run_init 0 \<lparr>w_value = [], w_version = 0\<rparr>"
  have reach: "kreach ipnet_ref True example_config ?s"
    by (rule kreach_init)
  have "kstep ipnet_ref True example_config Clock ?s (?s\<lparr>k_clock := 30000\<rparr>)"
    by (rule kstep.clock) (simp add: run_init_def)
  from kexec.step [OF kexec.none this]
  have exec: "kexec ipnet_ref True example_config ?s [Clock] (?s\<lparr>k_clock := 30000\<rparr>)" by simp
  have "dirty_since (k_fresh ?s) = Some 0" "0 + stale_limit example_config \<le> k_clock (?s\<lparr>k_clock := 30000\<rparr>)"
    by (simp_all add: run_init_def stale_limit_def example_config_def kernel_default_def)
  from stale_exports_withdrawn [OF reach this(1) exec _ this(2)] show ?thesis by simp
qed

text \<open>
  Once the watchdog has withdrawn the exports, they stay withdrawn until a complete dump is
  published, whatever else happens.
\<close>

theorem withdrawal_stands:
  assumes "kreach N le cfg s" and "withdrawn (k_fresh s)" and "kexec N le cfg s ls s'" and "Published \<notin> set ls"
  shows "w_value (k_tx s') = []"
proof -
  have "\<exists>t. dirty_since (k_fresh s) = Some t"
    using kreach_inv [OF assms(1)] assms(2) by (auto simp: kinv_def)
  then have "withdrawn (k_fresh s')"
    using exec_keeps_since [OF assms(3,4)] assms(2) by blast
  then show ?thesis
    using kreach_inv [OF kreach_exec [OF assms(3,1)]] by (simp add: kinv_def)
qed

definition stale_example :: kstate where
  "stale_example = watchdog_tick example_config ((run_init 0 \<lparr>w_value = [], w_version = 0\<rparr>)\<lparr>k_clock := 30000\<rparr>)"

theorem withdrawal_stands_witness: "w_value (k_tx stale_example) = []"
proof -
  let ?s = "run_init 0 \<lparr>w_value = [], w_version = 0\<rparr>"
  have "kreach ipnet_ref True example_config ?s"
    by (rule kreach_init)
  moreover have "kstep ipnet_ref True example_config Clock ?s (?s\<lparr>k_clock := 30000\<rparr>)"
    by (rule kstep.clock) (simp add: run_init_def)
  moreover have "kstep ipnet_ref True example_config Watchdog (?s\<lparr>k_clock := 30000\<rparr>) stale_example"
    unfolding stale_example_def by (rule kstep.watchdog) (simp add: run_init_def)
  ultimately have "kreach ipnet_ref True example_config stale_example"
    by (blast intro: kreach_step)
  moreover have "withdrawn (k_fresh stale_example)"
    by (simp add: stale_example_def watchdog_tick_def expire_def run_init_def stale_limit_def example_config_def
        kernel_default_def)
  ultimately show ?thesis
    using withdrawal_stands [OF _ _ kexec.none] by (metis empty_iff empty_set)
qed

text \<open>
  Nothing is ever published but the export of a complete kernel snapshot, or nothing: in every
  reachable state the value of the channel is empty or the result of \<open>filter\<close> on a snapshot that
  completed without loss.
\<close>

theorem published_from_snapshot:
  assumes "kreach N le cfg s"
  shows "w_value (k_tx s) = [] \<or> (\<exists>env events seq seq' ps changed.
    snapshot N le cfg env events seq = Some (seq', Ok (ps, changed)) \<and> filter_exports N cfg ps = Ok (w_value (k_tx s)))"
proof -
  have "exported_from N le cfg (w_value (k_tx s))"
    using kreach_inv [OF assms] by (simp add: kinv_def)
  then show ?thesis unfolding exported_from_def complete_snapshot_def by blast
qed

text \<open>A run of the daemon that publishes the one route of the example kernel.\<close>

definition published_example :: kstate where
  "published_example = run_filtered example_config False [(''export'', [NetV4 0xC6336400 24])] events_default
     ((run_init 0 \<lparr>w_value = [], w_version = 0\<rparr>)\<lparr>k_phase := Filtering [NetV4 0xC6336400 24] False, k_seq := 1\<rparr>)"

lemma published_example_reach: "kreach ipnet_ref True example_config published_example"
proof -
  let ?s0 = "run_init 0 \<lparr>w_value = [], w_version = 0\<rparr>"
  let ?s1 = "?s0\<lparr>k_phase := Dumping\<rparr>" and ?ps = "[NetV4 0xC6336400 24]"
  let ?s2 = "?s1\<lparr>k_seq := 1, k_phase := Filtering ?ps False\<rparr>"
  have "kstep ipnet_ref True example_config Drained ?s0 (run_top events_default ?s0)"
    by (rule kstep.drained [OF _ drain_Nil]) (simp add: run_init_def)
  moreover have "run_top events_default ?s0 = ?s1"
    by (simp add: run_top_def run_init_def invalidate_def)
  ultimately have s1: "kreach ipnet_ref True example_config ?s1"
    using kreach_init kreach_step by metis
  have "kstep ipnet_ref True example_config DumpDone ?s1 ?s2"
    using example_snapshot by (intro kstep.dump_done) (simp_all add: run_init_def)
  with s1 have s2: "kreach ipnet_ref True example_config ?s2" by (rule kreach_step)
  have ex: "filter_exports ipnet_ref example_config ?ps = Ok [(''export'', ?ps)]"
    by (simp add: filter_exports_Ok [OF example_config_ok])
      (simp add: example_defs permits_def rule_matches_def ipnet_ref_def mask_top_def)
  have "kstep ipnet_ref True example_config Published ?s2
      (run_filtered example_config False [(''export'', ?ps)] events_default ?s2)"
    by (rule kstep.published [OF _ ex drain_Nil]) (simp_all add: events_default_def)
  moreover have "?s2 = ?s0\<lparr>k_phase := Filtering ?ps False, k_seq := 1\<rparr>" by simp
  ultimately show ?thesis
    using s2 kreach_step unfolding published_example_def by metis
qed

lemma published_example_value: "w_value (k_tx published_example) = [(''export'', [NetV4 0xC6336400 24])]"
  by (simp add: published_example_def run_filtered_def events_default_def publish_def send_replace_def run_init_def Let_def
      exports_eq_def)

theorem published_from_snapshot_witness:
  "\<exists>env events seq seq' ps changed. snapshot ipnet_ref True example_config env events seq = Some (seq', Ok (ps, changed)) \<and>
     filter_exports ipnet_ref example_config ps = Ok [(''export'', [NetV4 0xC6336400 24])]"
  using published_from_snapshot [OF published_example_reach] by (simp add: published_example_value)

text \<open>
  Every published prefix is permitted: in every reachable state, each prefix in the set of an
  ACL is permitted by that ACL, well formed and truncated.
\<close>

theorem published_permitted:
  assumes "ipnet N" and "kreach N le cfg s" and "map_of (w_value (k_tx s)) name = Some ps" and "p \<in> set ps"
  shows "permits N (the (map_of (acls cfg) name)) p \<and> net_wf p \<and> net_trunc N p = p"
proof -
  from kreach_inv [OF assms(2)] have "exported_from N le cfg (w_value (k_tx s))"
    by (simp add: kinv_def)
  from exported_from_ok [OF assms(1) this] assms(3,4) have "permits N (the (map_of (acls cfg) name)) p" "net_wf p" "net_mask p = p"
    by (auto simp: export_ok_def)
  with ipnet.trunc_spec [OF assms(1), of p] show ?thesis by simp
qed

theorem published_permitted_witness:
  "permits ipnet_ref (the (map_of (acls example_config) ''export'')) (NetV4 0xC6336400 24)"
  using published_permitted [OF ref.ipnet_axioms published_example_reach, of "''export''" "[NetV4 0xC6336400 24]"
      "NetV4 0xC6336400 24"]
  by (simp add: published_example_value)

end
