(* ===== verification/Cli.thy ===== *)
theory Cli
  imports Prelude
begin

text \<open>
  The command line of \<open>src/cli.rs\<close> and the log events of \<open>src/daemon.rs\<close>.

  An argument is the list of its bytes, as \<open>OsString\<close> keeps it; the comparisons of the source
  are with ASCII literals, which an argument that is not UTF-8 never equals. A log event is
  buffered in pieces and handed to \<open>syslog\<close> as one C string.
\<close>

section \<open>Arguments\<close>

datatype command = Help | Version | Run string bool bool bool

datatype arg_error = ConfigNeedsPath | UnknownArgument string

record arg_vars =
  av_path :: string
  av_daemon :: bool
  av_debug :: bool
  av_check :: bool

definition arg_defaults :: arg_vars where
  "arg_defaults = \<lparr>av_path = ''/etc/ubgp.toml'', av_daemon = False, av_debug = False, av_check = False\<rparr>"

definition strip_prefix :: "string \<Rightarrow> string \<Rightarrow> string option" where
  "strip_prefix pre s = (if take (length pre) s = pre then Some (drop (length pre) s) else None)"

definition path_value :: "string \<Rightarrow> bool" where
  "path_value v = (v \<noteq> [] \<and> take 1 v \<noteq> ''-'')"

fun parse_args :: "string list \<Rightarrow> arg_vars \<Rightarrow> (arg_error, command) outcome" where
  "parse_args [] v = Ok (Run (av_path v) (av_daemon v) (av_debug v) (av_check v))"
| "parse_args (arg # args) v =
    (if arg = ''--help'' \<or> arg = ''-h'' then Ok Help
     else if arg = ''--version'' \<or> arg = ''-V'' then Ok Version
     else if arg = ''--daemon'' \<or> arg = ''-d'' then parse_args args (v\<lparr>av_daemon := True\<rparr>)
     else if arg = ''--debug'' then parse_args args (v\<lparr>av_debug := True\<rparr>)
     else if arg = ''--check-config'' then parse_args args (v\<lparr>av_check := True\<rparr>)
     else if arg = ''--config'' \<or> arg = ''-c'' then
       (case args of
          value # rest \<Rightarrow> if path_value value then parse_args rest (v\<lparr>av_path := value\<rparr>) else Err ConfigNeedsPath
        | [] \<Rightarrow> Err ConfigNeedsPath)
     else (case strip_prefix ''--config='' arg of
         Some value \<Rightarrow> if value \<noteq> [] then parse_args args (v\<lparr>av_path := value\<rparr>) else Err ConfigNeedsPath
       | None \<Rightarrow> Err (UnknownArgument arg)))"

definition parse_command :: "string list \<Rightarrow> (arg_error, command) outcome" where
  "parse_command args = parse_args args arg_defaults"

section \<open>Log events\<close>

datatype level = LERROR | LWARN | LINFO | LDEBUG | LTRACE

record log_event =
  le_bytes :: bytes
  le_priority :: nat

text \<open>The priorities of \<open>syslog.h\<close>.\<close>

definition make_writer :: log_event where
  "make_writer = \<lparr>le_bytes = [], le_priority = 6\<rparr>"

definition make_writer_for :: "level \<Rightarrow> log_event" where
  "make_writer_for l = \<lparr>le_bytes = [],
     le_priority = (case l of LERROR \<Rightarrow> 3 | LWARN \<Rightarrow> 4 | LINFO \<Rightarrow> 6 | _ \<Rightarrow> 7)\<rparr>"

definition event_write :: "bytes \<Rightarrow> log_event \<Rightarrow> log_event" where
  "event_write b e = e\<lparr>le_bytes := le_bytes e @ map (\<lambda>x. if x = 0 then 63 else x) b\<rparr>"

text \<open>What is passed to \<open>syslog\<close> when the event is dropped; a NUL byte would panic.\<close>

definition event_drop :: "log_event \<Rightarrow> (arg_error, (nat \<times> bytes) option) outcome" where
  "event_drop e =
    (if le_bytes e = [] then Ok None
     else if 0 \<in> set (le_bytes e) then Panic
     else Ok (Some (le_priority e, le_bytes e)))"

text \<open>
  The set-up of logging: the filter, where \<open>env\<close> is a valid \<open>RUST_LOG\<close>, and whether events go to
  syslog, without colours and times, or to the console.
\<close>

record log_setup =
  ls_filter :: string
  ls_syslog :: bool
  ls_ansi :: bool
  ls_time :: bool

definition init_logging :: "bool \<Rightarrow> bool \<Rightarrow> string option \<Rightarrow> log_setup" where
  "init_logging background debug env =
    (let filter = (if debug then ''ubgp=debug'' else (case env of Some f \<Rightarrow> f | None \<Rightarrow> ''ubgp=info'')) in
     if background then \<lparr>ls_filter = filter, ls_syslog = True, ls_ansi = False, ls_time = False\<rparr>
     else \<lparr>ls_filter = filter, ls_syslog = False, ls_ansi = True, ls_time = True\<rparr>)"

section \<open>Options as data\<close>

text \<open>The options a command line can spell, with the spelling used.\<close>

datatype option_arg = ODaemon bool | ODebug | OCheck | OConfig bool string | OConfigEq string

fun render :: "option_arg \<Rightarrow> string list" where
  "render (ODaemon short) = [if short then ''-d'' else ''--daemon'']"
| "render ODebug = [''--debug'']"
| "render OCheck = [''--check-config'']"
| "render (OConfig short v) = [if short then ''-c'' else ''--config'', v]"
| "render (OConfigEq v) = [''--config='' @ v]"

fun option_ok :: "option_arg \<Rightarrow> bool" where
  "option_ok (OConfig short v) = path_value v"
| "option_ok (OConfigEq v) = (v \<noteq> [])"
| "option_ok _ = True"

fun apply_option :: "option_arg \<Rightarrow> arg_vars \<Rightarrow> arg_vars" where
  "apply_option (ODaemon short) v = v\<lparr>av_daemon := True\<rparr>"
| "apply_option ODebug v = v\<lparr>av_debug := True\<rparr>"
| "apply_option OCheck v = v\<lparr>av_check := True\<rparr>"
| "apply_option (OConfig short p) v = v\<lparr>av_path := p\<rparr>"
| "apply_option (OConfigEq p) v = v\<lparr>av_path := p\<rparr>"

definition run_command :: "arg_vars \<Rightarrow> command" where
  "run_command v = Run (av_path v) (av_daemon v) (av_debug v) (av_check v)"

lemma parse_args_render:
  "option_ok o1 \<Longrightarrow> parse_args (render o1 @ args) v = parse_args args (apply_option o1 v)"
  by (cases o1) (simp_all add: strip_prefix_def)

lemma parse_args_options:
  "list_all option_ok os \<Longrightarrow> parse_args (concat (map render os)) v = Ok (run_command (fold apply_option os v))"
proof (induction os arbitrary: v)
  case (Cons x xs)
  then show ?case using parse_args_render [of x "concat (map render xs)" v] by simp
qed (simp add: run_command_def)

lemma strip_prefix_Some: "strip_prefix pre s = Some r \<longleftrightarrow> s = pre @ r"
  by (auto simp: strip_prefix_def) (metis append_take_drop_id)

text \<open>An accepted argument list starts with the spelling of an option.\<close>

lemma parse_args_Run:
  assumes "parse_args args v = Ok (Run p d g k)"
  shows "args = [] \<and> Run p d g k = run_command v \<or>
    (\<exists>o1 rest. option_ok o1 \<and> args = render o1 @ rest \<and> parse_args rest (apply_option o1 v) = Ok (Run p d g k))"
proof (cases args)
  case Nil
  with assms show ?thesis by (simp add: run_command_def)
next
  case (Cons arg rest)
  have info: "arg \<noteq> ''--help''" "arg \<noteq> ''-h''" "arg \<noteq> ''--version''" "arg \<noteq> ''-V''"
    using assms Cons by auto
  have eq: "\<exists>val. arg = ''--config='' @ val" if "arg \<noteq> ''--daemon''" "arg \<noteq> ''-d''" "arg \<noteq> ''--debug''"
    "arg \<noteq> ''--check-config''" "arg \<noteq> ''--config''" "arg \<noteq> ''-c''"
  proof (cases "strip_prefix ''--config='' arg")
    case None
    with assms Cons info that show ?thesis by simp
  next
    case (Some val)
    then show ?thesis unfolding strip_prefix_Some by blast
  qed
  consider "arg = ''--daemon''" | "arg = ''-d''" | "arg = ''--debug''" | "arg = ''--check-config''"
    | "arg = ''--config'' \<or> arg = ''-c''" | val where "arg = ''--config='' @ val"
    using eq by blast
  then show ?thesis
  proof cases
    case 1
    with assms Cons show ?thesis by (intro disjI2 exI [of _ "ODaemon False"]) auto
  next
    case 2
    with assms Cons show ?thesis by (intro disjI2 exI [of _ "ODaemon True"]) auto
  next
    case 3
    with assms Cons show ?thesis by (intro disjI2 exI [of _ ODebug]) auto
  next
    case 4
    with assms Cons show ?thesis by (intro disjI2 exI [of _ OCheck]) auto
  next
    case 5
    then have "parse_args args v = (case rest of
        x # r \<Rightarrow> if path_value x then parse_args r (v\<lparr>av_path := x\<rparr>) else Err ConfigNeedsPath
      | [] \<Rightarrow> Err ConfigNeedsPath)"
      unfolding Cons by (elim disjE) simp_all
    with assms obtain val rest' where "rest = val # rest'" "path_value val"
        "parse_args rest' (v\<lparr>av_path := val\<rparr>) = Ok (Run p d g k)"
      by (simp split: list.split_asm if_split_asm)
    with 5 Cons show ?thesis by (intro disjI2 exI [of _ "OConfig (arg = ''-c'') val"]) auto
  next
    case 6
    with assms Cons show ?thesis
      by (intro disjI2 exI [of _ "OConfigEq val"] exI [of _ rest]) (auto simp: strip_prefix_def split: if_splits)
  qed
qed

lemma parse_args_complete:
  "parse_args args v = Ok (Run p d g k) \<Longrightarrow>
    \<exists>os. list_all option_ok os \<and> args = concat (map render os) \<and> Run p d g k = run_command (fold apply_option os v)"
proof (induction "length args" arbitrary: args v rule: less_induct)
  case less
  from parse_args_Run [OF less.prems] show ?case
  proof
    assume "args = [] \<and> Run p d g k = run_command v"
    then show ?thesis by (intro exI [of _ "[]"]) simp
  next
    assume "\<exists>o1 rest. option_ok o1 \<and> args = render o1 @ rest \<and> parse_args rest (apply_option o1 v) = Ok (Run p d g k)"
    then obtain o1 rest where o: "option_ok o1" "args = render o1 @ rest" "parse_args rest (apply_option o1 v) = Ok (Run p d g k)"
      by blast
    moreover have "length rest < length args" using o(2) by (cases o1) simp_all
    ultimately obtain os where "list_all option_ok os" "rest = concat (map render os)"
        "Run p d g k = run_command (fold apply_option os (apply_option o1 v))"
      using less.hyps by blast
    with o show ?thesis by (intro exI [of _ "o1 # os"]) simp
  qed
qed

lemma event_drop_written:
  "event_drop (fold event_write bs (make_writer_for l)) =
    (let text = map (\<lambda>x. if x = 0 then 63 else x) (concat bs) in
     Ok (if text = [] then None else Some (le_priority (make_writer_for l), text)))"
proof -
  have "le_bytes (fold event_write bs e) = le_bytes e @ map (\<lambda>x. if x = 0 then 63 else x) (concat bs)" for e
    by (induction bs arbitrary: e) (simp_all add: event_write_def)
  moreover have "le_priority (fold event_write bs e) = le_priority e" for e
    by (induction bs arbitrary: e) (simp_all add: event_write_def)
  ultimately show ?thesis
    by (auto simp: event_drop_def Let_def make_writer_for_def)
qed

section \<open>Properties\<close>

text \<open>
  The command line accepts exactly the documented options: an argument list starts the program
  with some settings exactly when it is the spelling, in short or long form, of a sequence of
  options with non-empty paths (not starting with a dash when given as a separate argument) whose
  effects, the last path winning, give those settings from the defaults.
\<close>

theorem command_line_exact:
  "parse_command args = Ok (Run p d g k) \<longleftrightarrow>
    (\<exists>os. list_all option_ok os \<and> args = concat (map render os) \<and> Run p d g k = run_command (fold apply_option os arg_defaults))"
  unfolding parse_command_def using parse_args_complete parse_args_options by metis

text \<open>
  Log events are always deliverable: whatever pieces are written, dropping the event hands
  \<open>syslog\<close> one C string, the pieces in order with every NUL byte replaced, or nothing when all were
  empty.
\<close>

theorem events_delivered:
  "event_drop (fold event_write bs (make_writer_for l)) =
    Ok (if concat bs = [] then None
        else Some (le_priority (make_writer_for l), map (\<lambda>x. if x = 0 then 63 else x) (concat bs)))"
  by (simp add: event_drop_written Let_def)

end
