(* ===== verification/Supervisor.thy ===== *)
theory Supervisor
  imports Freshness Cli
begin

text \<open>
  The start of the program and its supervisor in \<open>src/main.rs\<close>: the command line and the first
  configuration, then generations of three workers (the kernel side, the BGP side and the
  console) that a reload replaces and a signal or a worker's end stops.

  The state says which workers run, the stop flag of the current generation and the exports its
  watch channel starts from; the messages of the workers' errors are abstracted to which worker
  ended. \<open>read\<close> and \<open>toml\<close> are the file system and the TOML parser, \<open>absolute\<close> the resolution
  of a path, \<open>tcp\<close> says which addresses \<open>TcpListener::bind\<close> can bind. What the start of the
  program does to its environment is a list of effects, in order.
\<close>

section \<open>Definitions\<close>

datatype start_error = ArgError arg_error | PathError | LoadError cfg_error

datatype started = PrintedHelp | PrintedVersion | ConfigValid string | StartDaemon string bool bool config

definition main_start :: "ipnet_ops \<Rightarrow> (string \<Rightarrow> string option) \<Rightarrow> (string \<Rightarrow> nat option + config) \<Rightarrow>
    (string \<Rightarrow> string option) \<Rightarrow> string list \<Rightarrow> (start_error, started) outcome" where
  "main_start N read toml absolute args = (case parse_command args of
     Err e \<Rightarrow> Err (ArgError e)
   | Panic \<Rightarrow> Panic
   | Ok Help \<Rightarrow> Ok PrintedHelp
   | Ok Version \<Rightarrow> Ok PrintedVersion
   | Ok (Run path daemon debug check) \<Rightarrow>
       (case absolute path of
          None \<Rightarrow> Err PathError
        | Some path \<Rightarrow>
            (case load N read toml path of
               Err e \<Rightarrow> Err (LoadError e)
             | Panic \<Rightarrow> Panic
             | Ok config \<Rightarrow> Ok (if check then ConfigValid path else StartDaemon path daemon debug config))))"

text \<open>
  The rest of \<open>main\<close>: going into the background, logging, and the runtime that runs the supervisor.
  \<open>rc\<close> is the result of \<open>daemon(3)\<close>, and \<open>build\<close> says whether the builder succeeds.
\<close>

datatype effect = Prints | Detaches | Logs log_setup | Runs string config

datatype main_error = StartError start_error | DetachFailed | RuntimeFailed

definition detach :: "int \<Rightarrow> (main_error, unit) outcome" where
  "detach rc = ensure (rc = 0) DetachFailed"

definition main_effects :: "int \<Rightarrow> bool \<Rightarrow> string option \<Rightarrow> (start_error, started) outcome \<Rightarrow> effect list \<times> main_error option" where
  "main_effects rc build env st = (case st of
     Ok (StartDaemon path background debug config) \<Rightarrow>
       (case if background then detach rc else Ok () of
          Err e \<Rightarrow> ([], Some e)
        | Panic \<Rightarrow> ([], None)
        | Ok _ \<Rightarrow>
         let es = (if background then [Detaches] else []) @ [Logs (init_logging background debug env)] in
         if build then (es @ [Runs path config], None) else (es, Some RuntimeFailed))
   | Ok _ \<Rightarrow> ([Prints], None)
   | Err e \<Rightarrow> ([], Some (StartError e))
   | Panic \<Rightarrow> ([], None))"

datatype worker = KernelWorker | BgpWorker | ConsoleWorker

datatype run_error = BindFailed | WorkerFailed worker | WorkerPanicked worker | WorkerStopped worker

record supervisor =
  su_config :: config
  su_running :: "worker list"
  su_stop :: bool
  su_exports :: exports
  su_result :: "(run_error, unit) outcome option"
  su_listener :: "socket_addr option"

text \<open>\<open>management::bind\<close>: nothing when disabled.\<close>

definition bind :: "(socket_addr \<Rightarrow> bool) \<Rightarrow> config \<Rightarrow> (run_error, socket_addr option) outcome" where
  "bind tcp cfg =
    (if \<not> enabled (cfg_management cfg) then Ok None
     else if tcp (listen (cfg_management cfg)) then Ok (Some (listen (cfg_management cfg)))
     else Err BindFailed)"

text \<open>The head of the outer loop: a new generation.\<close>

definition spawn :: "(socket_addr \<Rightarrow> bool) \<Rightarrow> config \<Rightarrow> supervisor" where
  "spawn tcp cfg = (case bind tcp cfg of
     Ok l \<Rightarrow> \<lparr>su_config = cfg, su_running = [KernelWorker, ConsoleWorker, BgpWorker], su_stop = False,
       su_exports = [], su_result = None, su_listener = l\<rparr>
   | Err e \<Rightarrow> \<lparr>su_config = cfg, su_running = [], su_stop = False, su_exports = [], su_result = Some (Err e), su_listener = None\<rparr>
   | Panic \<Rightarrow> \<lparr>su_config = cfg, su_running = [], su_stop = False, su_exports = [], su_result = Some Panic, su_listener = None\<rparr>)"

text \<open>
  The end of a generation: the flag is set, the tasks are aborted and every worker is joined.
\<close>

definition stop_workers :: "supervisor \<Rightarrow> supervisor" where
  "stop_workers s = s\<lparr>su_stop := True, su_running := [], su_listener := None\<rparr>"

text \<open>How the join of a worker ends.\<close>

datatype joined = JoinedOk | JoinedErr | JoinedPanic

fun exit_error :: "worker \<Rightarrow> joined \<Rightarrow> run_error" where
  "exit_error w JoinedPanic = WorkerPanicked w"
| "exit_error w JoinedErr = WorkerFailed w"
| "exit_error w JoinedOk = WorkerStopped w"

text \<open>The arms in which a worker ends by itself.\<close>

definition worker_exit :: "worker \<Rightarrow> joined \<Rightarrow> supervisor \<Rightarrow> supervisor" where
  "worker_exit w r s = (stop_workers s)\<lparr>su_result := Some (Err (exit_error w r))\<rparr>"

text \<open>The common tail of reload and shutdown; the kernel worker's own error ends the program.\<close>

definition finish :: "(socket_addr \<Rightarrow> bool) \<Rightarrow> config option \<Rightarrow> joined \<Rightarrow> supervisor \<Rightarrow> supervisor" where
  "finish tcp replacement kj s =
    (let s = stop_workers s in
     if kj \<noteq> JoinedOk then s\<lparr>su_result := Some (Err (exit_error KernelWorker kj))\<rparr>
     else case replacement of
       Some cfg \<Rightarrow> spawn tcp cfg
     | None \<Rightarrow> s\<lparr>su_result := Some (Ok ())\<rparr>)"

text \<open>A reload reads the file again; its contents may have changed.\<close>

datatype slabel = WorkerEnds | Reload | ReloadRejected | Terminate | Exports

inductive sstep :: "ipnet_ops \<Rightarrow> (string \<Rightarrow> nat option + config) \<Rightarrow> string \<Rightarrow>
    slabel \<Rightarrow> supervisor \<Rightarrow> supervisor \<Rightarrow> bool"
  for N :: ipnet_ops and toml :: "string \<Rightarrow> nat option + config" and path :: string where
  worker_ends: "su_result s = None \<Longrightarrow> w \<in> set (su_running s) \<Longrightarrow> sstep N toml path WorkerEnds s (worker_exit w r s)"
| reload: "su_result s = None \<Longrightarrow> load N read toml path = Ok cfg \<Longrightarrow>
    sstep N toml path Reload s (finish tcp (Some cfg) kj s)"
| reload_rejected: "su_result s = None \<Longrightarrow> load N read toml path = Err e \<Longrightarrow> sstep N toml path ReloadRejected s s"
| terminate: "su_result s = None \<Longrightarrow> sstep N toml path Terminate s (finish tcp None kj s)"
| exports: "su_result s = None \<Longrightarrow> sstep N toml path Exports s (s\<lparr>su_exports := ex\<rparr>)"

text \<open>The states of a program that was started with some arguments.\<close>

inductive sreach :: "ipnet_ops \<Rightarrow> (string \<Rightarrow> string option) \<Rightarrow> (string \<Rightarrow> nat option + config) \<Rightarrow> (string \<Rightarrow> string option) \<Rightarrow>
    string list \<Rightarrow> slabel list \<Rightarrow> supervisor \<Rightarrow> bool"
  for N :: ipnet_ops and read :: "string \<Rightarrow> string option" and toml :: "string \<Rightarrow> nat option + config"
    and absolute :: "string \<Rightarrow> string option" and args :: "string list" where
  start: "main_start N read toml absolute args = Ok (StartDaemon path daemon debug cfg) \<Longrightarrow>
    sreach N read toml absolute args [] (spawn tcp cfg)"
| step: "sreach N read toml absolute args ls s \<Longrightarrow> main_start N read toml absolute args = Ok (StartDaemon path daemon debug cfg) \<Longrightarrow>
    sstep N toml path l s s' \<Longrightarrow> sreach N read toml absolute args (ls @ [l]) s'"

inductive_cases sstepE: "sstep N toml path l s s'"

section \<open>The invariant\<close>

definition sinv :: "ipnet_ops \<Rightarrow> supervisor \<Rightarrow> bool" where
  "sinv N s = (config_ok N (su_config s) \<and>
     (su_result s = None \<longrightarrow> set (su_running s) = {KernelWorker, ConsoleWorker, BgpWorker} \<and> \<not> su_stop s) \<and>
     (su_result s \<noteq> None \<longrightarrow> su_running s = []) \<and>
     (case su_listener s of Some a \<Rightarrow> is_loopback (fst a) \<and> enabled (cfg_management (su_config s)) | None \<Rightarrow> True))"

lemma load_ok: "load N read toml path = Ok cfg \<Longrightarrow> config_ok N cfg"
  by (auto simp: load_def bindr_eq_Ok validate_ok_iff split: option.splits)

lemma main_start_config:
  "main_start N read toml absolute args = Ok (StartDaemon path daemon debug cfg) \<Longrightarrow> config_ok N cfg"
  by (auto simp: main_start_def split: outcome.splits command.splits option.splits if_splits dest: load_ok)

lemma sinv_spawn: "config_ok N cfg \<Longrightarrow> sinv N (spawn tcp cfg)"
  by (auto simp: sinv_def spawn_def bind_def config_ok_def global_ok_def)

lemma sinv_stop: "sinv N s \<Longrightarrow> sinv N ((stop_workers s)\<lparr>su_result := Some r\<rparr>)"
  by (simp add: sinv_def stop_workers_def)

lemma sinv_finish:
  assumes "sinv N s" and "\<And>cfg. replacement = Some cfg \<Longrightarrow> config_ok N cfg"
  shows "sinv N (finish tcp replacement kj s)"
  using assms by (cases replacement) (simp_all add: finish_def Let_def sinv_stop sinv_spawn)

lemma sinv_step: "sstep N toml path l s s' \<Longrightarrow> sinv N s \<Longrightarrow> sinv N s'"
  by (erule sstepE) (auto simp: worker_exit_def sinv_stop intro!: sinv_finish dest: load_ok, auto simp: sinv_def split: option.splits)

lemma sinv_reach: "sreach N read toml absolute args ls s \<Longrightarrow> sinv N s"
  by (induction rule: sreach.induct) (auto intro: sinv_spawn main_start_config sinv_step)

section \<open>Properties\<close>

text \<open>
  The start of the program does things in the right order: it goes into the background only when
  asked to and only with a configuration that was loaded and validated, so that every error in the
  arguments or the file is reported in the foreground; logging is set up after that, and the
  supervisor runs last, on the validated configuration. Checking a file does nothing but print.
\<close>

theorem startup_order:
  assumes "main_effects rc build env (main_start N read toml absolute args) = (es, r)" and "es \<noteq> []"
  shows "es = [Prints] \<and> r = None \<or>
    (\<exists>path background debug cfg. parse_command args \<noteq> Ok Help \<and> config_ok N cfg \<and>
      main_start N read toml absolute args = Ok (StartDaemon path background debug cfg) \<and>
      es = (if background then [Detaches] else []) @ [Logs (init_logging background debug env)] @
        (if build then [Runs path cfg] else []) \<and> (r = None \<longleftrightarrow> build))"
proof (cases "main_start N read toml absolute args")
  case (Ok st)
  then have "parse_command args = Ok Help \<Longrightarrow> st = PrintedHelp" by (simp add: main_start_def)
  with Ok assms main_start_config [of N read toml absolute args] show ?thesis
    by (cases st) (auto simp: main_effects_def Let_def detach_def split: if_splits outcome.splits)
qed (use assms in \<open>simp_all add: main_effects_def\<close>)



definition example_toml :: "string \<Rightarrow> nat option + config" where
  "example_toml text = (if text = ''ok'' then Inr example_config else Inl (Some 0))"

lemma example_main_start:
  "main_start ipnet_ref (\<lambda>_. Some ''ok'') example_toml Some [] = Ok (StartDaemon ''/etc/ubgp.toml'' False False example_config)"
  using example_config_ok
  by (simp add: main_start_def parse_command_def arg_defaults_def load_def parse_def example_toml_def validate_ok_iff [THEN iffD2])




end
