(* ===== verification/Wire_Validate.thy ===== *)
theory Wire_Validate
  imports Wire_Update
begin

text \<open>
  Inbound messages of \<open>src/wire.rs\<close>: validation of UPDATEs with the recovery classes of
  RFC 7606, the decoder of reachable prefixes, route refresh requests and unexpected
  messages. Each \<open>while\<close> loop is a recursive function whose termination is proved: every
  iteration takes at least one byte off the front.
\<close>

section \<open>Definitions\<close>

function validate_nlri :: "bytes \<Rightarrow> nat \<Rightarrow> (error, unit) outcome" where
  "validate_nlri b bits =
    (if b = [] then Ok ()
     else
       bindr (index b 0) (\<lambda>b0.
       let n = div_ceil (unat b0) 8 in
       bindr (require (unat b0 \<le> bits \<and> n < length b) 3 10 ''invalid NLRI'') (\<lambda>_.
       bindr (slice_from b (n + 1)) (\<lambda>b.
       validate_nlri b bits))))"
  by pat_completeness auto
termination
  by (relation "measure (\<lambda>(b, bits). length b)") (auto simp: slice_from_eq_Ok)

declare validate_nlri.simps [simp del]

function validate_path :: "bytes \<Rightarrow> nat \<Rightarrow> (error, unit) outcome" where
  "validate_path b width =
    (if b = [] then Ok ()
     else
       bindr (and_also (2 \<le> length b)
         (bindr (index b 0) (\<lambda>b0. and_also (1 \<le> b0 \<and> b0 \<le> 4)
           (bindr (index b 1) (\<lambda>b1. Ok (b1 > 0)))))) (\<lambda>ok.
       bindr (require ok 3 11 ''invalid AS_PATH segment'') (\<lambda>_.
       bindr (index b 1) (\<lambda>b1.
       let len = 2 + width * unat b1 in
       bindr (require (len \<le> length b) 3 11 ''truncated AS_PATH'') (\<lambda>_.
       bindr (slice_from b len) (\<lambda>b.
       validate_path b width))))))"
  by pat_completeness auto
termination
  by (relation "measure (\<lambda>(b, width). length b)") (auto simp: slice_from_eq_Ok)

declare validate_path.simps [simp del]

datatype update_action = Valid | AttributeDiscard | TreatAsWithdraw

text \<open>The derived order of the enumeration: later constructors are stronger.\<close>

fun action_rank :: "update_action \<Rightarrow> nat" where
  "action_rank Valid = 0"
| "action_rank AttributeDiscard = 1"
| "action_rank TreatAsWithdraw = 2"

instantiation update_action :: linorder
begin

definition less_eq_update_action :: "update_action \<Rightarrow> update_action \<Rightarrow> bool" where
  "less_eq_update_action a b = (action_rank a \<le> action_rank b)"

definition less_update_action :: "update_action \<Rightarrow> update_action \<Rightarrow> bool" where
  "less_update_action a b = (action_rank a < action_rank b)"

instance
proof
  fix a b :: update_action
  show "a \<le> b \<Longrightarrow> b \<le> a \<Longrightarrow> a = b"
    by (cases a; cases b) (simp_all add: less_eq_update_action_def)
qed (auto simp: less_eq_update_action_def less_update_action_def)

end

text \<open>The variables of the attribute loop; \<open>seen\<close> is the array of 256 flags.\<close>

record attr_state =
  seen :: "u8 \<Rightarrow> bool"
  mp_reach :: bool
  act :: update_action

definition attr_init :: attr_state where
  "attr_init = \<lparr>seen = (\<lambda>_. False), mp_reach = False, act = Valid\<rparr>"

definition expected_flags :: "u8 \<Rightarrow> u8 option" where
  "expected_flags kind =
    (if kind \<in> {1, 2, 3, 5, 6} then Some 0x40
     else if kind \<in> {4, 9, 10, 14, 15} then Some 0x80
     else if kind \<in> {7, 8, 16, 17, 18, 32} then Some 0xC0
     else None)"

definition flags_ok :: "u8 \<Rightarrow> u8 \<Rightarrow> bool" where
  "flags_ok flags kind = is_none_or (expected_flags kind) (\<lambda>e.
     flags AND 0xC0 = e \<and> (flags AND 0x20 = 0 \<or> e = 0xC0))"

text \<open>\<open>Result::is_ok\<close>.\<close>

definition is_ok :: "('e, 'a) outcome \<Rightarrow> ('f, bool) outcome" where
  "is_ok m = (case m of Ok _ \<Rightarrow> Ok True | Err _ \<Rightarrow> Ok False | Panic \<Rightarrow> Panic)"

definition ipv4_unicast_or_v6 :: "u8 \<Rightarrow> u16 \<Rightarrow> bool" where
  "ipv4_unicast_or_v6 safi afi = (safi = 1 \<and> (afi = 1 \<or> afi = 2))"

text \<open>MP_REACH_NLRI and MP_UNREACH_NLRI.\<close>

definition mp_attribute :: "u8 \<Rightarrow> u8 \<Rightarrow> bytes \<Rightarrow> attr_state \<Rightarrow> (error, attr_state) outcome" where
  "mp_attribute flags kind data st =
     bindr (require (flags_ok flags kind) 3 9 ''invalid multiprotocol attribute flags'') (\<lambda>_.
     bindr (require (3 \<le> length data) 3 9 ''short multiprotocol attribute'') (\<lambda>_.
     bindr (u16b data) (\<lambda>afi.
     bindr (if kind = 14 then
         bindr (and_also (5 \<le> length data)
           (bindr (index data 3) (\<lambda>d3. Ok (unat d3 + 5 \<le> length data)))) (\<lambda>ok.
         bindr (require ok 3 9 ''invalid MP_REACH next hop'') (\<lambda>_.
         bindr (index data 2) (\<lambda>safi.
         bindr (index data 3) (\<lambda>d3.
         bindr (if ipv4_unicast_or_v6 safi afi
           then require (if afi = 2 then d3 = 16 \<or> d3 = 32 else d3 = 4) 3 9 ''invalid MP_REACH next-hop size''
           else Ok ()) (\<lambda>_.
         Ok (5 + unat d3))))))
       else Ok 3) (\<lambda>start.
     bindr (index data 2) (\<lambda>safi.
     if ipv4_unicast_or_v6 safi afi then
       bindr (slice_from data start) (\<lambda>rest.
       bindr (validate_nlri rest (if afi = 1 then 32 else 128)) (\<lambda>_.
       Ok (st\<lparr>mp_reach := mp_reach st \<or> (kind = 14 \<and> start < length data)\<rparr>)))
     else Ok st)))))"

definition valid_value :: "negotiated \<Rightarrow> u8 \<Rightarrow> u8 \<Rightarrow> bytes \<Rightarrow> bytes \<Rightarrow> (error, bool) outcome" where
  "valid_value n flags kind data whole =
    (if kind = 1 then and_also (length data = 1) (bindr (index data 0) (\<lambda>d. Ok (d \<le> 2)))
     else if kind = 2 then is_ok (validate_path data (if asn4 n then 4 else 2))
     else if kind = 3 then and_also (length data = 4)
       (bindr (index data 0) (\<lambda>a. bindr (index data 1) (\<lambda>b. bindr (index data 2) (\<lambda>c.
        bindr (index data 3) (\<lambda>d. Ok (valid_v4 (ipv4_of_octets [a, b, c, d])))))))
     else if kind \<in> {4, 5, 9} then Ok (length data = 4)
     else if kind = 6 then Ok (length data = 0)
     else if kind = 7 then Ok (length data = (if asn4 n then 8 else 6))
     else if kind \<in> {8, 10} then Ok (length data \<noteq> 0 \<and> length data mod 4 = 0)
     else if kind = 16 then Ok (length data \<noteq> 0 \<and> length data mod 8 = 0)
     else if kind = 17 then and_also (6 \<le> length data \<and> length data mod 2 = 0) (is_ok (validate_path data 4))
     else if kind = 18 then Ok (length data = 8)
     else if kind = 32 then Ok (length data \<noteq> 0 \<and> length data mod 12 = 0)
     else if flags AND 0x80 = 0 then
       Err (Protocol \<lparr>pe_code = 3, pe_subcode = 2, pe_data = whole, pe_reason = ''unknown well-known attribute''\<rparr>)
     else Ok True)"

text \<open>One attribute that was neither a duplicate nor discarded for the session type.\<close>

definition attribute :: "negotiated \<Rightarrow> u8 \<Rightarrow> u8 \<Rightarrow> bytes \<Rightarrow> bytes \<Rightarrow> attr_state \<Rightarrow> (error, attr_state) outcome" where
  "attribute n flags kind data whole st =
    (if kind = 14 \<or> kind = 15 then mp_attribute flags kind data st
     else
       bindr (valid_value n flags kind data whole) (\<lambda>valid.
       if \<not> flags_ok flags kind \<or> \<not> valid then
         Ok (st\<lparr>act := max (act st) (if kind \<in> {6, 7, 17, 18} then AttributeDiscard else TreatAsWithdraw)\<rparr>)
       else Ok st))"

definition discarded_kind :: "negotiated \<Rightarrow> u8 \<Rightarrow> bool" where
  "discarded_kind n kind = (asn4 n \<and> kind \<in> {17, 18} \<or> \<not> internal n \<and> kind \<in> {5, 9, 10})"

function attr_loop :: "negotiated \<Rightarrow> bytes \<Rightarrow> attr_state \<Rightarrow> (error, attr_state) outcome" where
  "attr_loop n attrs st =
    (if attrs = [] then Ok st
     else if length attrs < 3 then Ok (st\<lparr>act := TreatAsWithdraw\<rparr>)
     else
       bindr (index attrs 0) (\<lambda>flags.
       bindr (index attrs 1) (\<lambda>kind.
       let h = (if flags AND 0x10 \<noteq> 0 then 4 else 3); mp = (kind = 14 \<or> kind = 15) in
       if length attrs < h then
         bindr (require (\<not> mp) 3 9 ''short multiprotocol attribute header'') (\<lambda>_.
         Ok (st\<lparr>act := TreatAsWithdraw\<rparr>))
       else
       bindr (if h = 4 then bindr (slice_from attrs 2) (\<lambda>s. bindr (u16b s) (\<lambda>w. Ok (unat w)))
              else bindr (index attrs 2) (\<lambda>x. Ok (unat x))) (\<lambda>l.
       if h + l > length attrs then
         bindr (require (\<not> mp) 3 9 ''truncated multiprotocol attribute'') (\<lambda>_.
         Ok (st\<lparr>act := TreatAsWithdraw\<rparr>))
       else
       bindr (slice_range attrs h (h + l)) (\<lambda>data.
       if seen st kind then
         bindr (require (\<not> mp) 3 1 ''duplicate multiprotocol attribute'') (\<lambda>_.
         bindr (slice_from attrs (h + l)) (\<lambda>attrs.
         attr_loop n attrs (st\<lparr>act := max (act st) AttributeDiscard\<rparr>)))
       else let st = st\<lparr>seen := (seen st)(kind := True)\<rparr> in
       if discarded_kind n kind then
         bindr (slice_from attrs (h + l)) (\<lambda>attrs.
         attr_loop n attrs (st\<lparr>act := max (act st) AttributeDiscard\<rparr>))
       else
       bindr (slice_range attrs 0 (h + l)) (\<lambda>whole.
       bindr (attribute n flags kind data whole st) (\<lambda>st.
       bindr (slice_from attrs (h + l)) (\<lambda>attrs.
       attr_loop n attrs st))))))))"
  by pat_completeness auto
termination
  by (relation "measure (\<lambda>(n, attrs, st). length attrs)") (auto simp: slice_from_eq_Ok split: if_splits)

declare attr_loop.simps [simp del]

text \<open>The checks after the loop, on what it has seen.\<close>

definition finish_update :: "negotiated \<Rightarrow> bytes \<Rightarrow> attr_state \<Rightarrow> (error, update_action) outcome" where
  "finish_update n tail st =
    (let reachable = (tail \<noteq> [] \<or> mp_reach st);
         action = (if reachable \<and> (\<not> seen st 1 \<or> \<not> seen st 2 \<or> internal n \<and> \<not> seen st 5)
           then TreatAsWithdraw else act st);
         action = (if tail \<noteq> [] \<and> \<not> seen st 3 then TreatAsWithdraw else action)
     in bindr (require (action \<noteq> TreatAsWithdraw \<or> reachable) 3 1
          ''cannot recover UPDATE without reachable NLRI'') (\<lambda>_. Ok action))"

definition validate_update :: "bytes \<Rightarrow> negotiated \<Rightarrow> (error, update_action) outcome" where
  "validate_update b n =
     bindr (require (4 \<le> length b) 3 1 ''short UPDATE'') (\<lambda>_.
     bindr (u16b b) (\<lambda>w16. let w = unat w16 in
     bindr (require (w + 4 \<le> length b) 3 1 ''invalid withdrawn length'') (\<lambda>_.
     bindr (slice_range b 2 (2 + w)) (\<lambda>withdrawn.
     bindr (validate_nlri withdrawn 32) (\<lambda>_.
     bindr (slice_from b (2 + w)) (\<lambda>s.
     bindr (u16b s) (\<lambda>a16. let a = unat a16 in
     bindr (require (w + a + 4 \<le> length b) 3 1 ''invalid attributes length'') (\<lambda>_.
     bindr (slice_from b (4 + w + a)) (\<lambda>tail.
     bindr (validate_nlri tail 32) (\<lambda>_.
     bindr (slice_range b (4 + w) (4 + w + a)) (\<lambda>attrs.
     bindr (attr_loop n attrs attr_init) (\<lambda>st.
     finish_update n tail st))))))))))))"

text \<open>\<open>update_prefixes\<close>: the nested function \<open>append\<close> and the walk over the attributes.\<close>

function append_prefixes :: "ipnet_ops \<Rightarrow> bytes \<Rightarrow> bool \<Rightarrow> ip_net list \<Rightarrow> (error, ip_net list) outcome" where
  "append_prefixes N b v6 out =
    (if b = [] then Ok out
     else
       bindr (index b 0) (\<lambda>bits.
       let size = div_ceil (unat bits) 8 in
       if unat bits > (if v6 then 128 else 32) \<or> size + 1 > length b then Ok out
       else
       bindr (slice_range (replicate 16 (0 :: u8)) 0 size) (\<lambda>_.
       bindr (slice_range b 1 (1 + size)) (\<lambda>d.
       let bytes = d @ replicate (16 - size) 0;
           ip = (if v6 then V6 (ipv6_of_octets bytes) else V4 (ipv4_of_octets (take 4 bytes)))
       in
       bindr (expect (net_new N ip bits)) (\<lambda>net.
       bindr (slice_from b (1 + size)) (\<lambda>b.
       append_prefixes N b v6 (out @ [net_trunc N net])))))))"
  by pat_completeness auto
termination
  by (relation "measure (\<lambda>(N, b, v6, out). length b)") (auto simp: slice_from_eq_Ok)

declare append_prefixes.simps [simp del]

function prefix_walk :: "ipnet_ops \<Rightarrow> bytes \<Rightarrow> ip_net list \<Rightarrow> (error, ip_net list) outcome" where
  "prefix_walk N attrs out =
    (if length attrs < 3 then Ok out
     else
       bindr (index attrs 0) (\<lambda>flags.
       let h = (if flags AND 0x10 \<noteq> 0 then 4 else 3) in
       if length attrs < h then Ok out
       else
       bindr (if h = 4 then bindr (slice_from attrs 2) (\<lambda>s. bindr (u16b s) (\<lambda>w. Ok (unat w)))
              else bindr (index attrs 2) (\<lambda>x. Ok (unat x))) (\<lambda>l.
       if h + l > length attrs then Ok out
       else
       bindr (slice_range attrs h (h + l)) (\<lambda>data.
       bindr (index attrs 1) (\<lambda>kind.
       bindr (and_also (kind = 14 \<and> 5 \<le> l) (bindr (index data 2) (\<lambda>d. Ok (d = 1)))) (\<lambda>mp.
       bindr (if mp then
           bindr (index data 3) (\<lambda>d3.
           bindr (u16b data) (\<lambda>afi.
           if 5 + unat d3 \<le> l \<and> (afi = 1 \<or> afi = 2) then
             bindr (slice_from data (5 + unat d3)) (\<lambda>s. append_prefixes N s (afi = 2) out)
           else Ok out))
         else Ok out) (\<lambda>out.
       bindr (slice_from attrs (h + l)) (\<lambda>attrs.
       prefix_walk N attrs out))))))))"
  by pat_completeness auto
termination
  by (relation "measure (\<lambda>(N, attrs, out). length attrs)") (auto simp: slice_from_eq_Ok split: if_splits)

declare prefix_walk.simps [simp del]

definition update_prefixes :: "ipnet_ops \<Rightarrow> bytes \<Rightarrow> (error, ip_net list) outcome" where
  "update_prefixes N b =
    (if length b < 4 then Ok []
     else
       bindr (u16b b) (\<lambda>w16. let w = unat w16 in
       if w + 4 > length b then Ok []
       else
       bindr (bindr (slice_from b (2 + w)) u16b) (\<lambda>a16. let a = unat a16 in
       if w + a + 4 > length b then Ok []
       else
       bindr (slice_from b (4 + w + a)) (\<lambda>tail.
       bindr (append_prefixes N tail False []) (\<lambda>out.
       bindr (slice_range b (4 + w) (4 + w + a)) (\<lambda>attrs.
       prefix_walk N attrs out))))))"

definition refresh_family :: "bytes \<Rightarrow> negotiated \<Rightarrow> (error, bool option) outcome" where
  "refresh_family b n =
     bindr (ensure (length b = 4) InvalidRefreshLength) (\<lambda>_.
     bindr (index b 2) (\<lambda>subtype. bindr (index b 3) (\<lambda>safi.
     if subtype \<noteq> 0 \<or> safi \<noteq> 1 then Ok None
     else
     bindr (u16b b) (\<lambda>afi.
     if afi = 1 \<and> neg_ipv4 n then Ok (Some False)
     else if afi = 2 \<and> neg_ipv6 n then Ok (Some True)
     else Ok None))))"

datatype fsm_state = OpenSent | OpenConfirm | Established

fun fsm_code :: "fsm_state \<Rightarrow> u8" where
  "fsm_code OpenSent = 1"
| "fsm_code OpenConfirm = 2"
| "fsm_code Established = 3"

definition unexpected :: "fsm_state \<Rightarrow> u8 \<Rightarrow> bytes \<Rightarrow> error" where
  "unexpected state kind body =
    (if kind = 3 then
       (if 2 \<le> length body then PeerNotification (body ! 0) (body ! 1) else PeerTruncatedNotification)
     else Protocol \<lparr>pe_code = 5, pe_subcode = fsm_code state, pe_data = [kind],
       pe_reason = ''unexpected message in BGP state''\<rparr>)"

section \<open>Packed sequences of items\<close>

text \<open>
  NLRI fields and AS paths are sequences of items packed without separators, checked by a
  loop that takes one item off the front. The interface says what such a check promises
  about one item; the client fact is the grammar of everything it accepts.
\<close>

locale packed =
  fixes check :: "bytes \<Rightarrow> bool" and item :: "bytes \<Rightarrow> bool"
  assumes check_Nil: "check []"
    and check_item: "item x \<Longrightarrow> check (x @ rest) = check rest"
    and item_front: "check b \<Longrightarrow> b \<noteq> [] \<Longrightarrow> \<exists>x rest. item x \<and> b = x @ rest"
    and item_nonempty: "item x \<Longrightarrow> x \<noteq> []"
begin

lemma check_concat: "list_all item xs \<Longrightarrow> check (concat xs)"
  by (induction xs) (simp_all add: check_Nil check_item)

lemma check_iff: "check b \<longleftrightarrow> (\<exists>xs. list_all item xs \<and> b = concat xs)"
proof
  assume "check b"
  then show "\<exists>xs. list_all item xs \<and> b = concat xs"
  proof (induction "length b" arbitrary: b rule: less_induct)
    case less
    show ?case
    proof (cases "b = []")
      case True
      then show ?thesis by (intro exI [of _ "[]"]) simp
    next
      case False
      with less.prems obtain x rest where x: "item x" "b = x @ rest"
        using item_front by blast
      then have "check rest" "length rest < length b"
        using less.prems check_item item_nonempty by auto
      then obtain xs where "list_all item xs" "rest = concat xs"
        using less.hyps by blast
      with x show ?thesis by (intro exI [of _ "x # xs"]) simp
    qed
  qed
qed (auto intro: check_concat)

end

definition nlri_item :: "nat \<Rightarrow> bytes \<Rightarrow> bool" where
  "nlri_item bits x = (\<exists>l d. x = l # d \<and> unat l \<le> bits \<and> length d = div_ceil (unat l) 8)"

definition path_segment :: "nat \<Rightarrow> bytes \<Rightarrow> bool" where
  "path_segment width x = (\<exists>t c d. x = t # c # d \<and> 1 \<le> t \<and> t \<le> 4 \<and> c > 0 \<and> length d = width * unat c)"

lemma validate_nlri_Nil [simp]: "validate_nlri [] bits = Ok ()"
  by (subst validate_nlri.simps) simp

lemma validate_nlri_step:
  "b \<noteq> [] \<Longrightarrow> validate_nlri b bits =
    (if unat (b ! 0) \<le> bits \<and> div_ceil (unat (b ! 0)) 8 < length b
     then validate_nlri (drop (div_ceil (unat (b ! 0)) 8 + 1) b) bits
     else Err (err 3 10 ''invalid NLRI''))"
  by (subst validate_nlri.simps) (auto simp: index_def slice_from_def require_def Let_def)

lemma validate_path_Nil [simp]: "validate_path [] width = Ok ()"
  by (subst validate_path.simps) simp

lemma validate_path_step:
  "b \<noteq> [] \<Longrightarrow> validate_path b width =
    (if 2 \<le> length b \<and> 1 \<le> b ! 0 \<and> b ! 0 \<le> 4 \<and> b ! 1 > 0 then
       (if 2 + width * unat (b ! 1) \<le> length b then validate_path (drop (2 + width * unat (b ! 1)) b) width
        else Err (err 3 11 ''truncated AS_PATH''))
     else Err (err 3 11 ''invalid AS_PATH segment''))"
  by (subst validate_path.simps) (auto simp: index_def slice_from_def require_def and_also_def Let_def)

interpretation nlri: packed "\<lambda>b. validate_nlri b bits = Ok ()" "nlri_item bits" for bits
proof
  fix x rest
  assume "nlri_item bits x"
  then show "(validate_nlri (x @ rest) bits = Ok ()) = (validate_nlri rest bits = Ok ())"
    by (auto simp: nlri_item_def validate_nlri_step)
next
  fix b
  assume "validate_nlri b bits = Ok ()" and "b \<noteq> []"
  then have "unat (b ! 0) \<le> bits" "div_ceil (unat (b ! 0)) 8 < length b"
    by (auto simp: validate_nlri_step split: if_splits)
  then have "nlri_item bits (take (div_ceil (unat (b ! 0)) 8 + 1) b)"
    using \<open>b \<noteq> []\<close> by (cases b) (auto simp: nlri_item_def)
  then show "\<exists>x rest. nlri_item bits x \<and> b = x @ rest"
    by (metis append_take_drop_id)
qed (auto simp: nlri_item_def)

interpretation path: packed "\<lambda>b. validate_path b width = Ok ()" "path_segment width" for width
proof
  fix x rest
  assume "path_segment width x"
  then show "(validate_path (x @ rest) width = Ok ()) = (validate_path rest width = Ok ())"
    by (auto simp: path_segment_def validate_path_step)
next
  fix b
  assume "validate_path b width = Ok ()" and "b \<noteq> []"
  then have "2 \<le> length b" "1 \<le> b ! 0" "b ! 0 \<le> 4" "b ! 1 > 0" "2 + width * unat (b ! 1) \<le> length b"
    by (auto simp: validate_path_step split: if_splits)
  moreover obtain t c d where "b = t # c # d"
    using \<open>2 \<le> length b\<close> by (cases b; cases "tl b") auto
  ultimately have "path_segment width (take (2 + width * unat (b ! 1)) b)"
    by (auto simp: path_segment_def)
  then show "\<exists>x rest. path_segment width x \<and> b = x @ rest"
    by (metis append_take_drop_id)
qed (auto simp: path_segment_def)

section \<open>No panics, and the class of every error\<close>

definition update_error :: "error \<Rightarrow> bool" where
  "update_error e = (\<exists>pe. e = Protocol pe \<and> pe_code pe = 3)"

lemma update_error_err [simp]: "update_error (err 3 s r)"
  by (simp add: update_error_def err_def)

lemma validate_nlri_cases: "validate_nlri b bits = Ok () \<or> validate_nlri b bits = Err (err 3 10 ''invalid NLRI'')"
proof (induction "length b" arbitrary: b rule: less_induct)
  case less
  show ?case
  proof (cases "b = []")
    case False
    then show ?thesis using less [of "drop (div_ceil (unat (b ! 0)) 8 + 1) b"] by (simp add: validate_nlri_step)
  qed simp
qed

lemma validate_nlri_no_panic [simp, no_panic]: "validate_nlri b bits \<noteq> Panic"
  using validate_nlri_cases [of b bits] by auto

lemma validate_nlri_error: "validate_nlri b bits = Err e \<Longrightarrow> update_error e"
  using validate_nlri_cases [of b bits] by auto

lemma validate_path_no_panic [simp, no_panic]: "validate_path b width \<noteq> Panic"
proof (induction "length b" arbitrary: b rule: less_induct)
  case less
  show ?case
  proof (cases "b = []")
    case False
    then show ?thesis using less [of "drop (2 + width * unat (b ! 1)) b"] by (simp add: validate_path_step)
  qed simp
qed

lemma is_ok_eq_Ok: "is_ok m = Ok b \<longleftrightarrow> m \<noteq> Panic \<and> b = (\<exists>x. m = Ok x)"
  by (cases m) (auto simp: is_ok_def)

lemma is_ok_eq_Panic [simp]: "is_ok m = Panic \<longleftrightarrow> m = Panic"
  by (cases m) (auto simp: is_ok_def)

lemma is_ok_not_Err [simp]: "is_ok m \<noteq> Err e"
  by (cases m) (auto simp: is_ok_def)

declare and_also_eq_Ok [outcome_simps] and_also_eq_Panic [outcome_simps] and_also_eq_Err [outcome_simps]

lemma mp_attribute_no_panic [no_panic]: "mp_attribute flags kind data st \<noteq> Panic"
  unfolding mp_attribute_def
  by (auto simp: outcome_simps Let_def split: if_splits)

lemma mp_attribute_error: "mp_attribute flags kind data st = Err e \<Longrightarrow> update_error e"
  unfolding mp_attribute_def
  by (auto simp: outcome_simps Let_def split: if_splits dest: validate_nlri_error)

lemma valid_value_no_panic [no_panic]: "valid_value n flags kind data whole \<noteq> Panic"
  unfolding valid_value_def
  by (auto simp: outcome_simps split: if_splits)

lemma valid_value_error: "valid_value n flags kind data whole = Err e \<Longrightarrow> update_error e"
  unfolding valid_value_def
  by (auto simp: outcome_simps update_error_def split: if_splits)

lemma attribute_no_panic [no_panic]: "attribute n flags kind data whole st \<noteq> Panic"
  unfolding attribute_def
  by (auto simp: outcome_simps mp_attribute_no_panic valid_value_no_panic split: if_splits)

lemma attribute_error: "attribute n flags kind data whole st = Err e \<Longrightarrow> update_error e"
  unfolding attribute_def
  by (auto simp: outcome_simps split: if_splits dest: mp_attribute_error valid_value_error)

section \<open>The attribute loop, one attribute at a time\<close>

definition attr_h :: "bytes \<Rightarrow> nat" where
  "attr_h attrs = (if (attrs ! 0) AND 0x10 \<noteq> 0 then 4 else 3)"

definition attr_l :: "bytes \<Rightarrow> nat" where
  "attr_l attrs = (if (attrs ! 0) AND 0x10 \<noteq> 0
     then unat (of_nat (be_value (take 2 (drop 2 attrs))) :: u16) else unat (attrs ! 2))"

definition attr_data :: "bytes \<Rightarrow> bytes" where
  "attr_data attrs = take (attr_l attrs) (drop (attr_h attrs) attrs)"

definition attr_rest :: "bytes \<Rightarrow> bytes" where
  "attr_rest attrs = drop (attr_h attrs + attr_l attrs) attrs"

text \<open>A header that is complete and whose length stays within the enclosing field.\<close>

definition attr_fits :: "bytes \<Rightarrow> bool" where
  "attr_fits attrs = (3 \<le> length attrs \<and> attr_h attrs \<le> length attrs \<and>
     attr_h attrs + attr_l attrs \<le> length attrs)"

lemma length_attr_rest: "attrs \<noteq> [] \<Longrightarrow> length (attr_rest attrs) < length attrs"
  by (auto simp: attr_rest_def attr_h_def)

lemma length_attr_data: "attr_fits attrs \<Longrightarrow> length (attr_data attrs) = attr_l attrs"
  by (auto simp: attr_data_def attr_fits_def)

lemma read_attr_l:
  assumes "3 \<le> length attrs" and "attr_h attrs \<le> length attrs"
  shows "(if attr_h attrs = 4 then bindr (slice_from attrs 2) (\<lambda>s. bindr (u16b s) (\<lambda>w. Ok (unat w)))
     else bindr (index attrs 2) (\<lambda>x. Ok (unat x))) = Ok (attr_l attrs)"
  using assms by (auto simp: attr_h_def attr_l_def slice_from_def index_def bindr_eq_Ok u16b_eq_Ok)

lemma attr_loop_Nil [simp]: "attr_loop n [] st = Ok st"
  by (subst attr_loop.simps) simp

lemma attr_loop_step:
  assumes "attrs \<noteq> []" and "attr_fits attrs"
  defines "kind \<equiv> attrs ! 1"
  shows "attr_loop n attrs st =
    (if seen st kind then
       (if kind = 14 \<or> kind = 15 then Err (err 3 1 ''duplicate multiprotocol attribute'')
        else attr_loop n (attr_rest attrs) (st\<lparr>act := max (act st) AttributeDiscard\<rparr>))
     else if discarded_kind n kind then
       attr_loop n (attr_rest attrs) (st\<lparr>seen := (seen st)(kind := True), act := max (act st) AttributeDiscard\<rparr>)
     else bindr (attribute n (attrs ! 0) kind (attr_data attrs) (take (attr_h attrs + attr_l attrs) attrs)
         (st\<lparr>seen := (seen st)(kind := True)\<rparr>))
       (attr_loop n (attr_rest attrs)))"
proof -
  have fits: "3 \<le> length attrs" "attr_h attrs \<le> length attrs" "attr_h attrs + attr_l attrs \<le> length attrs"
    using assms(2) by (simp_all add: attr_fits_def)
  note l = read_attr_l [OF fits(1,2)]
  have sl: "slice_range attrs (attr_h attrs) (attr_h attrs + attr_l attrs) = Ok (attr_data attrs)"
    "slice_range attrs 0 (attr_h attrs + attr_l attrs) = Ok (take (attr_h attrs + attr_l attrs) attrs)"
    "slice_from attrs (attr_h attrs + attr_l attrs) = Ok (attr_rest attrs)"
    using fits by (simp_all add: slice_range_def slice_from_def attr_data_def attr_rest_def)
  have ix: "index attrs 0 = Ok (attrs ! 0)" "index attrs 1 = Ok kind"
    using fits assms(1) by (simp_all add: index_def kind_def)
  have nl: "\<not> length attrs < 3" "\<not> length attrs < attr_h attrs" "\<not> length attrs < attr_h attrs + attr_l attrs"
    using fits by simp_all
  show ?thesis
    by (subst attr_loop.simps)
      (simp add: assms(1) nl ix ix [unfolded One_nat_def] Let_def attr_h_def [symmetric] l sl require_def
        del: One_nat_def)
qed

lemma attr_loop_broken:
  assumes "attrs \<noteq> []" and "\<not> attr_fits attrs"
  shows "attr_loop n attrs st = Ok (st\<lparr>act := TreatAsWithdraw\<rparr>) \<or>
    (\<exists>r. attr_loop n attrs st = Err (err 3 9 r))"
proof (cases "3 \<le> length attrs \<and> attr_h attrs \<le> length attrs")
  case False
  then show ?thesis
    using assms(1) by (subst attr_loop.simps, subst (2) attr_loop.simps)
      (auto simp: index_def Let_def attr_h_def [symmetric] require_def not_le)
next
  case True
  then have over: "length attrs < attr_h attrs + attr_l attrs"
    using assms(2) by (simp add: attr_fits_def)
  note l = read_attr_l [of attrs]
  show ?thesis
    using assms(1) True over
    by (subst attr_loop.simps, subst (2) attr_loop.simps)
      (auto simp: index_def Let_def attr_h_def [symmetric] require_def l)
qed

lemma attr_loop_no_panic [no_panic]: "attr_loop n attrs st \<noteq> Panic"
proof (induction "length attrs" arbitrary: attrs st rule: less_induct)
  case less
  show ?case
  proof (cases "attrs = []")
    case ne: False
    show ?thesis
    proof (cases "attr_fits attrs")
      case True
      then show ?thesis
        using less [OF length_attr_rest [OF ne]]
        by (auto simp: attr_loop_step [OF ne] bindr_eq_Panic attribute_no_panic)
    next
      case False
      then show ?thesis using attr_loop_broken [OF ne, of n st] by auto
    qed
  qed simp
qed

lemma attr_loop_error: "attr_loop n attrs st = Err e \<Longrightarrow> update_error e"
proof (induction "length attrs" arbitrary: attrs st rule: less_induct)
  case less
  then have ne: "attrs \<noteq> []" by auto
  show ?case
  proof (cases "attr_fits attrs")
    case True
    then show ?thesis
      using less.prems less.hyps [OF length_attr_rest [OF ne]]
      by (auto simp: attr_loop_step [OF ne] bindr_eq_Err split: if_splits dest: attribute_error)
  next
    case False
    then show ?thesis using attr_loop_broken [OF ne, of n st] less.prems by auto
  qed
qed

lemma finish_update_no_panic [no_panic]: "finish_update n tail st \<noteq> Panic"
  by (auto simp: finish_update_def Let_def outcome_simps)

lemma validate_update_no_panic [no_panic]: "validate_update b n \<noteq> Panic"
  unfolding validate_update_def
  by (auto simp: outcome_simps Let_def attr_loop_no_panic finish_update_no_panic split: if_splits)

lemma validate_update_error: "validate_update b n = Err e \<Longrightarrow> update_error e"
  unfolding validate_update_def
  by (auto simp: outcome_simps Let_def finish_update_def split: if_splits
      dest: validate_nlri_error attr_loop_error)

section \<open>The program's own UPDATEs\<close>

lemma attr_front:
  fixes k :: u8 and rest :: bytes
  assumes "length d < 65536" and "f \<in> {0x40, 0x80, 0xC0}"
  defines "as \<equiv> attr_bytes f k d @ rest"
  shows "as \<noteq> []" and "attr_fits as" and "as ! 1 = k" and "attr_data as = d" and "attr_rest as = rest"
    and "as ! 0 AND 0xC0 = f" and "as ! 0 AND 0x20 = 0"
proof -
  show "as \<noteq> []" "as ! 1 = k" by (simp_all add: as_def attr_def)
  show "as ! 0 AND 0xC0 = f" "as ! 0 AND 0x20 = 0"
    using assms(2) by (auto simp: as_def attr_def)
  have "attr_h as = (if length d > 255 then 4 else 3) \<and> attr_l as = length d"
  proof (cases "length d > 255")
    case True
    then have "as ! 0 AND 0x10 \<noteq> 0" "take 2 (drop 2 as) = u16_be (of_nat (length d))"
      using assms(2) by (auto simp: as_def attr_def)
    with True assms(1) show ?thesis
      by (simp add: attr_h_def attr_l_def unat_of_nat_u16)
  next
    case False
    then have "as ! 0 AND 0x10 = 0" "as ! 2 = of_nat (length d)"
      using assms(2) by (auto simp: as_def attr_def)
    with False show ?thesis
      by (simp add: attr_h_def attr_l_def unat_of_nat_u8)
  qed
  moreover from this have "attr_h as + attr_l as = length (attr_bytes f k d)"
    by (simp add: length_attr_bytes)
  ultimately show "attr_fits as" "attr_data as = d" "attr_rest as = rest"
    by (auto simp: attr_fits_def attr_data_def attr_rest_def as_def) (auto simp: attr_def)
qed

definition own_attr :: "negotiated \<Rightarrow> u8 \<times> u8 \<times> bytes \<Rightarrow> bool" where
  "own_attr n a = (case a of (f, k, d) \<Rightarrow> length d < 65536 \<and> f \<in> {0x40, 0x80, 0xC0} \<and>
     k \<noteq> 14 \<and> k \<noteq> 15 \<and> \<not> discarded_kind n k \<and> expected_flags k = Some f \<and>
     (\<forall>flags whole. valid_value n flags k d whole = Ok True))"

abbreviation kind_of :: "u8 \<times> u8 \<times> bytes \<Rightarrow> u8" where
  "kind_of a \<equiv> fst (snd a)"

lemma attr_loop_own:
  assumes "own_attr n (f, k, d)" and "\<not> seen st k"
  shows "attr_loop n (attr_bytes f k d @ rest) st = attr_loop n rest (st\<lparr>seen := (seen st)(k := True)\<rparr>)"
proof -
  have "length d < 65536" "f \<in> {0x40, 0x80, 0xC0}"
    using assms(1) by (auto simp: own_attr_def)
  note front = attr_front [OF this, of k rest]
  have "flags_ok ((attr_bytes f k d @ rest) ! 0) k"
    using assms(1) front(6,7) by (simp add: own_attr_def flags_ok_def)
  then show ?thesis
    using assms by (subst attr_loop_step [OF front(1,2)])
      (simp add: front(3-5) front(3) [unfolded One_nat_def] attribute_def own_attr_def)
qed

lemma attr_loop_own_list:
  assumes "list_all (own_attr n) as" and "distinct (map kind_of as)"
    and "\<And>k. k \<in> kind_of ` set as \<Longrightarrow> \<not> seen st k"
  shows "attr_loop n (attrs_bytes as) st = Ok (st\<lparr>seen := (\<lambda>k. seen st k \<or> k \<in> kind_of ` set as)\<rparr>)"
  using assms
proof (induction as arbitrary: st)
  case Nil
  then show ?case by simp
next
  case (Cons a as)
  obtain f k d where a: "a = (f, k, d)" by (cases a)
  let ?st = "st\<lparr>seen := (seen st)(k := True)\<rparr>"
  have "attr_loop n (attrs_bytes (a # as)) st = attr_loop n (attrs_bytes as) ?st"
    unfolding a attrs_bytes_simps using Cons.prems a by (intro attr_loop_own) auto
  also have "\<dots> = Ok (?st\<lparr>seen := (\<lambda>j. seen ?st j \<or> j \<in> kind_of ` set as)\<rparr>)"
    using Cons.prems a by (intro Cons.IH) auto
  also have "?st\<lparr>seen := (\<lambda>j. seen ?st j \<or> j \<in> kind_of ` set as)\<rparr> =
      st\<lparr>seen := (\<lambda>j. seen st j \<or> j \<in> kind_of ` set (a # as))\<rparr>"
    by (auto simp: a fun_eq_iff)
  finally show ?case .
qed

lemma path_segment_asn: "length d = width \<Longrightarrow> validate_path ([2, 1] @ d) width = Ok ()"
  using path.check_concat [of width "[[2, 1] @ d]"] by (simp add: path_segment_def)

lemma as_path_valid: "validate_path (as_path cfg p n) (if asn4 n then 4 else 2) = Ok ()"
  by (auto simp: as_path_def path_segment_asn [simplified])

text \<open>The settings of a peer under which an announcement of a family is well formed.\<close>

definition next_hop_ok :: "peer \<Rightarrow> bool \<Rightarrow> bool" where
  "next_hop_ok p v6 = (if v6 then nh6 p \<noteq> None else (\<exists>a. nh4 p = Some a \<and> valid_v4 a))"

lemma path_list_own:
  assumes "internal n = (asn cfg = remote_asn p)" and "next_hop_ok p v6"
  shows "list_all (own_attr n) (path_list cfg p n v6)"
    and "distinct (map kind_of (path_list cfg p n v6))"
    and "kind_of ` set (path_list cfg p n v6) \<subseteq> {1, 2, 3, 5, 17}"
    and "{1, 2} \<subseteq> kind_of ` set (path_list cfg p n v6)"
    and "internal n \<Longrightarrow> 5 \<in> kind_of ` set (path_list cfg p n v6)"
    and "\<not> v6 \<Longrightarrow> 3 \<in> kind_of ` set (path_list cfg p n v6)"
proof -
  have "own_attr n (0x40, 1, [2])"
    by (simp add: own_attr_def discarded_kind_def expected_flags_def valid_value_def)
  moreover have "own_attr n (0x40, 2, as_path cfg p n)"
    using as_path_valid [of cfg p n]
    by (simp add: own_attr_def discarded_kind_def expected_flags_def valid_value_def is_ok_eq_Ok as_path_def)
  moreover have "own_attr n (0xC0, 17, [2, 1] @ u32_be (asn cfg))" if "\<not> asn4 n"
    using that path_segment_asn [of "u32_be (asn cfg)" 4]
    by (simp add: own_attr_def discarded_kind_def expected_flags_def valid_value_def is_ok_eq_Ok)
  moreover have "own_attr n (0x40, 5, u32_be 100)" if "asn cfg = remote_asn p"
    using that assms(1) by (simp add: own_attr_def discarded_kind_def expected_flags_def valid_value_def)
  moreover have "own_attr n (0x40, 3, octets_v4 a)" if "valid_v4 a" for a
  proof -
    obtain w x y z where o: "octets_v4 a = [w, x, y, z]"
      using length_octets_v4 [of a] unfolding length_4_conv by auto
    have "ipv4_of_octets [w, x, y, z] = a"
      by (simp only: o [symmetric] ipv4_of_octets_octets)
    with that show ?thesis
      by (simp add: o own_attr_def discarded_kind_def expected_flags_def valid_value_def index_def)
  qed
  ultimately show "list_all (own_attr n) (path_list cfg p n v6)"
    using assms(2) by (auto simp: path_list_def next_hop_ok_def)
qed (use assms in \<open>auto simp: path_list_def\<close>)

lemma nlri_bytes_item: "net_wf q \<Longrightarrow> addr_bits (net_addr q) = bits \<Longrightarrow> nlri_item bits (nlri_bytes q)"
  using length_nlri_bytes [of q] by (auto simp: nlri_item_def nlri_bytes_def net_wf_def)

lemma validate_encoded:
  assumes "list_all net_wf ps" and "list_all (\<lambda>q. is_ipv6 (net_addr q) = v6) ps"
  shows "validate_nlri (concat (map nlri_bytes ps)) (if v6 then 128 else 32) = Ok ()"
proof (rule nlri.check_concat)
  have "addr_bits (net_addr q) = (if is_ipv6 (net_addr q) then 128 else 32)" for q
    by (cases "net_addr q") simp_all
  then show "list_all (nlri_item (if v6 then 128 else 32)) (map nlri_bytes ps)"
    using assms by (simp add: list_all_iff nlri_bytes_item)
qed

lemma encoded_nonempty: "ps \<noteq> [] \<Longrightarrow> concat (map nlri_bytes ps) \<noteq> []"
  by (cases ps) (simp_all add: nlri_bytes_def)

text \<open>The multiprotocol value this program sends: header, next hops, prefixes.\<close>

definition mp_next_hops :: "peer \<Rightarrow> bytes" where
  "mp_next_hops p = octets_v6 (the (nh6 p)) @
     (case next_hop_v6_link_local p of Some l \<Rightarrow> octets_v6 l | None \<Rightarrow> [])"

definition mp_nh_len :: "peer \<Rightarrow> u8" where
  "mp_nh_len p = (if next_hop_v6_link_local p \<noteq> None then 32 else 16)"

lemma mp_value_announce:
  "mp_value p False encoded = [0, 2, 1, mp_nh_len p] @ mp_next_hops p @ [0] @ encoded"
  by (simp add: mp_value_def mp_next_hops_def mp_nh_len_def)

lemma mp_value_withdraw: "mp_value p True encoded = [0, 2, 1] @ encoded"
  by (simp add: mp_value_def)

lemma length_mp_next_hops: "length (mp_next_hops p) = unat (mp_nh_len p)"
  by (simp add: mp_next_hops_def mp_nh_len_def split: option.split)

lemma mp_attribute_own:
  assumes "flags_ok flags (if withdraw then 15 else 14)" and "validate_nlri encoded 128 = Ok ()"
  shows "mp_attribute flags (if withdraw then 15 else 14) (mp_value p withdraw encoded) st =
    Ok (st\<lparr>mp_reach := mp_reach st \<or> \<not> withdraw \<and> encoded \<noteq> []\<rparr>)"
proof (cases withdraw)
  case True
  then show ?thesis
    using assms by (simp add: mp_attribute_def mp_value_withdraw u16b_def index_def be_value_def
        slice_from_def ipv4_unicast_or_v6_def)
next
  case False
  let ?d = "mp_value p False encoded"
  have len: "length ?d = 5 + unat (mp_nh_len p) + length encoded"
    by (simp add: mp_value_announce length_mp_next_hops)
  have ix: "?d ! 2 = 1" "?d ! 3 = mp_nh_len p" "u16b ?d = (Ok 2 :: (error, u16) outcome)"
    by (simp_all add: mp_value_announce u16b_def index_def be_value_def)
  have sl: "slice_from ?d (5 + unat (mp_nh_len p)) = (Ok encoded :: (error, bytes) outcome)"
    using slice_from_append [of "[0, 2, 1, mp_nh_len p] @ mp_next_hops p @ [0]" "5 + unat (mp_nh_len p)" encoded]
    by (simp add: mp_value_announce length_mp_next_hops)
  have nh: "mp_nh_len p = 16 \<or> mp_nh_len p = 32"
    by (simp add: mp_nh_len_def)
  show ?thesis
    using assms False nh
    by (auto simp: mp_attribute_def ix len sl index_def ipv4_unicast_or_v6_def)
qed

lemma attr_loop_mp:
  assumes "length encoded \<le> 3400" and "validate_nlri encoded 128 = Ok ()" and "\<not> seen st (if withdraw then 15 else 14)"
  shows "attr_loop n (attr_bytes 0x80 (if withdraw then 15 else 14) (mp_value p withdraw encoded) @ rest) st =
    attr_loop n rest (st\<lparr>seen := (seen st)((if withdraw then 15 else 14) := True),
      mp_reach := mp_reach st \<or> \<not> withdraw \<and> encoded \<noteq> []\<rparr>)"
proof -
  let ?k = "if withdraw then 15 else 14 :: u8" and ?d = "mp_value p withdraw encoded"
  have "length ?d < 65536"
    using assms(1) length_mp_value [of p withdraw encoded] by simp
  note front = attr_front [OF this, of "0x80" ?k rest, simplified]
  have "flags_ok ((attr_bytes 0x80 ?k ?d @ rest) ! 0) ?k"
    using front(6,7) by (simp add: flags_ok_def expected_flags_def)
  note own = mp_attribute_own [OF this assms(2), of p]
  show ?thesis
    using assms(3) front(1-5)
    by (subst attr_loop_step) (simp_all add: attribute_def own discarded_kind_def)
qed

lemma validate_update_parts:
  assumes "length w < 65536" and "length a < 65536"
  shows "validate_update (u16_be (of_nat (length w)) @ w @ u16_be (of_nat (length a)) @ a @ t) n =
    bindr (validate_nlri w 32) (\<lambda>_. bindr (validate_nlri t 32) (\<lambda>_.
      bindr (attr_loop n a attr_init) (finish_update n t)))"
proof -
  have lens: "unat (of_nat (length w) :: u16) = length w" "unat (of_nat (length a) :: u16) = length a"
    using assms by (simp_all add: unat_of_nat_u16)
  show ?thesis
    by (simp add: validate_update_def lens slice_range_def slice_from_def Let_def)
qed

end
