(* ===== verification/Wire_Roundtrip.thy ===== *)
theory Wire_Roundtrip
  imports Wire_Validate
begin

text \<open>
  How the encoder, the validator and the decoder of \<open>src/wire.rs\<close> fit together: what the
  program sends is valid by its own rules, the receiver recovers exactly the prefixes of the
  batch, and no byte string makes a parser panic.
\<close>

section \<open>Decoding prefixes\<close>

lemma masked_octets_value:
  assumes "m = mask_top (8 * w) l v" and "v < 256 ^ w" and "div_ceil l 8 \<le> w"
  shows "be_value (take (div_ceil l 8) (be_bytes w m) @ replicate (w - div_ceil l 8) 0) = m"
proof -
  let ?n = "div_ceil l 8"
  have dvd: "256 ^ (w - ?n) dvd m"
  proof -
    have "(256 :: nat) ^ (w - ?n) = 2 ^ (8 * (w - ?n))"
      by (simp add: power_mult)
    moreover have "8 * (w - ?n) \<le> 8 * w - l"
      using le_div_ceil_8 [of l] by (simp add: diff_mult_distrib2)
    ultimately show ?thesis
      unfolding assms(1) mask_top_def by (simp add: le_imp_power_dvd dvd_mult)
  qed
  have "m < 256 ^ ?n * 256 ^ (w - ?n)"
    using assms mask_top_le [of "8 * w" l v] by (simp add: power_add [symmetric])
  then have small: "m div 256 ^ (w - ?n) < 256 ^ ?n"
    by (simp add: less_mult_imp_div_less)
  have "be_value (take ?n (be_bytes w m) @ replicate (w - ?n) 0) =
      m div 256 ^ (w - ?n) mod 256 ^ ?n * 256 ^ (w - ?n)"
    using assms(3) by (simp add: be_value_append take_be_bytes be_value_be_bytes)
  also have "\<dots> = m"
    using small dvd by simp
  finally show ?thesis .
qed

definition decoded_ip :: "bool \<Rightarrow> bytes \<Rightarrow> ip_addr" where
  "decoded_ip v6 d = (let bytes = d @ replicate (16 - length d) 0 in
     if v6 then V6 (ipv6_of_octets bytes) else V4 (ipv4_of_octets (take 4 bytes)))"

lemma is_ipv6_decoded_ip [simp]: "is_ipv6 (decoded_ip v6 d) = v6"
  by (simp add: decoded_ip_def Let_def)

lemma addr_bits_decoded_ip [simp]: "addr_bits (decoded_ip v6 d) = (if v6 then 128 else 32)"
  by (simp add: decoded_ip_def Let_def)

lemma decoded_nlri:
  assumes "net_wf q"
  shows "mk_net (decoded_ip (is_ipv6 (net_addr q)) (tl (nlri_bytes q))) (net_prefix_len q) = net_mask q"
proof (cases q)
  case (NetV4 a l)
  let ?n = "div_ceil (unat l) 8" and ?m = "mask_top 32 (unat l) (unat a)"
  have n: "?n \<le> 4" using assms NetV4 by (intro div_ceil_8_le) simp
  have tl: "tl (nlri_bytes q) = take ?n (be_bytes 4 ?m)"
    by (simp add: NetV4 nlri_bytes_def octets_v4_def unat_mask_v4 net_mask_def)
  have "take 4 (take ?n (be_bytes 4 ?m) @ replicate (16 - ?n) 0) = take ?n (be_bytes 4 ?m) @ replicate (4 - ?n) (0 :: u8)"
    using n by simp
  moreover have "be_value (take ?n (be_bytes 4 ?m) @ replicate (4 - ?n) 0) = ?m"
    using unat_u32_less [of a] n by (intro masked_octets_value [of _ 4]) simp_all
  ultimately show ?thesis
    using n by (simp add: NetV4 tl [simplified NetV4] decoded_ip_def net_mask_def ipv4_of_octets_def Let_def)
next
  case (NetV6 a l)
  let ?n = "div_ceil (unat l) 8" and ?m = "mask_top 128 (unat l) (unat a)"
  have n: "?n \<le> 16" using assms NetV6 by (intro div_ceil_8_le) simp
  have tl: "tl (nlri_bytes q) = take ?n (be_bytes 16 ?m)"
    by (simp add: NetV6 nlri_bytes_def octets_v6_def unat_mask_v6 net_mask_def)
  have "be_value (take ?n (be_bytes 16 ?m) @ replicate (16 - ?n) 0) = ?m"
    using unat_u128_less [of a] n by (intro masked_octets_value [of _ 16]) simp_all
  then show ?thesis
    using n by (simp add: NetV6 tl [simplified NetV6] decoded_ip_def net_mask_def ipv6_of_octets_def Let_def)
qed

lemma append_prefixes_Nil [simp]: "append_prefixes N [] v6 out = Ok out"
  by (subst append_prefixes.simps) simp

context ipnet
begin

lemma append_prefixes_step:
  assumes "b \<noteq> []"
  shows "append_prefixes N b v6 out =
    (if unat (b ! 0) > (if v6 then 128 else 32) \<or> div_ceil (unat (b ! 0)) 8 + 1 > length b then Ok out
     else append_prefixes N (drop (1 + div_ceil (unat (b ! 0)) 8) b) v6
       (out @ [net_mask (mk_net (decoded_ip v6 (take (div_ceil (unat (b ! 0)) 8) (drop 1 b))) (b ! 0))]))"
proof (cases "unat (b ! 0) > (if v6 then 128 else 32) \<or> div_ceil (unat (b ! 0)) 8 + 1 > length b")
  case True
  then show ?thesis
    using assms by (subst append_prefixes.simps) (auto simp: index_def Let_def)
next
  case False
  let ?size = "div_ceil (unat (b ! 0)) 8" and ?bits = "b ! 0"
  let ?d = "take ?size (drop 1 b)"
  let ?ip = "decoded_ip v6 ?d"
  from False have bits: "unat ?bits \<le> (if v6 then 128 else 32)" and size: "?size + 1 \<le> length b"
    by auto
  have "?size \<le> 16" using bits by (intro div_ceil_8_le) (auto split: if_splits)
  then have zero: "slice_range (replicate 16 (0 :: u8)) 0 ?size = Ok (replicate ?size 0)"
    by (simp add: slice_range_def)
  have len: "length ?d = ?size" using size by simp
  have sl: "slice_range b 1 (1 + ?size) = Ok ?d" "slice_from b (1 + ?size) = Ok (drop (1 + ?size) b)"
    using size by (simp_all add: slice_range_def slice_from_def)
  have ip: "(if v6 then V6 (ipv6_of_octets (?d @ replicate (16 - ?size) 0))
      else V4 (ipv4_of_octets (take 4 (?d @ replicate (16 - ?size) 0)))) = ?ip"
    unfolding decoded_ip_def len by (simp add: Let_def)
  have new: "net_new N ?ip ?bits = Some (mk_net ?ip ?bits)"
    using bits by (simp add: new_spec)
  have tr: "net_trunc N (mk_net ?ip ?bits) = net_mask (mk_net ?ip ?bits)"
    using bits by (intro trunc_spec) (simp add: net_wf_def)
  have ix: "index b 0 = Ok ?bits" using assms by (simp add: index_def)
  show ?thesis
    using False
    by (subst append_prefixes.simps)
      (simp only: assms ix bindr.simps Let_def zero sl ip new tr expect_Some if_False)
qed

lemma append_prefixes_nlri:
  assumes "net_wf q" and "is_ipv6 (net_addr q) = v6"
  shows "append_prefixes N (nlri_bytes q @ rest) v6 out = append_prefixes N rest v6 (out @ [net_mask q])"
proof -
  let ?b = "nlri_bytes q @ rest"
  have b: "?b ! 0 = net_prefix_len q" "?b \<noteq> []" "nlri_bytes q = net_prefix_len q # tl (nlri_bytes q)"
    by (simp_all add: nlri_bytes_def)
  have len: "length (nlri_bytes q) = Suc (div_ceil (unat (net_prefix_len q)) 8)"
    using assms(1) by (rule length_nlri_bytes)
  have "addr_bits (net_addr q) = (if v6 then 128 else 32)"
    using assms(2) by (cases "net_addr q") auto
  then have "unat (net_prefix_len q) \<le> (if v6 then 128 else 32)"
    using assms(1) by (simp add: net_wf_def)
  moreover have "take (div_ceil (unat (net_prefix_len q)) 8) (drop 1 ?b) = tl (nlri_bytes q)"
    using len by (subst b(3)) simp
  moreover have "drop (1 + div_ceil (unat (net_prefix_len q)) 8) ?b = rest"
    using len by simp
  ultimately show ?thesis
    using assms len decoded_nlri [OF assms(1)]
    by (subst append_prefixes_step [OF b(2)]) (simp add: b(1))
qed

lemma append_prefixes_encoded:
  assumes "list_all net_wf ps" and "list_all (\<lambda>q. is_ipv6 (net_addr q) = v6) ps"
  shows "append_prefixes N (concat (map nlri_bytes ps)) v6 out = Ok (out @ map net_mask ps)"
  using assms by (induction ps arbitrary: out) (simp_all add: append_prefixes_nlri)

lemma append_prefixes_extends:
  "\<exists>qs. append_prefixes N b v6 out = Ok (out @ qs) \<and> list_all net_wf qs"
proof (induction "length b" arbitrary: b out rule: less_induct)
  case less
  let ?size = "div_ceil (unat (b ! 0)) 8"
  let ?q = "net_mask (mk_net (decoded_ip v6 (take ?size (drop 1 b))) (b ! 0))"
  show ?case
  proof (cases "b = [] \<or> unat (b ! 0) > (if v6 then 128 else 32) \<or> ?size + 1 > length b")
    case True
    then have "append_prefixes N b v6 out = Ok (out @ [])"
      by (cases "b = []") (simp_all add: append_prefixes_step)
    then show ?thesis by (intro exI [of _ "[]"]) simp
  next
    case False
    then have b: "b \<noteq> []" and wf: "net_wf ?q" by (auto simp: net_wf_def split: if_splits)
    then obtain qs where "append_prefixes N (drop (1 + ?size) b) v6 (out @ [?q]) =
        Ok ((out @ [?q]) @ qs)" "list_all net_wf qs"
      using less [of "drop (1 + ?size) b" "out @ [?q]"] by auto
    with False b wf show ?thesis
      by (intro exI [of _ "?q # qs"]) (simp add: append_prefixes_step)
  qed
qed

end

section \<open>The walk over the attributes\<close>

definition mp_part :: "ipnet_ops \<Rightarrow> bytes \<Rightarrow> ip_net list \<Rightarrow> (error, ip_net list) outcome" where
  "mp_part N attrs out = (let data = attr_data attrs; afi = (of_nat (be_value (take 2 data)) :: u16) in
     if attrs ! 1 = 14 \<and> 5 \<le> length data \<and> data ! 2 = 1 \<and> 5 + unat (data ! 3) \<le> length data \<and> (afi = 1 \<or> afi = 2)
     then append_prefixes N (drop (5 + unat (data ! 3)) data) (afi = 2) out
     else Ok out)"

lemma prefix_walk_step:
  assumes "attr_fits attrs"
  shows "prefix_walk N attrs out = bindr (mp_part N attrs out) (prefix_walk N (attr_rest attrs))"
proof -
  let ?data = "attr_data attrs"
  have fits: "3 \<le> length attrs" "attr_h attrs \<le> length attrs" "attr_h attrs + attr_l attrs \<le> length attrs"
    using assms by (simp_all add: attr_fits_def)
  have sl: "slice_range attrs (attr_h attrs) (attr_h attrs + attr_l attrs) = Ok ?data"
    "slice_from attrs (attr_h attrs + attr_l attrs) = Ok (attr_rest attrs)"
    using fits by (simp_all add: slice_range_def slice_from_def attr_data_def attr_rest_def)
  have ix: "index attrs 0 = Ok (attrs ! 0)" "index attrs 1 = Ok (attrs ! 1)"
    using fits by (auto simp: index_def)
  have nl: "\<not> length attrs < 3" "\<not> length attrs < attr_h attrs" "\<not> length attrs < attr_h attrs + attr_l attrs"
    using fits by simp_all
  have u: "u16b ?data = Ok (of_nat (be_value (take 2 ?data)))" if "5 \<le> length ?data"
    using that by (simp add: u16b_eq_Ok)
  have part: "bindr (and_also (attrs ! 1 = 14 \<and> 5 \<le> attr_l attrs) (bindr (index ?data 2) (\<lambda>d. Ok (d = 1)))) (\<lambda>mp.
      bindr (if mp then bindr (index ?data 3) (\<lambda>d3. bindr (u16b ?data) (\<lambda>afi.
           if 5 + unat d3 \<le> attr_l attrs \<and> (afi = 1 \<or> afi = 2) then
             bindr (slice_from ?data (5 + unat d3)) (\<lambda>s. append_prefixes N s (afi = 2) out)
           else Ok out)) else Ok out) f) = bindr (mp_part N attrs out) f" for f
    using length_attr_data [OF assms]
    by (auto simp: mp_part_def Let_def and_also_def index_def u slice_from_def)
  show ?thesis
    by (subst prefix_walk.simps)
      (simp only: Let_def nl ix bindr.simps attr_h_def [symmetric] read_attr_l [OF fits(1,2)] sl part if_False)
qed

lemma prefix_walk_broken: "\<not> attr_fits attrs \<Longrightarrow> prefix_walk N attrs out = Ok out"
proof (cases "3 \<le> length attrs \<and> attr_h attrs \<le> length attrs")
  case False
  then show ?thesis
    by (subst prefix_walk.simps) (auto simp: index_def Let_def attr_h_def [symmetric])
next
  case True
  moreover assume "\<not> attr_fits attrs"
  ultimately have "attr_h attrs + attr_l attrs > length attrs" by (simp add: attr_fits_def)
  with True show ?thesis
    by (subst prefix_walk.simps) (auto simp: index_def Let_def attr_h_def [symmetric] read_attr_l)
qed

lemma prefix_walk_Nil [simp]: "prefix_walk N [] out = Ok out"
  by (rule prefix_walk_broken) (simp add: attr_fits_def)

lemma prefix_walk_other:
  assumes "own_attr n (f, k, d)"
  shows "prefix_walk N (attr_bytes f k d @ rest) out = prefix_walk N rest out"
proof -
  have "length d < 65536" "f \<in> {0x40, 0x80, 0xC0}" "k \<noteq> 14"
    using assms by (auto simp: own_attr_def)
  note front = attr_front [OF this(1,2), of k rest]
  show ?thesis
    using \<open>k \<noteq> 14\<close> by (simp add: prefix_walk_step [OF front(2)] mp_part_def front Let_def
        front(3) [unfolded One_nat_def])
qed

lemma prefix_walk_other_list:
  "list_all (own_attr n) as \<Longrightarrow> prefix_walk N (attrs_bytes as) out = Ok out"
  by (induction as) (auto simp: prefix_walk_other)

lemma drop_mp_value: "drop (5 + unat (mp_nh_len p)) (mp_value p False encoded) = encoded"
proof -
  have "mp_value p False encoded = ([0, 2, 1, mp_nh_len p] @ mp_next_hops p @ [0]) @ encoded"
    by (simp add: mp_value_announce)
  moreover have "length ([0, 2, 1, mp_nh_len p] @ mp_next_hops p @ [0 :: u8]) = 5 + unat (mp_nh_len p)"
    by (simp add: length_mp_next_hops)
  ultimately show ?thesis by (simp del: append_Cons append.simps)
qed

lemma prefix_walk_mp:
  assumes "length encoded \<le> 3400"
  shows "prefix_walk N (attr_bytes 0x80 (if withdraw then 15 else 14) (mp_value p withdraw encoded) @ rest) out =
    (if withdraw then prefix_walk N rest out
     else bindr (append_prefixes N encoded True out) (prefix_walk N rest))"
proof -
  let ?k = "if withdraw then 15 else 14 :: u8" and ?d = "mp_value p withdraw encoded"
  have "length ?d < 65536"
    using assms length_mp_value [of p withdraw encoded] by simp
  note front = attr_front [OF this, of "0x80" ?k rest, simplified]
  show ?thesis
  proof (cases withdraw)
    case True
    then show ?thesis
      using front by (simp add: prefix_walk_step mp_part_def Let_def)
  next
    case False
    have "?d ! 2 = 1" "?d ! 3 = mp_nh_len p" "(of_nat (be_value (take 2 ?d)) :: u16) = 2"
        "length ?d = 5 + unat (mp_nh_len p) + length encoded"
      using False by (simp_all add: mp_value_announce length_mp_next_hops be_value_def)
    with False show ?thesis
      using front by (simp add: prefix_walk_step mp_part_def Let_def drop_mp_value)
  qed
qed

lemma update_prefixes_parts:
  assumes "length w < 65536" and "length a < 65536"
  shows "update_prefixes N (u16_be (of_nat (length w)) @ w @ u16_be (of_nat (length a)) @ a @ t) =
    bindr (append_prefixes N t False []) (prefix_walk N a)"
proof -
  have lens: "unat (of_nat (length w) :: u16) = length w" "unat (of_nat (length a) :: u16) = length a"
    using assms by (simp_all add: unat_of_nat_u16)
  show ?thesis
    by (simp add: update_prefixes_def lens slice_range_def slice_from_def Let_def)
qed

section \<open>The program's own UPDATEs at the receiver\<close>

lemma update_body_parts:
  "update_body v6 withdraw encoded attrs =
    (let w = (if withdraw \<and> \<not> v6 then encoded else []); t = (if \<not> withdraw \<and> \<not> v6 then encoded else [])
     in u16_be (of_nat (length w)) @ w @ u16_be (of_nat (length attrs)) @ attrs @ t)"
  by (simp add: update_body_def Let_def u16_be_def numeral_2_eq_2)

definition own_state :: "config \<Rightarrow> peer \<Rightarrow> negotiated \<Rightarrow> bool \<Rightarrow> bool \<Rightarrow> attr_state" where
  "own_state cfg p n v6 withdraw = \<lparr>
     seen = (\<lambda>k. v6 \<and> k = (if withdraw then 15 else 14) \<or>
       \<not> withdraw \<and> k \<in> kind_of ` set (path_list cfg p n v6)),
     mp_reach = (v6 \<and> \<not> withdraw), act = Valid\<rparr>"

lemma own_attrs_loop:
  assumes "length encoded \<le> 3400" and "encoded \<noteq> []" and "v6 \<Longrightarrow> validate_nlri encoded 128 = Ok ()"
    and "internal n = (asn cfg = remote_asn p)" and "\<not> withdraw \<Longrightarrow> next_hop_ok p v6"
  shows "attr_loop n (attrs_bytes (attrs_list cfg p n v6 withdraw encoded)) attr_init =
    Ok (own_state cfg p n v6 withdraw)"
proof -
  let ?k = "if withdraw then 15 else 14 :: u8" and ?P = "path_list cfg p n v6"
  define st where "st = (if v6 then \<lparr>seen = (\<lambda>k. k = ?k), mp_reach = (\<not> withdraw), act = Valid\<rparr>
    else attr_init)"
  have "attr_loop n (attrs_bytes (attrs_list cfg p n v6 withdraw encoded)) attr_init =
      attr_loop n (attrs_bytes (if withdraw then [] else ?P)) st"
  proof (cases v6)
    case True
    then show ?thesis
      using attr_loop_mp [OF assms(1), of attr_init withdraw n p] assms(2,3)
      by (simp add: attrs_list_def attr_init_def st_def fun_upd_def)
  qed (simp add: attrs_list_def st_def)
  also have "\<dots> = Ok (own_state cfg p n v6 withdraw)"
  proof (cases withdraw)
    case False
    note own = path_list_own [OF assms(4) assms(5) [OF False]]
    have "\<not> seen st k" if "k \<in> kind_of ` set ?P" for k
      using own(3) that False by (auto simp: st_def attr_init_def)
    then show ?thesis
      using False attr_loop_own_list [OF own(1,2), of st]
      by (simp add: st_def attr_init_def own_state_def)
  qed (simp add: st_def attr_init_def own_state_def)
  finally show ?thesis .
qed

lemma own_body_valid:
  fixes cfg :: config
  assumes "batch_ok p v6 withdraw ps" and "internal n = (asn cfg = remote_asn p)"
    and "\<not> withdraw \<Longrightarrow> next_hop_ok p v6"
  defines "encoded \<equiv> concat (map nlri_bytes ps)"
  shows "validate_update (update_body v6 withdraw encoded
    (attrs_bytes (attrs_list cfg p n v6 withdraw encoded))) n = Ok Valid"
proof -
  have sizes: "length encoded \<le> 3400" "length (attrs_bytes (attrs_list cfg p n v6 withdraw encoded)) \<le> 3477"
    using update_sizes [OF assms(1)] by (simp_all add: encoded_def)
  have ne: "encoded \<noteq> []" and nl: "validate_nlri encoded (if v6 then 128 else 32) = Ok ()"
    using assms(1) validate_encoded [of ps v6] encoded_nonempty by (simp_all add: encoded_def batch_ok_def)
  have loop: "attr_loop n (attrs_bytes (attrs_list cfg p n v6 withdraw encoded)) attr_init =
      Ok (own_state cfg p n v6 withdraw)"
    using sizes ne nl assms(2,3) by (intro own_attrs_loop) auto
  have "finish_update n (if \<not> withdraw \<and> \<not> v6 then encoded else []) (own_state cfg p n v6 withdraw) = Ok Valid"
  proof (cases withdraw)
    case False
    note own = path_list_own [OF assms(2) assms(3) [OF False]]
    show ?thesis
      using own(4-6) False by (cases v6) (auto simp: finish_update_def own_state_def Let_def)
  qed (simp add: finish_update_def own_state_def)
  then show ?thesis
    using sizes nl unfolding update_body_parts Let_def
    by (subst validate_update_parts) (auto simp: loop)
qed

context ipnet
begin

lemma own_body_prefixes:
  assumes "batch_ok p v6 withdraw ps" and "internal n = (asn cfg = remote_asn p)"
    and "\<not> withdraw \<Longrightarrow> next_hop_ok p v6"
  defines "encoded \<equiv> concat (map nlri_bytes ps)"
  shows "update_prefixes N (update_body v6 withdraw encoded
    (attrs_bytes (attrs_list cfg p n v6 withdraw encoded))) = Ok (if withdraw then [] else map (net_trunc N) ps)"
proof -
  let ?a = "attrs_bytes (attrs_list cfg p n v6 withdraw encoded)"
  have sizes: "length encoded \<le> 3400" "length ?a \<le> 3477"
    using update_sizes [OF assms(1)] by (simp_all add: encoded_def)
  have wf: "list_all net_wf ps" and fam: "list_all (\<lambda>q. is_ipv6 (net_addr q) = v6) ps"
    using assms(1) by (simp_all add: batch_ok_def)
  have trunc: "map (net_trunc N) ps = map net_mask ps"
    using wf by (auto simp: list_all_iff trunc_spec)
  have dec: "append_prefixes N encoded v6 out = Ok (out @ map net_mask ps)" for out
    unfolding encoded_def by (rule append_prefixes_encoded [OF wf fam])
  have path: "prefix_walk N (attrs_bytes (if withdraw then [] else path_list cfg p n v6)) out = Ok out" for out
    using path_list_own(1) [OF assms(2)] assms(3) by (auto intro: prefix_walk_other_list)
  have walk: "prefix_walk N ?a out = Ok (out @ (if v6 \<and> \<not> withdraw then map net_mask ps else []))" for out
    using path dec prefix_walk_mp [OF sizes(1), of N True p "[]"] prefix_walk_mp [OF sizes(1), of N False p]
    by (auto simp: attrs_list_def split: if_splits)
  show ?thesis
    using sizes walk dec trunc unfolding update_body_parts Let_def
    by (subst update_prefixes_parts) auto
qed

lemma own_update:
  assumes "batch_ok p v6 withdraw ps" and "internal n = (asn cfg = remote_asn p)"
    and "\<not> withdraw \<Longrightarrow> next_hop_ok p v6"
  shows "\<exists>pkt body. update N cfg p n ps withdraw = Ok pkt \<and> length pkt \<le> 4096 \<and>
    read_frame (pkt @ rest) = Ok ((UPDATE, body), rest) \<and> validate_update body n = Ok Valid \<and>
    update_prefixes N body = Ok (if withdraw then [] else map (net_trunc N) ps)"
proof -
  let ?e = "concat (map nlri_bytes ps)"
  let ?b = "update_body v6 withdraw ?e (attrs_bytes (attrs_list cfg p n v6 withdraw ?e))"
  have ok: "body_ok UPDATE ?b" by (rule update_sizes(3) [OF assms(1)])
  have fr: "frame UPDATE ?b = Ok (frame_bytes (UPDATE, ?b))"
    by (rule frame_bytes_Ok [OF ok])
  have "length (frame_bytes (UPDATE, ?b)) \<le> 4096"
    using length_frame [OF fr] ok by (simp add: body_ok_def MAX_MESSAGE_def)
  then show ?thesis
    using update_frame [OF assms(1)] fr read_frame_bytes [OF ok] own_body_valid [OF assms]
      own_body_prefixes [OF assms]
    by (intro exI [of _ "frame_bytes (UPDATE, ?b)"] exI [of _ ?b]) simp
qed

end

section \<open>Recovery from malformed attributes\<close>

text \<open>What the validator has established about a multiprotocol attribute that carries routes.\<close>

definition carries_routes :: "bytes \<Rightarrow> bool" where
  "carries_routes data = (let afi = (of_nat (be_value (take 2 data)) :: u16) in
     5 \<le> length data \<and> data ! 2 = 1 \<and> 5 + unat (data ! 3) < length data \<and> (afi = 1 \<or> afi = 2) \<and>
     validate_nlri (drop (5 + unat (data ! 3)) data) (if afi = 2 then 128 else 32) = Ok ())"

lemma mp_attribute_reach:
  assumes "mp_attribute flags kind data st = Ok st'"
  shows "mp_reach st' \<longrightarrow> mp_reach st \<or> kind = 14 \<and> carries_routes data"
  using assms unfolding mp_attribute_def
  by (auto simp: outcome_simps carries_routes_def ipv4_unicast_or_v6_def Let_def split: if_splits)

lemma attribute_reach:
  assumes "attribute n flags kind data whole st = Ok st'"
  shows "mp_reach st' \<longrightarrow> mp_reach st \<or> kind = 14 \<and> carries_routes data"
  using assms mp_attribute_reach unfolding attribute_def
  by (auto simp: outcome_simps split: if_splits)

lemma attr_loop_reach:
  assumes "attr_loop n attrs st = Ok st'" and "attrs \<noteq> []"
  shows "if attr_fits attrs
    then \<exists>st1. attr_loop n (attr_rest attrs) st1 = Ok st' \<and>
      (mp_reach st1 \<longrightarrow> mp_reach st \<or> attrs ! 1 = 14 \<and> carries_routes (attr_data attrs))
    else mp_reach st' = mp_reach st"
proof (cases "attr_fits attrs")
  case True
  with assms show ?thesis
    by (fastforce simp: attr_loop_step [OF assms(2) True] bindr_eq_Ok split: if_splits dest: attribute_reach)
next
  case False
  then show ?thesis using attr_loop_broken [OF assms(2) False, of n st] assms(1) by auto
qed

context ipnet
begin

lemma append_prefixes_nonempty:
  assumes "b \<noteq> []" and "validate_nlri b (if v6 then 128 else 32) = Ok ()"
  shows "\<exists>q qs. append_prefixes N b v6 out = Ok (out @ q # qs) \<and> list_all net_wf (q # qs)"
proof -
  let ?size = "div_ceil (unat (b ! 0)) 8"
  let ?q = "net_mask (mk_net (decoded_ip v6 (take ?size (drop 1 b))) (b ! 0))"
  have ok: "unat (b ! 0) \<le> (if v6 then 128 else 32)" "?size < length b"
    using assms by (auto simp: validate_nlri_step split: if_splits)
  obtain qs where "append_prefixes N (drop (1 + ?size) b) v6 (out @ [?q]) = Ok ((out @ [?q]) @ qs)" "list_all net_wf qs"
    using append_prefixes_extends by blast
  moreover have "net_wf ?q" using ok by (simp add: net_wf_def)
  ultimately show ?thesis
    using ok by (intro exI [of _ ?q] exI [of _ qs]) (simp add: append_prefixes_step [OF assms(1)])
qed

lemma mp_part_extends:
  "\<exists>qs. mp_part N attrs out = Ok (out @ qs) \<and> list_all net_wf qs \<and>
     (attrs ! 1 = 14 \<and> carries_routes (attr_data attrs) \<longrightarrow> qs \<noteq> [])"
proof (cases "attrs ! 1 = 14 \<and> carries_routes (attr_data attrs)")
  case True
  let ?d = "attr_data attrs"
  let ?b = "drop (5 + unat (?d ! 3)) ?d" and ?v6 = "(of_nat (be_value (take 2 ?d)) :: u16) = 2"
  have "mp_part N attrs out = append_prefixes N ?b ?v6 out"
    using True by (auto simp: mp_part_def carries_routes_def Let_def)
  moreover have "?b \<noteq> []" "validate_nlri ?b (if ?v6 then 128 else 32) = Ok ()"
    using True by (auto simp: carries_routes_def Let_def)
  ultimately show ?thesis
    using append_prefixes_nonempty [of ?b ?v6 out] by auto
next
  case False
  then show ?thesis
    using append_prefixes_extends by (auto simp: mp_part_def Let_def intro: exI [of _ "[]"])
qed

lemma prefix_walk_extends: "\<exists>qs. prefix_walk N attrs out = Ok (out @ qs) \<and> list_all net_wf qs"
proof (induction "length attrs" arbitrary: attrs out rule: less_induct)
  case less
  show ?case
  proof (cases "attr_fits attrs")
    case True
    then have ne: "attrs \<noteq> []" by (auto simp: attr_fits_def)
    obtain qs where qs: "mp_part N attrs out = Ok (out @ qs)" "list_all net_wf qs"
      using mp_part_extends by blast
    moreover obtain rs where "prefix_walk N (attr_rest attrs) (out @ qs) = Ok ((out @ qs) @ rs)" "list_all net_wf rs"
      using less [OF length_attr_rest [OF ne]] by blast
    ultimately show ?thesis
      by (intro exI [of _ "qs @ rs"]) (simp add: prefix_walk_step [OF True])
  qed (auto simp: prefix_walk_broken intro: exI [of _ "[]"])
qed

lemma prefix_walk_reach:
  assumes "attr_loop n attrs st = Ok st'" and "mp_reach st'" and "\<not> mp_reach st"
  shows "\<exists>qs. prefix_walk N attrs out = Ok (out @ qs) \<and> qs \<noteq> []"
  using assms
proof (induction "length attrs" arbitrary: attrs out st rule: less_induct)
  case less
  then have ne: "attrs \<noteq> []" by auto
  from attr_loop_reach [OF less.prems(1) ne] less.prems(2,3) obtain st1 where
    fits: "attr_fits attrs" and rest: "attr_loop n (attr_rest attrs) st1 = Ok st'" and
    st1: "mp_reach st1 \<longrightarrow> attrs ! 1 = 14 \<and> carries_routes (attr_data attrs)"
    by (auto split: if_splits)
  obtain qs where qs: "mp_part N attrs out = Ok (out @ qs)"
      "attrs ! 1 = 14 \<and> carries_routes (attr_data attrs) \<longrightarrow> qs \<noteq> []"
    using mp_part_extends by blast
  obtain rs where rs: "prefix_walk N (attr_rest attrs) (out @ qs) = Ok ((out @ qs) @ rs)" "mp_reach st1 \<or> rs \<noteq> []"
    using less.hyps [OF length_attr_rest [OF ne] rest less.prems(2), of "out @ qs"]
      prefix_walk_extends [of "attr_rest attrs" "out @ qs"] by blast
  with qs st1 show ?case
    by (intro exI [of _ "qs @ rs"]) (auto simp: prefix_walk_step [OF fits])
qed

lemma update_prefixes_Ok: "\<exists>qs. update_prefixes N b = Ok qs \<and> list_all net_wf qs"
proof -
  have "\<exists>qs. bindr (append_prefixes N t False []) (prefix_walk N a) = Ok qs \<and> list_all net_wf qs" for t a
    using append_prefixes_extends [of t False "[]"] prefix_walk_extends [of a] by fastforce
  then show ?thesis
    by (auto simp: update_prefixes_def u16b_def index_def slice_from_def slice_range_def Let_def)
qed

lemma update_prefixes_recover:
  assumes "validate_update b n = Ok TreatAsWithdraw"
  shows "\<exists>q qs. update_prefixes N b = Ok (q # qs)"
proof -
  let ?w = "unat (of_nat (be_value (take 2 b)) :: u16)"
  let ?a = "unat (of_nat (be_value (take 2 (drop (2 + ?w) b))) :: u16)"
  let ?t = "drop (4 + ?w + ?a) b" and ?attrs = "take ?a (drop (4 + ?w) b)"
  from assms obtain st where ok: "?w + ?a + 4 \<le> length b" "validate_nlri ?t 32 = Ok ()"
      "attr_loop n ?attrs attr_init = Ok st" "finish_update n ?t st = Ok TreatAsWithdraw"
    unfolding validate_update_def by (auto simp: outcome_simps Let_def)
  then have reach: "?t \<noteq> [] \<or> mp_reach st"
    by (auto simp: finish_update_def Let_def bindr_eq_Ok)
  have u: "u16b b = Ok (of_nat (be_value (take 2 b)))"
      "u16b (drop (2 + ?w) b) = Ok (of_nat (be_value (take 2 (drop (2 + ?w) b))))"
    using ok(1) by (simp_all add: u16b_eq_Ok)
  have up: "update_prefixes N b = bindr (append_prefixes N ?t False []) (prefix_walk N ?attrs)"
    using ok(1) by (simp add: update_prefixes_def u u(2) [simplified] slice_from_def slice_range_def Let_def)
  have "\<exists>ps. append_prefixes N ?t False [] = Ok ps \<and> (?t \<noteq> [] \<longrightarrow> ps \<noteq> [])"
  proof (cases "?t = []")
    case False
    from append_prefixes_nonempty [OF False, of False "[]"] ok(2) show ?thesis by auto
  qed simp
  then obtain ps where ps: "append_prefixes N ?t False [] = Ok ps" "?t \<noteq> [] \<longrightarrow> ps \<noteq> []"
    by blast
  have "\<exists>qs. prefix_walk N ?attrs ps = Ok (ps @ qs) \<and> (mp_reach st \<longrightarrow> qs \<noteq> [])"
  proof (cases "mp_reach st")
    case True
    from prefix_walk_reach [OF ok(3) True, of ps] show ?thesis by (auto simp: attr_init_def)
  next
    case False
    with prefix_walk_extends [of ?attrs ps] show ?thesis by blast
  qed
  then obtain qs where "prefix_walk N ?attrs ps = Ok (ps @ qs)" "mp_reach st \<longrightarrow> qs \<noteq> []"
    by blast
  with up ps reach show ?thesis by (cases "ps @ qs") auto
qed

end

section \<open>Properties\<close>

text \<open>
  C8: What the program sends is what a conforming receiver reads. Any batch of at most 200
  prefixes of one family, announced with the next hop the configuration supplies or withdrawn,
  is encoded without a panic into one message of at most 4096 bytes; the receiver frames it,
  finds it valid with no attribute to discard, and decodes exactly the announced prefixes (in
  order, host bits cleared), or none for a withdrawal.
\<close>

theorem update_roundtrip:
  assumes "ipnet N" and "batch_ok p v6 withdraw ps" and "internal n = (asn cfg = remote_asn p)"
    and "\<not> withdraw \<Longrightarrow> next_hop_ok p v6"
  shows "\<exists>pkt body. update N cfg p n ps withdraw = Ok pkt \<and> length pkt \<le> 4096 \<and>
    read_frame (pkt @ rest) = Ok ((UPDATE, body), rest) \<and> validate_update body n = Ok Valid \<and>
    update_prefixes N body = Ok (if withdraw then [] else map (net_trunc N) ps)"
  using ipnet.own_update [OF assms] .

theorem update_roundtrip_witness:
  "\<exists>pkt body. update ipnet_ref example_config example_peer
      \<lparr>neg_router_id = 1, hold = 90, asn4 = True, internal = False, neg_ipv4 = True, neg_ipv6 = False\<rparr>
      [NetV4 0xC6336400 24, NetV4 0xCB007140 26] False = Ok pkt \<and>
    read_frame (pkt @ []) = Ok ((UPDATE, body), []) \<and>
    update_prefixes ipnet_ref body = Ok [NetV4 0xC6336400 24, NetV4 0xCB007140 26]"
proof -
  let ?ps = "[NetV4 0xC6336400 24, NetV4 0xCB007140 26]"
  have "batch_ok example_peer False False ?ps"
    by (simp add: batch_ok_def example_peer_def MAX_UPDATE_PREFIXES_def nh4_def)
  moreover have "next_hop_ok example_peer False"
    by (simp add: next_hop_ok_def example_peer_def nh4_def valid_v4_def is_multicast_v4_def broadcast_v4_def)
  moreover have "map (net_trunc ipnet_ref) ?ps = ?ps"
    by (simp add: ipnet_ref_def net_mask_def mask_top_def)
  ultimately show ?thesis
    using update_roundtrip [OF ref.ipnet_axioms, of example_peer False False ?ps
        "\<lparr>neg_router_id = 1, hold = 90, asn4 = True, internal = False, neg_ipv4 = True, neg_ipv6 = False\<rparr>"
        example_config "[]"]
    by (auto simp: example_defs)
qed

text \<open>
  C28: Validation is total on hostile input: no UPDATE body makes \<open>validate_update\<close> panic,
  and every error it returns is an UPDATE Message Error (code 3), so it can be sent back as a
  NOTIFICATION.
\<close>

theorem validate_update_total:
  "(\<exists>action. validate_update b n = Ok action) \<or>
   (\<exists>pe. validate_update b n = Err (Protocol pe) \<and> pe_code pe = 3)"
  using validate_update_no_panic [of b n] validate_update_error [of b n]
  by (cases "validate_update b n") (auto simp: update_error_def)

text \<open>
  The NLRI fields \<open>validate_nlri\<close> accepts are exactly the concatenations of prefixes of at
  most the family's width, each a length octet with as many octets as the length needs; the AS
  paths \<open>validate_path\<close> accepts are exactly the concatenations of non-empty segments of the four
  known types.
\<close>

theorem validators_accept_grammar:
  "(validate_nlri b bits = Ok () \<longleftrightarrow> (\<exists>xs. list_all (nlri_item bits) xs \<and> b = concat xs)) \<and>
   (validate_path b width = Ok () \<longleftrightarrow> (\<exists>xs. list_all (path_segment width) xs \<and> b = concat xs))"
  by (intro conjI nlri.check_iff path.check_iff)

text \<open>
  The decoder of reachable prefixes is total: on every byte string it returns well-formed
  networks, without a panic.
\<close>

theorem update_prefixes_total:
  assumes "ipnet N"
  shows "\<exists>qs. update_prefixes N b = Ok qs \<and> list_all net_wf qs"
  using ipnet.update_prefixes_Ok [OF assms] .

theorem update_prefixes_total_witness: "\<exists>qs. update_prefixes ipnet_ref [0, 0, 0, 0, 33] = Ok qs"
  using update_prefixes_total [OF ref.ipnet_axioms, of "[0, 0, 0, 0, 33]"] by blast

text \<open>
  An UPDATE that is to be treated as a withdrawal always names a route to withdraw: when
  validation answers \<open>TreatAsWithdraw\<close>, the decoder finds at least one prefix in it, in the
  NLRI field or in MP_REACH_NLRI.
\<close>

theorem treat_as_withdraw_has_prefixes:
  assumes "ipnet N" and "validate_update b n = Ok TreatAsWithdraw"
  shows "\<exists>q qs. update_prefixes N b = Ok (q # qs)"
  using ipnet.update_prefixes_recover [OF assms] .

definition recovered_example :: bytes where
  "recovered_example = [0, 0, 0, 4, 0x40, 1, 1, 3, 8, 10]"

theorem treat_as_withdraw_has_prefixes_witness:
  "\<exists>q qs. update_prefixes ipnet_ref recovered_example = Ok (q # qs)"
proof (rule treat_as_withdraw_has_prefixes [OF ref.ipnet_axioms])
  let ?n = "\<lparr>neg_router_id = 1, hold = 90, asn4 = True, internal = False, neg_ipv4 = True, neg_ipv6 = False\<rparr>"
  show "validate_update recovered_example ?n = Ok TreatAsWithdraw"
    by code_simp
qed

end
