(* ===== verification/Plan.thy ===== *)
theory Plan
  imports Wire_Roundtrip Freshness
begin

text \<open>
  The transmission plan of \<open>src/bgp.rs\<close>: the difference between what was sent and what is
  wanted, cut into batches of one family and at most 200 prefixes, withdrawals first. Sets of
  prefixes are distinct lists in the order they iterate.
\<close>

section \<open>Definitions\<close>

record plan =
  withdrawals :: "ip_net list"
  additions :: "ip_net list"

definition is_v6 :: "ip_net \<Rightarrow> bool" where
  "is_v6 p = is_ipv6 (net_addr p)"

definition neg_enabled :: "negotiated \<Rightarrow> ip_net \<Rightarrow> bool" where
  "neg_enabled n p = (if is_ipv4 (net_addr p) then neg_ipv4 n else neg_ipv6 n)"

definition plan_new :: "prefixes \<Rightarrow> prefixes \<Rightarrow> negotiated \<Rightarrow> prefixes \<Rightarrow> plan" where
  "plan_new advertised desired n replay = \<lparr>
     withdrawals = sort_key is_v6 (filter (\<lambda>p. p \<notin> set desired \<or> \<not> neg_enabled n p) advertised),
     additions = sort_key is_v6
       (filter (\<lambda>p. neg_enabled n p \<and> (p \<in> set replay \<or> p \<notin> set advertised)) desired)\<rparr>"

text \<open>The loop that moves prefixes from the front of the queue into the batch.\<close>

fun fill_batch :: "bool \<Rightarrow> ip_net list \<Rightarrow> ip_net list \<Rightarrow> ip_net list \<times> ip_net list" where
  "fill_batch v6 batch [] = (batch, [])"
| "fill_batch v6 batch (p # queue) =
    (if length batch < MAX_UPDATE_PREFIXES \<and> is_v6 p = v6 then fill_batch v6 (batch @ [p]) queue
     else (batch, p # queue))"

definition plan_next :: "plan \<Rightarrow> ((bool \<times> ip_net list) \<times> plan) option" where
  "plan_next pl =
    (let withdraw = (withdrawals pl \<noteq> []);
         queue = (if withdraw then withdrawals pl else additions pl)
     in case queue of
       [] \<Rightarrow> None
     | front # _ \<Rightarrow>
         (let (batch, queue) = fill_batch (is_v6 front) [] queue
          in Some ((withdraw, batch),
            if withdraw then pl\<lparr>withdrawals := queue\<rparr> else pl\<lparr>additions := queue\<rparr>)))"

text \<open>The bookkeeping after a batch was written.\<close>

definition record_batch :: "bool \<Rightarrow> ip_net list \<Rightarrow> prefixes \<Rightarrow> prefixes" where
  "record_batch withdraw batch advertised =
     fold (\<lambda>p adv. if withdraw then removeAll p adv else List.insert p adv) batch advertised"

definition forget_replay :: "ip_net list \<Rightarrow> prefixes \<Rightarrow> prefixes" where
  "forget_replay batch replay = fold removeAll batch replay"

section \<open>Batches\<close>

lemma fill_batch_spec:
  assumes "fill_batch v6 batch queue = (b, q)" and "length batch \<le> MAX_UPDATE_PREFIXES"
  shows "\<exists>taken. b = batch @ taken \<and> queue = taken @ q \<and> list_all (\<lambda>p. is_v6 p = v6) taken \<and>
    length b \<le> MAX_UPDATE_PREFIXES \<and>
    (q \<noteq> [] \<longrightarrow> length b = MAX_UPDATE_PREFIXES \<or> is_v6 (hd q) \<noteq> v6)"
  using assms
proof (induction v6 batch queue rule: fill_batch.induct)
  case (2 v6 batch p queue)
  show ?case
  proof (cases "length batch < MAX_UPDATE_PREFIXES \<and> is_v6 p = v6")
    case True
    with 2 obtain taken where "b = (batch @ [p]) @ taken" "queue = taken @ q" "list_all (\<lambda>p. is_v6 p = v6) taken"
        "length b \<le> MAX_UPDATE_PREFIXES" "q \<noteq> [] \<longrightarrow> length b = MAX_UPDATE_PREFIXES \<or> is_v6 (hd q) \<noteq> v6"
      by fastforce
    with True show ?thesis by (intro exI [of _ "p # taken"]) simp
  qed (use 2 in auto)
qed simp

lemma plan_next_None: "plan_next pl = None \<longleftrightarrow> withdrawals pl = [] \<and> additions pl = []"
  by (auto simp: plan_next_def Let_def split: list.splits prod.splits)

text \<open>A batch the encoder accepts, and what is left of the plan.\<close>

definition good_batch :: "ip_net list \<Rightarrow> bool" where
  "good_batch b = (b \<noteq> [] \<and> length b \<le> MAX_UPDATE_PREFIXES \<and> list_all (\<lambda>p. is_v6 p = is_v6 (hd b)) b)"

lemma fill_batch_front:
  assumes "fill_batch (is_v6 p) [] (p # queue) = (b, q)"
  shows "good_batch b \<and> p # queue = b @ q"
proof -
  from fill_batch_spec [OF assms] have b: "p # queue = b @ q" "list_all (\<lambda>r. is_v6 r = is_v6 p) b"
      "length b \<le> MAX_UPDATE_PREFIXES" "q \<noteq> [] \<longrightarrow> length b = MAX_UPDATE_PREFIXES \<or> is_v6 (hd q) \<noteq> is_v6 p"
    by auto
  then have "b \<noteq> []" by (cases b) (auto simp: MAX_UPDATE_PREFIXES_def)
  with b have "hd b = p" by (cases b) auto
  with b \<open>b \<noteq> []\<close> show ?thesis by (simp add: good_batch_def)
qed

lemma plan_next_Some:
  assumes "plan_next pl = Some ((w, b), pl')"
  shows "good_batch b \<and> (if w then withdrawals pl = b @ withdrawals pl' \<and> additions pl' = additions pl
    else withdrawals pl = [] \<and> withdrawals pl' = [] \<and> additions pl = b @ additions pl')"
proof (cases "withdrawals pl = []")
  case True
  with assms obtain p queue q where "additions pl = p # queue" "fill_batch (is_v6 p) [] (p # queue) = (b, q)"
      "\<not> w" "pl' = pl\<lparr>additions := q\<rparr>"
    by (auto simp: plan_next_def Let_def split: list.splits prod.splits)
  with True fill_batch_front show ?thesis by auto
next
  case False
  with assms obtain p queue q where "withdrawals pl = p # queue" "fill_batch (is_v6 p) [] (p # queue) = (b, q)"
      "w" "pl' = pl\<lparr>withdrawals := q\<rparr>"
    by (auto simp: plan_next_def Let_def split: list.splits prod.splits)
  with fill_batch_front show ?thesis by auto
qed

definition plan_size :: "plan \<Rightarrow> nat" where
  "plan_size pl = length (withdrawals pl) + length (additions pl)"

lemma plan_next_smaller: "plan_next pl = Some (wb, pl') \<Longrightarrow> plan_size pl' < plan_size pl"
  using plan_next_Some [of pl "fst wb" "snd wb" pl']
  by (auto simp: plan_size_def good_batch_def split: if_splits)

text \<open>All batches of a plan, in the order they are sent.\<close>

function plan_batches :: "plan \<Rightarrow> (bool \<times> ip_net list) list" where
  "plan_batches pl = (case plan_next pl of None \<Rightarrow> [] | Some (wb, pl') \<Rightarrow> wb # plan_batches pl')"
  by pat_completeness auto
termination
  by (relation "measure plan_size") (auto dest: plan_next_smaller)

declare plan_batches.simps [simp del]

section \<open>Bookkeeping\<close>

lemma set_record_batch:
  "set (record_batch w b adv) = (if w then set adv - set b else set adv \<union> set b)"
  by (induction b arbitrary: adv) (auto simp: record_batch_def)

lemma distinct_record_batch: "distinct adv \<Longrightarrow> distinct (record_batch w b adv)"
  by (induction b arbitrary: adv) (auto simp: record_batch_def distinct_removeAll)

lemma set_forget_replay: "set (forget_replay b replay) = set replay - set b"
  by (induction b arbitrary: replay) (auto simp: forget_replay_def)

definition wanted :: "negotiated \<Rightarrow> prefixes \<Rightarrow> ip_net set" where
  "wanted n target = {p \<in> set target. neg_enabled n p}"

text \<open>A plan that, once sent, leaves the peer with exactly the wanted prefixes.\<close>

definition plan_ok :: "negotiated \<Rightarrow> prefixes \<Rightarrow> prefixes \<Rightarrow> plan \<Rightarrow> bool" where
  "plan_ok n advertised target pl =
    (set (withdrawals pl) \<inter> wanted n target = {} \<and> set (additions pl) \<subseteq> wanted n target \<and>
     set advertised - set (withdrawals pl) \<union> set (additions pl) = wanted n target)"

lemma plan_new_ok: "plan_ok n advertised target (plan_new advertised target n replay)"
  by (auto simp: plan_ok_def plan_new_def wanted_def)

lemma plan_next_ok:
  assumes "plan_ok n advertised target pl" and "plan_next pl = Some ((w, b), pl')"
  shows "plan_ok n (record_batch w b advertised) target pl' \<and>
    (if w then set b \<inter> wanted n target = {} else set b \<subseteq> wanted n target)"
  using assms plan_next_Some [OF assms(2)]
  by (auto simp: plan_ok_def set_record_batch split: if_splits)

lemma plan_done: "plan_ok n advertised target pl \<Longrightarrow> plan_next pl = None \<Longrightarrow> set advertised = wanted n target"
  by (simp add: plan_ok_def plan_next_None)

section \<open>Draining a plan\<close>

lemma plan_batches_sync:
  "plan_ok n advertised target pl \<Longrightarrow>
    set (fold (\<lambda>(w, b). record_batch w b) (plan_batches pl) advertised) = wanted n target"
proof (induction pl arbitrary: advertised rule: plan_batches.induct)
  case (1 pl)
  show ?case
  proof (cases "plan_next pl")
    case None
    with 1 show ?thesis by (simp add: plan_batches.simps [of pl] plan_done)
  next
    case (Some r)
    obtain w b pl' where r: "r = ((w, b), pl')" by (metis surj_pair)
    have "plan_ok n (record_batch w b advertised) target pl'"
      using plan_next_ok [OF 1(2)] Some r by blast
    from 1(1) [OF Some r [symmetric] this] show ?thesis
      using Some by (simp add: plan_batches.simps [of pl] r)
  qed
qed

lemma plan_batches_split:
  "\<exists>ws as. plan_batches pl = map (\<lambda>b. (True, b)) ws @ map (\<lambda>b. (False, b)) as \<and>
     concat ws = withdrawals pl \<and> concat as = additions pl \<and> list_all good_batch (ws @ as)"
proof (induction pl rule: plan_batches.induct)
  case (1 pl)
  show ?case
  proof (cases "plan_next pl")
    case None
    then show ?thesis
      by (intro exI [of _ "[]"]) (simp add: plan_batches.simps [of pl] plan_next_None [symmetric] plan_next_None [THEN iffD1])
  next
    case (Some r)
    obtain w b pl' where r: "r = ((w, b), pl')" by (metis surj_pair)
    from 1 [OF Some r [symmetric]] obtain ws as where rest: "plan_batches pl' = map (\<lambda>b. (True, b)) ws @ map (\<lambda>b. (False, b)) as"
        "concat ws = withdrawals pl'" "concat as = additions pl'" "list_all good_batch (ws @ as)"
      by blast
    have step: "plan_batches pl = (w, b) # plan_batches pl'"
      using Some r by (simp add: plan_batches.simps [of pl])
    from Some r have nxt: "plan_next pl = Some ((w, b), pl')" by simp
    show ?thesis
    proof (cases w)
      case True
      then have "plan_batches pl = map (\<lambda>b. (True, b)) (b # ws) @ map (\<lambda>b. (False, b)) as"
        "concat (b # ws) = withdrawals pl" "concat as = additions pl" "list_all good_batch ((b # ws) @ as)"
        using plan_next_Some [OF nxt] rest step by auto
      then show ?thesis by blast
    next
      case False
      then have "ws = []"
        using plan_next_Some [OF nxt] rest(2,4) by (cases ws) (auto simp: good_batch_def)
      with False have "plan_batches pl = map (\<lambda>b. (True, b)) [] @ map (\<lambda>b. (False, b)) (b # as)"
        "concat [] = withdrawals pl" "concat (b # as) = additions pl" "list_all good_batch ([] @ b # as)"
        using plan_next_Some [OF nxt] rest step by auto
      then show ?thesis by blast
    qed
  qed
qed

section \<open>Properties\<close>

text \<open>
  A plan reaches its goal: from any set of sent prefixes, sending all batches of the plan and
  recording them leaves exactly the desired prefixes of the negotiated families advertised,
  with or without a replay.
\<close>

theorem plan_reaches_target:
  "set (fold (\<lambda>(w, b). record_batch w b) (plan_batches (plan_new advertised target n replay)) advertised) =
     {p \<in> set target. neg_enabled n p}"
  using plan_batches_sync [OF plan_new_ok] by (simp add: wanted_def)

text \<open>
  Every batch fits one UPDATE, and withdrawals come first: the batches of any plan are
  non-empty, hold at most 200 prefixes of a single family, carry each queued prefix exactly once
  and in queue order, and no withdrawal follows an announcement.
\<close>

theorem plan_batches_well_formed:
  "\<exists>ws as. plan_batches pl = map (\<lambda>b. (True, b)) ws @ map (\<lambda>b. (False, b)) as \<and>
     concat ws = withdrawals pl \<and> concat as = additions pl \<and> list_all good_batch (ws @ as)"
  by (rule plan_batches_split)

end
