(* ===== verification/Transmit.thy ===== *)
theory Transmit
  imports Plan
begin

unbundle bit_operations_syntax

text \<open>
  The transmit half of an established session in \<open>src/bgp.rs\<close>: the loop that follows the
  exports of the kernel side, replays them on a route refresh request, and sends KEEPALIVEs,
  UPDATEs and End-of-RIB markers.

  The loop is a state machine with one location for each point where it reads the clock, the
  exports or the pending refresh requests, or writes to the stream; between any two steps the
  clock may advance, the kernel side may publish, and the receive half may request a refresh.
  Every complete packet that was written is in the log; a write that fails closes the session.
\<close>

section \<open>Definitions\<close>

datatype location = AtReplan | AtRefresh | AtKeepalive | AtBatch | AtWait | Closed

datatype sent = SentKeepalive | SentUpdate bool "ip_net list" | SentEor bool

record tstate =
  t_loc :: location
  t_clock :: nat
  t_advertised :: prefixes
  t_target :: prefixes
  t_replay :: prefixes
  t_plan :: plan
  t_eor :: u8
  t_pending :: u8
  t_last_replan :: nat
  t_next_refresh :: nat
  t_next_keepalive :: nat
  t_exports :: "exports watch"
  t_seen :: nat
  t_log :: "(sent \<times> bytes) list"

text \<open>\<open>u8::from(n.ipv4) | (u8::from(n.ipv6) << 1)\<close>, and the bit of one family.\<close>

definition family_bits :: "negotiated \<Rightarrow> u8" where
  "family_bits n = (if neg_ipv4 n then 1 else 0) OR (if neg_ipv6 n then 2 else 0)"

definition family_bit :: "bool \<Rightarrow> u8" where
  "family_bit v6 = (if v6 then 2 else 1)"

text \<open>\<open>Refresh::request\<close>; the wake-up it sends is the step that leaves the wait.\<close>

definition refresh_request :: "bool \<Rightarrow> tstate \<Rightarrow> tstate" where
  "refresh_request v6 s = s\<lparr>t_pending := t_pending s OR family_bit v6\<rparr>"

definition desired :: "string \<Rightarrow> exports \<Rightarrow> prefixes" where
  "desired acl ex = unwrap_or (map_of ex acl) []"

definition keepalive_ms :: "negotiated \<Rightarrow> nat" where
  "keepalive_ms n = 1000 * max (unat (hold n) div 3) 1"

definition transmit_init :: "nat \<Rightarrow> peer \<Rightarrow> negotiated \<Rightarrow> exports watch \<Rightarrow> tstate" where
  "transmit_init now p n ex = (let target = desired (export_acl p) (w_value ex) in \<lparr>
     t_loc = AtReplan, t_clock = now, t_advertised = [], t_target = target, t_replay = [],
     t_plan = plan_new [] target n [], t_eor = family_bits n, t_pending = 0,
     t_last_replan = now, t_next_refresh = now, t_next_keepalive = now + keepalive_ms n,
     t_exports = ex, t_seen = w_version ex, t_log = []\<rparr>)"

text \<open>A new target: the plan is made against what was written.\<close>

definition replan :: "peer \<Rightarrow> negotiated \<Rightarrow> tstate \<Rightarrow> tstate" where
  "replan p n s =
    (let target = desired (export_acl p) (w_value (t_exports s));
         replay = filter (\<lambda>q. q \<in> set target) (t_replay s)
     in s\<lparr>t_target := target, t_replay := replay, t_plan := plan_new (t_advertised s) target n replay,
       t_last_replan := t_clock s, t_seen := w_version (t_exports s)\<rparr>)"

definition transmit_replan :: "peer \<Rightarrow> negotiated \<Rightarrow> tstate \<Rightarrow> tstate" where
  "transmit_replan p n s =
    (let s = (if t_seen s \<noteq> w_version (t_exports s) \<and> t_clock s - t_last_replan s \<ge> 100
              then replan p n s else s)
     in s\<lparr>t_loc := AtRefresh\<rparr>)"

definition transmit_refresh :: "negotiated \<Rightarrow> tstate \<Rightarrow> tstate" where
  "transmit_refresh n s =
    (let s = (if t_eor s = 0 \<and> t_next_refresh s \<le> t_clock s then
         let families = t_pending s; s = s\<lparr>t_pending := 0\<rparr> in
         if families \<noteq> 0 then
           let replay = filter (\<lambda>q. families AND family_bit (is_v6 q) \<noteq> 0) (t_target s) in
           s\<lparr>t_replay := replay, t_plan := plan_new (t_advertised s) (t_target s) n replay,
             t_eor := families AND family_bits n, t_next_refresh := t_clock s + 1000\<rparr>
         else s
       else s)
     in s\<lparr>t_loc := AtKeepalive\<rparr>)"

definition transmit_keepalive :: "negotiated \<Rightarrow> tstate \<Rightarrow> (error, tstate) outcome" where
  "transmit_keepalive n s =
     bindr (if hold n \<noteq> 0 \<and> t_next_keepalive s \<le> t_clock s then
         bindr (frame KEEPALIVE []) (\<lambda>pkt.
         Ok (s\<lparr>t_log := t_log s @ [(SentKeepalive, pkt)], t_next_keepalive := t_clock s + keepalive_ms n\<rparr>))
       else Ok s) (\<lambda>s.
     Ok (s\<lparr>t_loc := AtBatch\<rparr>))"

definition send_eor :: "bool \<Rightarrow> tstate \<Rightarrow> (error, tstate) outcome" where
  "send_eor v6 s =
    (if t_eor s AND family_bit v6 \<noteq> 0 then
       bindr (end_of_rib v6) (\<lambda>pkt. Ok (s\<lparr>t_log := t_log s @ [(SentEor v6, pkt)]\<rparr>))
     else Ok s)"

definition transmit_batch :: "ipnet_ops \<Rightarrow> config \<Rightarrow> peer \<Rightarrow> negotiated \<Rightarrow> tstate \<Rightarrow> (error, tstate) outcome" where
  "transmit_batch N cfg p n s = (case plan_next (t_plan s) of
     Some ((withdraw, batch), plan) \<Rightarrow>
       bindr (update N cfg p n batch withdraw) (\<lambda>pkt.
       Ok (s\<lparr>t_plan := plan, t_log := t_log s @ [(SentUpdate withdraw batch, pkt)],
         t_replay := forget_replay batch (t_replay s),
         t_advertised := record_batch withdraw batch (t_advertised s), t_loc := AtReplan\<rparr>))
   | None \<Rightarrow>
       bindr (if t_eor s \<noteq> 0 then
           bindr (send_eor False s) (\<lambda>s. bindr (send_eor True s) (\<lambda>s. Ok (s\<lparr>t_eor := 0\<rparr>)))
         else Ok s) (\<lambda>s.
       Ok (s\<lparr>t_loc := AtWait\<rparr>)))"

text \<open>The exports arm of the final \<open>select!\<close>; the other arms only leave the wait.\<close>

definition transmit_changed :: "peer \<Rightarrow> negotiated \<Rightarrow> tstate \<Rightarrow> tstate" where
  "transmit_changed p n s = (replan p n s)\<lparr>t_loc := AtReplan\<rparr>"

text \<open>\<open>publishes\<close> says which exports the kernel side may publish.\<close>

inductive tstep :: "ipnet_ops \<Rightarrow> config \<Rightarrow> peer \<Rightarrow> negotiated \<Rightarrow> (exports \<Rightarrow> bool) \<Rightarrow> tstate \<Rightarrow> tstate \<Rightarrow> bool"
  for N :: ipnet_ops and cfg :: config and p :: peer and n :: negotiated and publishes :: "exports \<Rightarrow> bool" where
  clock: "t_clock s \<le> t \<Longrightarrow> tstep N cfg p n publishes s (s\<lparr>t_clock := t\<rparr>)"
| published: "publishes ex \<Longrightarrow> tstep N cfg p n publishes s (s\<lparr>t_exports := send_replace ex (t_exports s)\<rparr>)"
| requested: "tstep N cfg p n publishes s (refresh_request v6 s)"
| replans: "t_loc s = AtReplan \<Longrightarrow> tstep N cfg p n publishes s (transmit_replan p n s)"
| refreshes: "t_loc s = AtRefresh \<Longrightarrow> tstep N cfg p n publishes s (transmit_refresh n s)"
| keepalive: "t_loc s = AtKeepalive \<Longrightarrow> transmit_keepalive n s = Ok s' \<Longrightarrow> tstep N cfg p n publishes s s'"
| batch: "t_loc s = AtBatch \<Longrightarrow> transmit_batch N cfg p n s = Ok s' \<Longrightarrow> tstep N cfg p n publishes s s'"
| changed: "t_loc s = AtWait \<Longrightarrow> t_seen s \<noteq> w_version (t_exports s) \<Longrightarrow>
    tstep N cfg p n publishes s (transmit_changed p n s)"
| woken: "t_loc s = AtWait \<Longrightarrow> tstep N cfg p n publishes s (s\<lparr>t_loc := AtReplan\<rparr>)"
| closes: "tstep N cfg p n publishes s (s\<lparr>t_loc := Closed\<rparr>)"

inductive treach :: "ipnet_ops \<Rightarrow> config \<Rightarrow> peer \<Rightarrow> negotiated \<Rightarrow> (exports \<Rightarrow> bool) \<Rightarrow> tstate \<Rightarrow> bool"
  for N :: ipnet_ops and cfg :: config and p :: peer and n :: negotiated and publishes :: "exports \<Rightarrow> bool" where
  start: "publishes (w_value ex) \<Longrightarrow> treach N cfg p n publishes (transmit_init now p n ex)"
| step: "treach N cfg p n publishes s \<Longrightarrow> tstep N cfg p n publishes s s' \<Longrightarrow> treach N cfg p n publishes s'"

text \<open>The routes the peer holds after reading the packets of a log.\<close>

definition rib_after :: "ip_net set \<Rightarrow> sent \<times> bytes \<Rightarrow> ip_net set" where
  "rib_after rib e = (case fst e of
     SentUpdate withdraw batch \<Rightarrow> if withdraw then rib - set batch else rib \<union> set batch
   | _ \<Rightarrow> rib)"

definition peer_rib :: "(sent \<times> bytes) list \<Rightarrow> ip_net set" where
  "peer_rib log = foldl rib_after {} log"

inductive_cases tstepE: "tstep N cfg p n publishes s s'"

section \<open>The invariant of a session\<close>

text \<open>What the encoder needs of a prefix, and what the policy demands of an announced one.\<close>

definition clean_net :: "ip_net \<Rightarrow> bool" where
  "clean_net q = (net_wf q \<and> net_mask q = q)"

definition permitted :: "ipnet_ops \<Rightarrow> config \<Rightarrow> peer \<Rightarrow> ip_net \<Rightarrow> bool" where
  "permitted N cfg p q = (clean_net q \<and> permits N (the (map_of (acls cfg) (export_acl p))) q)"

definition target_ok :: "ipnet_ops \<Rightarrow> config \<Rightarrow> peer \<Rightarrow> prefixes \<Rightarrow> bool" where
  "target_ok N cfg p target = (distinct target \<and> (\<forall>q \<in> set target. permitted N cfg p q))"

text \<open>A packet of the log: what the encoder made of a well-formed batch the policy allows.\<close>

definition entry_ok :: "ipnet_ops \<Rightarrow> config \<Rightarrow> peer \<Rightarrow> negotiated \<Rightarrow> sent \<times> bytes \<Rightarrow> bool" where
  "entry_ok N cfg p n e = (case fst e of
     SentUpdate withdraw batch \<Rightarrow> update N cfg p n batch withdraw = Ok (snd e) \<and> good_batch batch \<and>
       (\<forall>q \<in> set batch. clean_net q \<and> (\<not> withdraw \<longrightarrow> permitted N cfg p q \<and> neg_enabled n q))
   | SentKeepalive \<Rightarrow> frame KEEPALIVE [] = Ok (snd e)
   | SentEor v6 \<Rightarrow> end_of_rib v6 = Ok (snd e) \<and> (if v6 then neg_ipv6 n else neg_ipv4 n))"

definition tinv :: "ipnet_ops \<Rightarrow> config \<Rightarrow> peer \<Rightarrow> negotiated \<Rightarrow> tstate \<Rightarrow> bool" where
  "tinv N cfg p n s =
    (plan_ok n (t_advertised s) (t_target s) (t_plan s) \<and>
     (\<forall>q \<in> set (t_advertised s) \<union> set (withdrawals (t_plan s)). clean_net q) \<and>
     target_ok N cfg p (t_target s) \<and>
     peer_rib (t_log s) = set (t_advertised s) \<and>
     list_all (entry_ok N cfg p n) (t_log s) \<and>
     t_eor s AND family_bits n = t_eor s \<and>
     target_ok N cfg p (desired (export_acl p) (w_value (t_exports s))) \<and>
     t_seen s \<le> w_version (t_exports s) \<and>
     (t_seen s = w_version (t_exports s) \<longrightarrow> t_target s = desired (export_acl p) (w_value (t_exports s))) \<and>
     (t_loc s = AtWait \<longrightarrow> plan_next (t_plan s) = None \<and> t_eor s = 0))"

lemma peer_rib_snoc [simp]: "peer_rib (log @ [e]) = rib_after (peer_rib log) e"
  by (simp add: peer_rib_def)

lemma rib_after_simps [simp]:
  "rib_after rib (SentKeepalive, pkt) = rib"
  "rib_after rib (SentEor v6, pkt) = rib"
  "rib_after rib (SentUpdate w b, pkt) = (if w then rib - set b else rib \<union> set b)"
  by (simp_all add: rib_after_def)

lemma set_plan_new:
  "set (withdrawals (plan_new adv des n rep)) = {q \<in> set adv. q \<notin> set des \<or> \<not> neg_enabled n q}"
  "set (additions (plan_new adv des n rep)) = {q \<in> set des. neg_enabled n q \<and> (q \<in> set rep \<or> q \<notin> set adv)}"
  by (auto simp: plan_new_def)

lemma eor_family:
  assumes "eor AND family_bits n = eor" and "eor AND family_bit v6 \<noteq> 0"
  shows "if v6 then neg_ipv6 n else neg_ipv4 n"
proof -
  have "family_bits n AND family_bit v6 \<noteq> 0"
    using assms by (metis and.assoc and_zero_eq)
  then show ?thesis
    by (auto simp: family_bits_def family_bit_def split: if_splits)
qed

lemma tinv_init:
  "target_ok N cfg p (desired (export_acl p) (w_value ex)) \<Longrightarrow> tinv N cfg p n (transmit_init now p n ex)"
  using plan_new_ok [of n "[]" "desired (export_acl p) (w_value ex)" "[]"]
  by (simp add: tinv_def transmit_init_def Let_def set_plan_new peer_rib_def)

lemma tinv_replan:
  assumes "tinv N cfg p n s" and "l \<noteq> AtWait"
  shows "tinv N cfg p n ((replan p n s)\<lparr>t_loc := l\<rparr>)"
  using assms plan_new_ok by (auto simp: tinv_def replan_def Let_def set_plan_new)

lemma tinv_transmit_replan:
  assumes "tinv N cfg p n s"
  shows "tinv N cfg p n (transmit_replan p n s)"
  using assms tinv_replan [OF assms, of AtRefresh]
  by (cases "t_seen s \<noteq> w_version (t_exports s) \<and> t_clock s - t_last_replan s \<ge> 100")
    (auto simp: transmit_replan_def tinv_def)

lemma tinv_refresh:
  assumes "tinv N cfg p n s"
  shows "tinv N cfg p n (transmit_refresh n s)"
  using assms plan_new_ok by (auto simp: transmit_refresh_def tinv_def Let_def set_plan_new ac_simps)

lemma tinv_keepalive:
  assumes "tinv N cfg p n s" and "transmit_keepalive n s = Ok s'"
  shows "tinv N cfg p n s'"
  using assms
  by (auto simp: transmit_keepalive_def tinv_def bindr_eq_Ok entry_ok_def split: if_splits)

lemma send_eor_Ok:
  assumes "send_eor v6 s = Ok s'" and "tinv N cfg p n s"
  shows "tinv N cfg p n s' \<and> t_eor s' = t_eor s \<and> t_plan s' = t_plan s"
  using assms eor_family [of "t_eor s" n v6]
  by (auto simp: send_eor_def tinv_def bindr_eq_Ok entry_ok_def split: if_splits)

lemma tinv_batch_None:
  assumes "tinv N cfg p n s" and "transmit_batch N cfg p n s = Ok s'" and "plan_next (t_plan s) = None"
  shows "tinv N cfg p n s'"
proof -
  obtain s1 where s1: "s' = s1\<lparr>t_loc := AtWait\<rparr>" "tinv N cfg p n s1" "t_eor s1 = 0" "t_plan s1 = t_plan s"
  proof (cases "t_eor s = 0")
    case True
    with assms that show ?thesis by (auto simp: transmit_batch_def)
  next
    case False
    with assms obtain s2 s3 where "send_eor False s = Ok s2" "send_eor True s2 = Ok s3"
        "s' = s3\<lparr>t_eor := 0, t_loc := AtWait\<rparr>"
      by (auto simp: transmit_batch_def bindr_eq_Ok)
    moreover from this send_eor_Ok assms(1) have "tinv N cfg p n s3" "t_plan s3 = t_plan s"
      by (metis, metis)
    ultimately show ?thesis
      using that [of "s3\<lparr>t_eor := 0\<rparr>"] by (auto simp: tinv_def)
  qed
  then show ?thesis using assms(3) by (auto simp: tinv_def)
qed

lemma tinv_batch_Some:
  assumes "tinv N cfg p n s" and "transmit_batch N cfg p n s = Ok s'" and "plan_next (t_plan s) = Some ((w, b), pl)"
  shows "tinv N cfg p n s'"
proof -
  obtain pkt where upd: "update N cfg p n b w = Ok pkt" and s': "s' = s\<lparr>t_plan := pl,
      t_log := t_log s @ [(SentUpdate w b, pkt)], t_replay := forget_replay b (t_replay s),
      t_advertised := record_batch w b (t_advertised s), t_loc := AtReplan\<rparr>"
    using assms(2,3) by (auto simp: transmit_batch_def bindr_eq_Ok)
  have po: "plan_ok n (t_advertised s) (t_target s) (t_plan s)"
    using assms(1) by (simp add: tinv_def)
  have ok: "plan_ok n (record_batch w b (t_advertised s)) (t_target s) pl"
      "if w then set b \<inter> wanted n (t_target s) = {} else set b \<subseteq> wanted n (t_target s)"
    using plan_next_ok [OF po assms(3)] by blast+
  note nxt = plan_next_Some [OF assms(3)]
  have "\<forall>q \<in> set (t_target s). permitted N cfg p q"
    using assms(1) by (simp add: tinv_def target_ok_def)
  with ok(2) have perm: "\<not> w \<Longrightarrow> \<forall>q \<in> set b. permitted N cfg p q \<and> neg_enabled n q"
    unfolding wanted_def by auto
  then have clean: "\<forall>q \<in> set b. clean_net q" "\<forall>q \<in> set (withdrawals pl). clean_net q"
    using assms(1) nxt by (auto simp: tinv_def permitted_def split: if_splits)
  moreover have "entry_ok N cfg p n (SentUpdate w b, pkt)"
    using upd nxt perm clean by (auto simp: entry_ok_def)
  ultimately show ?thesis
    using assms(1) ok(1) by (auto simp: s' tinv_def set_record_batch)
qed

lemma tinv_batch:
  assumes "tinv N cfg p n s" and "transmit_batch N cfg p n s = Ok s'"
  shows "tinv N cfg p n s'"
proof (cases "plan_next (t_plan s)")
  case None
  then show ?thesis by (rule tinv_batch_None [OF assms])
next
  case (Some r)
  then obtain w b pl where "plan_next (t_plan s) = Some ((w, b), pl)" by (metis surj_pair)
  then show ?thesis by (rule tinv_batch_Some [OF assms])
qed

lemma tinv_env:
  assumes "tinv N cfg p n s"
  shows "tinv N cfg p n (s\<lparr>t_clock := t\<rparr>)" and "tinv N cfg p n (refresh_request v6 s)"
    and "l \<noteq> AtWait \<Longrightarrow> tinv N cfg p n (s\<lparr>t_loc := l\<rparr>)"
  using assms by (simp_all add: tinv_def refresh_request_def)

text \<open>
  What a session relies on: an implementation of the crate \<open>ipnet\<close>, and a kernel side that
  publishes only export sets the ACLs permit.
\<close>

locale export_channel = ipnet N for N :: ipnet_ops +
  fixes cfg :: config and publishes :: "exports \<Rightarrow> bool"
  assumes publishes_ok: "publishes ex \<Longrightarrow> export_ok N cfg ex"
begin

lemma desired_ok: "publishes ex \<Longrightarrow> target_ok N cfg p (desired (export_acl p) ex)"
  using publishes_ok [of ex]
  by (auto simp: desired_def target_ok_def permitted_def clean_net_def export_ok_def unwrap_or_def split: option.split)

lemma tinv_step:
  assumes "tstep N cfg p n publishes s s'" and "tinv N cfg p n s"
  shows "tinv N cfg p n s'"
  using assms
proof cases
  case (published ex)
  with assms(2) desired_ok [of ex p] show ?thesis by (auto simp: tinv_def send_replace_def)
next
  case changed
  with assms(2) tinv_replan show ?thesis by (auto simp: transmit_changed_def)
qed (use assms(2) in \<open>auto intro: tinv_transmit_replan tinv_refresh tinv_keepalive tinv_batch tinv_env\<close>)

lemma tinv_reach: "treach N cfg p n publishes s \<Longrightarrow> tinv N cfg p n s"
  by (induction rule: treach.induct) (auto intro: tinv_init desired_ok tinv_step)

end

text \<open>The kernel side of the program is such a channel.\<close>

definition kernel_publishes :: "ipnet_ops \<Rightarrow> bool \<Rightarrow> config \<Rightarrow> exports \<Rightarrow> bool" where
  "kernel_publishes N le cfg ex = (\<exists>s. kreach N le cfg s \<and> w_value (k_tx s) = ex)"

lemma kernel_channel:
  assumes "ipnet N"
  shows "export_channel N cfg (kernel_publishes N le cfg)"
proof (intro export_channel.intro export_channel_axioms.intro assms)
  fix ex
  assume "kernel_publishes N le cfg ex"
  then obtain s where s: "kreach N le cfg s" "w_value (k_tx s) = ex"
    by (auto simp: kernel_publishes_def)
  from kreach_inv [OF s(1)] s(2) have "exported_from N le cfg ex"
    by (simp add: kinv_def)
  then show "export_ok N cfg ex" by (rule exported_from_ok [OF assms])
qed

interpretation kernel_side: export_channel ipnet_ref cfg "kernel_publishes ipnet_ref le cfg" for le cfg
  by (rule kernel_channel) (rule ref.ipnet_axioms)

lemma session_inv:
  "ipnet N \<Longrightarrow> treach N cfg p n (kernel_publishes N le cfg) s \<Longrightarrow> tinv N cfg p n s"
  using export_channel.tinv_reach [OF kernel_channel] by blast

section \<open>Encoding the batches\<close>

lemma next_hop_enabled:
  assumes "peer_ok cfg p" and "neg_wf cfg p n" and "neg_enabled n q"
  shows "next_hop_ok p (is_v6 q)"
  using assms by (cases q) (auto simp: neg_enabled_def neg_wf_def peer_ok_def next_hop_ok_def is_v6_def)

lemma batch_encodes:
  assumes "ipnet N" and "peer_ok cfg p" and "neg_wf cfg p n" and "good_batch b" and "\<forall>q \<in> set b. clean_net q"
    and "\<not> w \<Longrightarrow> \<forall>q \<in> set b. neg_enabled n q"
  shows "\<exists>pkt body. update N cfg p n b w = Ok pkt \<and> length pkt \<le> 4096 \<and>
    read_frame (pkt @ rest) = Ok ((UPDATE, body), rest) \<and> validate_update body n = Ok Valid \<and>
    update_prefixes N body = Ok (if w then [] else b)"
proof -
  let ?v6 = "is_v6 (hd b)"
  have "hd b \<in> set b" using assms(4) by (simp add: good_batch_def)
  then have nh: "next_hop_ok p ?v6" if "\<not> w"
    using next_hop_enabled [OF assms(2,3)] assms(6) that by blast
  have "list_all net_wf b" using assms(5) by (simp add: list_all_iff clean_net_def)
  moreover have "list_all (\<lambda>q. is_ipv6 (net_addr q) = ?v6) b"
    using assms(4) unfolding good_batch_def is_v6_def by blast
  moreover have "\<not> w \<Longrightarrow> if ?v6 then nh6 p \<noteq> None else nh4 p \<noteq> None"
    using nh by (auto simp: next_hop_ok_def)
  ultimately have "batch_ok p ?v6 w b"
    using assms(4) unfolding batch_ok_def good_batch_def by blast
  moreover have "internal n = (asn cfg = remote_asn p)"
    using assms(3) by (simp add: neg_wf_def)
  moreover have "map (net_trunc N) b = b"
    using assms(5) ipnet.trunc_spec [OF assms(1)] by (auto simp: clean_net_def intro: map_idI)
  ultimately show ?thesis
    using ipnet.own_update [OF assms(1), of p ?v6 w b n cfg rest, OF _ _ nh] by metis
qed

lemma frame_keepalive: "frame KEEPALIVE [] = Ok (frame_bytes (KEEPALIVE, []))"
  by (rule frame_bytes_Ok) (simp add: body_ok_def valid_length_def KEEPALIVE_def MAX_MESSAGE_def)

lemma end_of_rib_Ok: "end_of_rib v6 = Ok (frame_bytes (UPDATE, end_of_rib_body v6))"
  unfolding end_of_rib_def
  by (rule frame_bytes_Ok) (simp add: body_ok_def valid_length_def UPDATE_def MAX_MESSAGE_def end_of_rib_body_def)

lemma send_eor_total: "\<exists>s'. send_eor v6 s = Ok s'"
  by (simp add: send_eor_def end_of_rib_Ok)

lemma transmit_batch_total:
  assumes "ipnet N" and "peer_ok cfg p" and "neg_wf cfg p n" and "tinv N cfg p n s"
  shows "\<exists>s'. transmit_batch N cfg p n s = Ok s'"
proof (cases "plan_next (t_plan s)")
  case None
  obtain s1 where s1: "send_eor False s = Ok s1" using send_eor_total by blast
  obtain s2 where "send_eor True s1 = Ok s2" using send_eor_total by blast
  with None s1 show ?thesis by (simp add: transmit_batch_def)
next
  case (Some r)
  then obtain w b pl where nxt: "plan_next (t_plan s) = Some ((w, b), pl)" by (metis surj_pair)
  have po: "plan_ok n (t_advertised s) (t_target s) (t_plan s)"
    using assms(4) by (simp add: tinv_def)
  have "\<forall>q \<in> set b. neg_enabled n q" if "\<not> w"
    using plan_next_ok [OF po nxt] that by (auto simp: wanted_def)
  moreover have "\<forall>q \<in> set b. clean_net q"
    using assms(4) plan_next_Some [OF nxt] plan_next_ok [OF po nxt]
    by (auto simp: tinv_def wanted_def target_ok_def permitted_def split: if_splits)
  ultimately obtain pkt where "update N cfg p n b w = Ok pkt"
    using batch_encodes [OF assms(1-3)] plan_next_Some [OF nxt] by blast
  with nxt show ?thesis by (simp add: transmit_batch_def)
qed

section \<open>An example session\<close>

definition example_neg :: negotiated where
  "example_neg = \<lparr>neg_router_id = 0xC0000202, hold = 30, asn4 = True, internal = False,
     neg_ipv4 = True, neg_ipv6 = False\<rparr>"

definition example_start :: tstate where
  "example_start = transmit_init 0 example_peer example_neg
     \<lparr>w_value = [(''export'', [NetV4 0xC6336400 24])], w_version = 1\<rparr>"

text \<open>The session after its first packet.\<close>

definition example_sent :: "bytes \<Rightarrow> tstate" where
  "example_sent pkt = example_start\<lparr>t_plan := \<lparr>withdrawals = [], additions = []\<rparr>,
     t_log := [(SentUpdate False [NetV4 0xC6336400 24], pkt)], t_replay := [],
     t_advertised := [NetV4 0xC6336400 24], t_loc := AtReplan\<rparr>"

lemma example_neg_wf: "neg_wf example_config example_peer example_neg"
  by (simp add: neg_wf_def example_neg_def example_defs word_le_nat_alt)

lemma example_peer_ok: "peer_ok example_config example_peer"
  using config_ok_peer [OF example_config_ok, of example_peer] by (simp add: example_config_def)

lemma example_start_reach:
  "treach ipnet_ref example_config example_peer example_neg (kernel_publishes ipnet_ref True example_config) example_start"
  unfolding example_start_def
  using published_example_reach published_example_value
  by (intro treach.start) (auto simp: kernel_publishes_def)

lemma example_to_batch:
  assumes "treach N cfg p n P s" and "t_loc s = AtReplan" and "t_seen s = w_version (t_exports s)" and "t_eor s \<noteq> 0"
    and "t_clock s < t_next_keepalive s"
  shows "treach N cfg p n P (s\<lparr>t_loc := AtBatch\<rparr>)"
proof -
  have "treach N cfg p n P (s\<lparr>t_loc := AtRefresh\<rparr>)"
    using treach.step [OF assms(1) tstep.replans] assms(2,3) by (simp add: transmit_replan_def)
  from treach.step [OF this tstep.refreshes] assms(4)
  have "treach N cfg p n P (s\<lparr>t_loc := AtKeepalive\<rparr>)"
    by (simp add: transmit_refresh_def)
  from treach.step [OF this tstep.keepalive, of "s\<lparr>t_loc := AtBatch\<rparr>"] assms(5)
  show ?thesis by (simp add: transmit_keepalive_def)
qed

lemma example_batch:
  "\<exists>pkt. treach ipnet_ref example_config example_peer example_neg (kernel_publishes ipnet_ref True example_config)
     (example_sent pkt)"
proof -
  let ?q = "NetV4 0xC6336400 24"
  let ?reach = "treach ipnet_ref example_config example_peer example_neg (kernel_publishes ipnet_ref True example_config)"
  have plan: "t_plan example_start = \<lparr>withdrawals = [], additions = [?q]\<rparr>"
    by (simp add: example_start_def transmit_init_def desired_def plan_new_def example_peer_def neg_enabled_def
        example_neg_def Let_def)
  have init: "t_replay example_start = []" "t_log example_start = []" "t_advertised example_start = []"
      "t_loc example_start = AtReplan"
    by (simp_all add: example_start_def transmit_init_def Let_def)
  have start: "?reach (example_start\<lparr>t_loc := AtBatch\<rparr>)"
    by (rule example_to_batch [OF example_start_reach])
      (simp_all add: example_start_def transmit_init_def Let_def family_bits_def example_neg_def keepalive_ms_def)
  have nxt: "plan_next \<lparr>withdrawals = [], additions = [?q]\<rparr> = Some ((False, [?q]), \<lparr>withdrawals = [], additions = []\<rparr>)"
    by (simp add: plan_next_def MAX_UPDATE_PREFIXES_def)
  obtain s' where s': "transmit_batch ipnet_ref example_config example_peer example_neg (example_start\<lparr>t_loc := AtBatch\<rparr>) = Ok s'"
    using transmit_batch_total [OF ref.ipnet_axioms example_peer_ok example_neg_wf
        session_inv [OF ref.ipnet_axioms start]] by blast
  from treach.step [OF start tstep.batch [OF _ s']] have "?reach s'" by simp
  moreover from s' obtain pkt where "s' = example_sent pkt"
    by (auto simp: transmit_batch_def plan init nxt bindr_eq_Ok record_batch_def forget_replay_def example_sent_def)
  ultimately show ?thesis by auto
qed

lemma example_synced:
  "\<exists>s. treach ipnet_ref example_config example_peer example_neg (kernel_publishes ipnet_ref True example_config) s \<and>
     t_loc s = AtWait \<and> t_seen s = w_version (t_exports s) \<and> w_value (t_exports s) = [(''export'', [NetV4 0xC6336400 24])]"
proof -
  obtain pkt where reach: "treach ipnet_ref example_config example_peer example_neg (kernel_publishes ipnet_ref True example_config)
     (example_sent pkt)"
    using example_batch by blast
  have start: "treach ipnet_ref example_config example_peer example_neg (kernel_publishes ipnet_ref True example_config)
      (example_sent pkt\<lparr>t_loc := AtBatch\<rparr>)"
    by (rule example_to_batch [OF reach])
      (simp_all add: example_sent_def example_start_def transmit_init_def Let_def family_bits_def example_neg_def keepalive_ms_def)
  obtain s' where s': "transmit_batch ipnet_ref example_config example_peer example_neg (example_sent pkt\<lparr>t_loc := AtBatch\<rparr>) = Ok s'"
    using transmit_batch_total [OF ref.ipnet_axioms example_peer_ok example_neg_wf
        session_inv [OF ref.ipnet_axioms start]] by blast
  from treach.step [OF start tstep.batch [OF _ s']] have "treach ipnet_ref example_config example_peer example_neg
      (kernel_publishes ipnet_ref True example_config) s'" by simp
  moreover from s' have "t_loc s' = AtWait \<and> t_seen s' = w_version (t_exports s') \<and>
      w_value (t_exports s') = [(''export'', [NetV4 0xC6336400 24])]"
    by (auto simp: transmit_batch_def plan_next_None [THEN iffD2] bindr_eq_Ok send_eor_def example_sent_def
        example_start_def transmit_init_def Let_def split: if_splits)
  ultimately show ?thesis by blast
qed

section \<open>Properties\<close>

text \<open>
  C4: End to end, only permitted routes are announced. In every state of a session whose exports
  come from the kernel side, every prefix of every announcement ever written was permitted by the
  peer's export ACL, belongs to a family the session negotiated, and has its host bits cleared.
\<close>

theorem announced_only_permitted:
  assumes "ipnet N" and "treach N cfg p n (kernel_publishes N le cfg) s"
    and "(SentUpdate False batch, pkt) \<in> set (t_log s)" and "q \<in> set batch"
  shows "permits N (the (map_of (acls cfg) (export_acl p))) q \<and> neg_enabled n q \<and> net_wf q \<and> net_trunc N q = q"
proof -
  have "entry_ok N cfg p n (SentUpdate False batch, pkt)"
    using session_inv [OF assms(1,2)] assms(3) by (auto simp: tinv_def list_all_iff)
  with assms(4) have "permitted N cfg p q" "neg_enabled n q" by (auto simp: entry_ok_def)
  then show ?thesis
    using ipnet.trunc_spec [OF assms(1), of q] by (simp add: permitted_def clean_net_def)
qed

theorem announced_only_permitted_witness:
  "permits ipnet_ref (the (map_of (acls example_config) (export_acl example_peer))) (NetV4 0xC6336400 24)"
proof -
  obtain pkt where "treach ipnet_ref example_config example_peer example_neg (kernel_publishes ipnet_ref True example_config)
     (example_sent pkt)"
    using example_batch by blast
  from announced_only_permitted [OF ref.ipnet_axioms this, of "[NetV4 0xC6336400 24]" pkt "NetV4 0xC6336400 24"]
  show ?thesis by (simp add: example_sent_def)
qed

text \<open>
  C5: The peer is kept in step with the kernel. In every state of a session the routes the peer
  holds are exactly the ones recorded as advertised; and whenever the session is idle and has seen
  the latest exports, they are exactly the exported prefixes of the negotiated families.
\<close>

theorem peer_in_step:
  assumes "ipnet N" and "treach N cfg p n (kernel_publishes N le cfg) s"
  shows "peer_rib (t_log s) = set (t_advertised s) \<and>
    (t_loc s = AtWait \<and> t_seen s = w_version (t_exports s) \<longrightarrow>
      peer_rib (t_log s) = {q \<in> set (desired (export_acl p) (w_value (t_exports s))). neg_enabled n q})"
proof -
  have inv: "tinv N cfg p n s" by (rule session_inv [OF assms])
  then have rib: "peer_rib (t_log s) = set (t_advertised s)" by (simp add: tinv_def)
  moreover have "set (t_advertised s) = wanted n (t_target s)" if "t_loc s = AtWait"
    using inv that plan_done [of n "t_advertised s" "t_target s" "t_plan s"] by (simp add: tinv_def)
  moreover have "t_target s = desired (export_acl p) (w_value (t_exports s))" if "t_seen s = w_version (t_exports s)"
    using inv that by (simp add: tinv_def)
  ultimately show ?thesis by (simp add: wanted_def)
qed

theorem peer_in_step_witness:
  "\<exists>s. treach ipnet_ref example_config example_peer example_neg (kernel_publishes ipnet_ref True example_config) s \<and>
     peer_rib (t_log s) = {NetV4 0xC6336400 24}"
proof -
  obtain s where s: "treach ipnet_ref example_config example_peer example_neg (kernel_publishes ipnet_ref True example_config) s"
      "t_loc s = AtWait" "t_seen s = w_version (t_exports s)" "w_value (t_exports s) = [(''export'', [NetV4 0xC6336400 24])]"
    using example_synced by blast
  from peer_in_step [OF ref.ipnet_axioms s(1)] s(2-4) have "peer_rib (t_log s) = {NetV4 0xC6336400 24}"
    by (auto simp: desired_def example_peer_def neg_enabled_def example_neg_def)
  with s(1) show ?thesis by blast
qed

text \<open>
  C20: A session never panics while it writes: with a validated peer and a negotiated session, the
  KEEPALIVE, the next batch or the End-of-RIB markers are encoded in every reachable state.
\<close>

theorem session_never_panics:
  assumes "ipnet N" and "peer_ok cfg p" and "neg_wf cfg p n" and "treach N cfg p n (kernel_publishes N le cfg) s"
  shows "(\<exists>s'. transmit_batch N cfg p n s = Ok s') \<and> (\<exists>s'. transmit_keepalive n s = Ok s')"
  using transmit_batch_total [OF assms(1-3) session_inv [OF assms(1,4)]]
  by (simp add: transmit_keepalive_def frame_keepalive)

theorem session_never_panics_witness:
  "\<exists>s'. transmit_batch ipnet_ref example_config example_peer example_neg example_start = Ok s'"
  using session_never_panics [OF ref.ipnet_axioms example_peer_ok example_neg_wf example_start_reach] by blast



end
