(* ===== verification/Receive.thy ===== *)
theory Receive
  imports Transmit
begin

text \<open>
  The receive half of an established session in \<open>src/bgp.rs\<close>: the loop that reads and checks
  inbound messages, keeps the hold timer and passes on route refresh requests, and the report of
  the error that ends it.

  The reader is the whole byte stream the peer sends before it closes the connection. A script
  gives, for each read, the instant at which it completes (with a message, a framing error or
  the end of the stream) and the instant at which the message has been handled; as documented for
  \<open>timeout_at\<close>, a read under a deadline yields its result when it completes by the deadline and
  the timer otherwise. Instants are milliseconds. The log of handled messages is kept for the
  properties only.
\<close>

section \<open>Definitions\<close>

record rstate =
  r_expires :: nat
  r_requests :: "bool list"
  r_log :: "(nat \<times> u8 \<times> bytes) list"

definition hold_ms :: "negotiated \<Rightarrow> nat" where
  "hold_ms n = 1000 * unat (hold n)"

definition hold_expired :: error where
  "hold_expired = Protocol \<lparr>pe_code = 4, pe_subcode = 0, pe_data = [], pe_reason = ''hold timer expired''\<rparr>"

definition receive_init :: "nat \<Rightarrow> negotiated \<Rightarrow> rstate" where
  "receive_init now n = \<lparr>r_expires = now + hold_ms n, r_requests = [], r_log = []\<rparr>"

text \<open>The fields of the warning about a recovered UPDATE, which the program computes to log them.\<close>

definition warn_fields :: "ipnet_ops \<Rightarrow> bytes \<Rightarrow> (error, unit) outcome" where
  "warn_fields N body = bindr (update_prefixes N body) (\<lambda>_. bindr (frame UPDATE body) (\<lambda>_. Ok ()))"

text \<open>The \<open>match\<close> on the kind of a message that was handled at \<open>now\<close>.\<close>

definition receive_packet :: "ipnet_ops \<Rightarrow> negotiated \<Rightarrow> nat \<Rightarrow> u8 \<times> bytes \<Rightarrow> rstate \<Rightarrow> (error, rstate) outcome" where
  "receive_packet N n now packet st =
    (let (kind, body) = packet; st = st\<lparr>r_log := r_log st @ [(now, kind, body)]\<rparr> in
     if kind = KEEPALIVE then Ok (st\<lparr>r_expires := now + hold_ms n\<rparr>)
     else if kind = UPDATE then
       bindr (validate_update body n) (\<lambda>action.
       bindr (if action \<noteq> Valid then warn_fields N body else Ok ()) (\<lambda>_.
       Ok (st\<lparr>r_expires := now + hold_ms n\<rparr>)))
     else if kind = ROUTE_REFRESH then
       bindr (refresh_family body n) (\<lambda>family.
       case family of
         Some v6 \<Rightarrow> Ok (st\<lparr>r_requests := r_requests st @ [v6]\<rparr>)
       | None \<Rightarrow> Ok st)
     else Err (unexpected Established kind body))"

text \<open>The loop; it is still running when the script is used up.\<close>

fun receive :: "ipnet_ops \<Rightarrow> negotiated \<Rightarrow> (nat \<times> nat) list \<Rightarrow> bytes \<Rightarrow> rstate \<Rightarrow> (error, rstate \<times> bytes) outcome" where
  "receive N n [] reader st = Ok (st, reader)"
| "receive N n ((ready, now) # script) reader st =
    (if hold n \<noteq> 0 \<and> r_expires st < ready then Err hold_expired
     else
     bindr (read_frame reader) (\<lambda>(packet, reader).
     bindr (receive_packet N n now packet st) (\<lambda>st.
     receive N n script reader st)))"

text \<open>The NOTIFICATION for an error, if it is one the peer is told about.\<close>

definition report :: "error \<Rightarrow> (error, bytes option) outcome" where
  "report e = (case e of
     Protocol pe \<Rightarrow> bindr (notification (pe_code pe) (pe_subcode pe) (pe_data pe)) (\<lambda>pkt. Ok (Some pkt))
   | _ \<Rightarrow> Ok None)"

section \<open>Library lemmas\<close>

text \<open>The last sign of life in a log: the last KEEPALIVE or UPDATE, or the start.\<close>

definition alive :: "u8 \<Rightarrow> bool" where
  "alive kind = (kind = KEEPALIVE \<or> kind = UPDATE)"

definition last_alive :: "nat \<Rightarrow> (nat \<times> u8 \<times> bytes) list \<Rightarrow> nat" where
  "last_alive start log = last (start # map fst (filter (\<lambda>(_, kind, _). alive kind) log))"

text \<open>What the messages of a log ask the writer to replay.\<close>

definition refreshes :: "negotiated \<Rightarrow> nat \<times> u8 \<times> bytes \<Rightarrow> bool list" where
  "refreshes n m = (case m of (_, kind, body) \<Rightarrow>
     if kind = ROUTE_REFRESH then (case refresh_family body n of Ok (Some v6) \<Rightarrow> [v6] | _ \<Rightarrow> []) else [])"

lemma last_alive_snoc [simp]:
  "last_alive start (log @ [(now, kind, body)]) = (if alive kind then now else last_alive start log)"
  by (simp add: last_alive_def)

lemma kinds_distinct [simp]: "\<not> alive ROUTE_REFRESH" "KEEPALIVE \<noteq> ROUTE_REFRESH" "UPDATE \<noteq> ROUTE_REFRESH" "KEEPALIVE \<noteq> UPDATE"
  "ROUTE_REFRESH \<noteq> KEEPALIVE" "ROUTE_REFRESH \<noteq> UPDATE" "UPDATE \<noteq> KEEPALIVE" "alive KEEPALIVE" "alive UPDATE"
  by (simp_all add: alive_def KEEPALIVE_def UPDATE_def ROUTE_REFRESH_def)

lemma refresh_family_no_panic [no_panic]: "refresh_family b n \<noteq> Panic"
  by (auto simp: refresh_family_def checked_eq_Panic u16b_eq_Panic split: if_splits)

lemma refresh_family_error: "refresh_family b n = Err e \<Longrightarrow> e = InvalidRefreshLength"
  by (auto simp: refresh_family_def bindr_eq_Err split: if_splits)

text \<open>What handling one message does to the state.\<close>

lemma receive_packet_cases:
  assumes "receive_packet N n now (kind, body) st = Ok st'"
  obtains "alive kind" "st' = st\<lparr>r_log := r_log st @ [(now, kind, body)], r_expires := now + hold_ms n\<rparr>"
  | family where "kind = ROUTE_REFRESH" "refresh_family body n = Ok family"
      "st' = st\<lparr>r_log := r_log st @ [(now, kind, body)], r_requests := r_requests st @ (case family of Some v6 \<Rightarrow> [v6] | None \<Rightarrow> [])\<rparr>"
proof (cases "alive kind")
  case True
  with assms have "st' = st\<lparr>r_log := r_log st @ [(now, kind, body)], r_expires := now + hold_ms n\<rparr>"
    by (auto simp: receive_packet_def Let_def bindr_eq_Ok alive_def split: if_splits)
  with True that(1) show ?thesis by blast
next
  case False
  then have "kind \<noteq> KEEPALIVE" "kind \<noteq> UPDATE" by (simp_all add: alive_def)
  with assms obtain family where "kind = ROUTE_REFRESH" "refresh_family body n = Ok family"
      "(case family of Some v6 \<Rightarrow> Ok (st\<lparr>r_log := r_log st @ [(now, kind, body)], r_requests := r_requests st @ [v6]\<rparr>)
        | None \<Rightarrow> Ok (st\<lparr>r_log := r_log st @ [(now, kind, body)]\<rparr>)) = (Ok st' :: (error, rstate) outcome)"
    by (auto simp: receive_packet_def Let_def bindr_eq_Ok split: if_splits)
  with that(2) show ?thesis by (cases family) auto
qed

lemma receive_packet_Ok:
  assumes "receive_packet N n now (kind, body) st = Ok st'"
  shows "r_log st' = r_log st @ [(now, kind, body)]"
    and "r_requests st' = r_requests st @ refreshes n (now, kind, body)"
    and "r_expires st' = (if alive kind then now + hold_ms n else r_expires st)"
  using assms
  by (cases rule: receive_packet_cases; auto simp: refreshes_def alive_def split: option.splits)+

text \<open>The state of the loop follows from the messages it handled.\<close>

lemma receive_log:
  assumes "receive N n script reader st = Ok (st', rest)"
    and "r_expires st = last_alive start (r_log st) + hold_ms n" and "r_requests st = concat (map (refreshes n) (r_log st))"
  shows "r_expires st' = last_alive start (r_log st') + hold_ms n \<and>
    r_requests st' = concat (map (refreshes n) (r_log st')) \<and>
    (\<exists>ms. r_log st' = r_log st @ ms \<and> reader = concat (map (\<lambda>(_, kind, body). frame_bytes (kind, body)) ms) @ rest)"
  using assms
proof (induction script arbitrary: reader st)
  case Nil
  then show ?case by simp
next
  case (Cons a script)
  obtain ready now where a: "a = (ready, now)" by fastforce
  from Cons.prems(1) a obtain kind body reader' st1 where
      f: "read_frame reader = Ok ((kind, body), reader')" and p: "receive_packet N n now (kind, body) st = Ok st1"
      and r: "receive N n script reader' st1 = Ok (st', rest)"
    by (auto simp: bindr_eq_Ok split: if_splits)
  note st1 = receive_packet_Ok [OF p]
  have "reader = frame_bytes (kind, body) @ reader'"
    using read_frame_inverse [OF f] by (metis frame_bytes_Ok outcome.inject(1))
  moreover have inv: "r_expires st1 = last_alive start (r_log st1) + hold_ms n"
      "r_requests st1 = concat (map (refreshes n) (r_log st1))"
    using st1 Cons.prems(2,3) by simp_all
  from Cons.IH [OF r inv] obtain ms where "r_log st' = r_log st1 @ ms"
      "reader' = concat (map (\<lambda>(_, kind, body). frame_bytes (kind, body)) ms) @ rest"
      "r_expires st' = last_alive start (r_log st') + hold_ms n" "r_requests st' = concat (map (refreshes n) (r_log st'))"
    by blast
  ultimately show ?case
    using st1(1) by (intro conjI exI [of _ "(now, kind, body) # ms"]) simp_all
qed

lemma receive_append:
  "receive N n (script @ [step]) reader st = bindr (receive N n script reader st) (\<lambda>(st, reader). receive N n [step] reader st)"
proof (induction script arbitrary: reader st)
  case (Cons a script)
  then show ?case by (cases a) (simp add: bindr_assoc split_def cong: bindr_cong)
qed simp

lemma receive_init_log:
  assumes "receive N n script reader (receive_init start n) = Ok (st, rest)"
  shows "r_expires st = last_alive start (r_log st) + hold_ms n"
    and "r_requests st = concat (map (refreshes n) (r_log st))"
    and "reader = concat (map (\<lambda>(_, kind, body). frame_bytes (kind, body)) (r_log st)) @ rest"
  using receive_log [OF assms, of start] by (simp_all add: receive_init_def last_alive_def)

text \<open>The errors that can end the loop.\<close>

definition receive_error :: "error \<Rightarrow> bool" where
  "receive_error e = (case e of Protocol pe \<Rightarrow> pe_code pe \<in> {1, 3, 5} | _ \<Rightarrow> True)"

lemma read_frame_error: "read_frame s = Err e \<Longrightarrow> receive_error e"
  unfolding read_frame_def
  by (auto simp: bindr_eq_Err read_exact_def err_def receive_error_def Let_def split: if_splits)

lemma receive_packet_error: "receive_packet N n now (kind, body) st = Err e \<Longrightarrow> ipnet N \<Longrightarrow> receive_error e"
  using ipnet.update_prefixes_Ok [of N body]
  by (auto simp: receive_packet_def warn_fields_def Let_def bindr_eq_Err unexpected_def receive_error_def update_error_def
      frame_def assert_that_def dest!: validate_update_error refresh_family_error split: if_splits option.splits)

lemma receive_packet_no_panic:
  assumes "ipnet N" and "body_ok kind body"
  shows "receive_packet N n now (kind, body) st \<noteq> Panic"
proof -
  have "warn_fields N body \<noteq> Panic"
    using ipnet.update_prefixes_Ok [OF assms(1), of body] assms(2)
    by (auto simp: warn_fields_def bindr_eq_Panic body_ok_def frame_Ok)
  then show ?thesis
    by (auto simp: receive_packet_def Let_def bindr_eq_Panic validate_update_no_panic refresh_family_no_panic split: option.splits)
qed

lemma receive_no_panic: "ipnet N \<Longrightarrow> receive N n script reader st \<noteq> Panic"
proof (induction script arbitrary: reader st)
  case (Cons a script)
  obtain ready now where a: "a = (ready, now)" by fastforce
  show ?case
  proof
    assume "receive N n (a # script) reader st = Panic"
    then obtain kind body rest where f: "read_frame reader = Ok ((kind, body), rest)"
        and "receive_packet N n now (kind, body) st = Panic \<or> (\<exists>st'. receive N n script rest st' = Panic)"
      unfolding a by (fastforce simp: bindr_eq_Panic read_frame_no_panic split: if_splits)
    with Cons receive_packet_no_panic [of N kind body n now st] read_frame_inverse [OF f] show False by auto
  qed
qed simp

text \<open>A session that has read one KEEPALIVE and one IPv4 refresh request.\<close>

definition example_input :: bytes where
  "example_input = frame_bytes (KEEPALIVE, []) @ frame_bytes (ROUTE_REFRESH, [0, 1, 0, 1])"

lemma example_receive:
  "receive ipnet_ref example_neg [(5, 6), (7, 8)] example_input (receive_init 0 example_neg) =
    Ok (\<lparr>r_expires = 6 + hold_ms example_neg, r_requests = [False],
      r_log = [(6, KEEPALIVE, []), (8, ROUTE_REFRESH, [0, 1, 0, 1])]\<rparr>, [])"
proof -
  have k: "read_frame example_input = Ok ((KEEPALIVE, []), frame_bytes (ROUTE_REFRESH, [0, 1, 0, 1]))"
    unfolding example_input_def
    by (rule read_frame_bytes) (simp add: body_ok_def valid_length_def KEEPALIVE_def MAX_MESSAGE_def)
  have r: "read_frame (frame_bytes (ROUTE_REFRESH, [0, 1, 0, 1]) @ []) = Ok ((ROUTE_REFRESH, [0, 1, 0, 1]), [])"
    by (rule read_frame_bytes) (simp add: body_ok_def valid_length_def ROUTE_REFRESH_def MAX_MESSAGE_def)
  have f: "refresh_family [0, 1, 0, 1] example_neg = Ok (Some False)"
    by (simp add: refresh_family_def index_def u16b_def be_value_def example_neg_def)
  show ?thesis
    using r by (simp add: k f receive_packet_def receive_init_def) (simp add: hold_ms_def example_neg_def)
qed

section \<open>Properties\<close>

text \<open>
  C18: The hold timer is exact. When a session has handled some messages, its deadline lies one
  hold time after the last KEEPALIVE or UPDATE (or after the start when there was none; route
  refresh requests do not count). If the hold time is nonzero and the next message is not complete
  by the deadline, the session ends with the hold timer error; otherwise the timer does not end it.
\<close>

theorem receive_hold_timer:
  assumes "ipnet N" and "receive N n script reader (receive_init start n) = Ok (st, rest)"
  shows "r_expires st = last_alive start (r_log st) + 1000 * unat (hold n) \<and>
    (receive N n (script @ [(ready, now)]) reader (receive_init start n) = Err hold_expired \<longleftrightarrow>
      hold n \<noteq> 0 \<and> r_expires st < ready)"
proof
  show "r_expires st = last_alive start (r_log st) + 1000 * unat (hold n)"
    using receive_init_log [OF assms(2)] by (simp add: hold_ms_def)
  have "\<not> receive_error hold_expired" by (simp add: receive_error_def hold_expired_def)
  then have "read_frame rest \<noteq> Err hold_expired" "receive_packet N n now (k, b) st \<noteq> Err hold_expired" for k b
    using read_frame_error receive_packet_error assms(1) by blast+
  then show "receive N n (script @ [(ready, now)]) reader (receive_init start n) = Err hold_expired \<longleftrightarrow>
      hold n \<noteq> 0 \<and> r_expires st < ready"
    by (auto simp: receive_append assms(2) bindr_eq_Err)
qed

theorem receive_hold_timer_witness:
  "receive ipnet_ref example_neg ([(5, 6), (7, 8)] @ [(30007, 30007)]) example_input (receive_init 0 example_neg) = Err hold_expired \<and>
   receive ipnet_ref example_neg ([(5, 6), (7, 8)] @ [(30006, 30007)]) example_input (receive_init 0 example_neg) \<noteq> Err hold_expired"
  unfolding receive_hold_timer [OF ref.ipnet_axioms example_receive, THEN conjunct2]
  by (simp add: hold_ms_def example_neg_def)

text \<open>
  The reader passes on every refresh request and nothing else: the requests made to the writer
  are, in order, those of the ROUTE-REFRESH messages that ask for unicast routes of a negotiated
  family, and the handled messages are exactly the messages of the consumed bytes.
\<close>

theorem receive_requests:
  assumes "receive N n script reader (receive_init start n) = Ok (st, rest)"
  shows "r_requests st = concat (map (refreshes n) (r_log st)) \<and>
    reader = concat (map (\<lambda>(_, kind, body). frame_bytes (kind, body)) (r_log st)) @ rest"
  using receive_init_log [OF assms] by blast

theorem receive_requests_witness:
  "[False] = concat (map (refreshes example_neg) [(6, KEEPALIVE, []), (8, ROUTE_REFRESH, [0, 1, 0, 1])])"
  using receive_requests [OF example_receive] by simp



end
