(* ===== verification/Console.thy ===== *)
theory Console
  imports Freshness
begin

text \<open>
  The management console of \<open>src/management.rs\<close>: the status of the peers, the admission of
  clients, the Telnet line reader, the commands, and the text that is safe to print.

  The input of a client is the list of bytes it sends before it closes the connection; an
  idle client that runs into the 300 second deadline is one whose input ends. What is written to
  the client is a list of replies: the literal texts of the source, and one constructor for
  each \<open>format!\<close>, which carries the values it renders. The parameter \<open>wr\<close> says whether the
  k-th write completes within its five seconds, and \<open>view\<close> what the shared state is when the
  k-th command is executed. The parser of prefixes in the crate \<open>ipnet\<close> is \<open>parse_net\<close>.
\<close>

section \<open>Peer status\<close>

record peer_status =
  ps_state :: string
  ps_since :: nat
  ps_last_error :: "string option"

definition statuses :: "nat \<Rightarrow> config \<Rightarrow> peer_status list" where
  "statuses now cfg = map (\<lambda>_. \<lparr>ps_state = ''Idle'', ps_since = now, ps_last_error = None\<rparr>) (peers cfg)"

definition update_status :: "nat \<Rightarrow> string \<Rightarrow> string option \<Rightarrow> peer_status \<Rightarrow> peer_status" where
  "update_status now state error st =
    (let st = st\<lparr>ps_state := state, ps_since := now\<rparr> in
     case error of Some e \<Rightarrow> st\<lparr>ps_last_error := Some e\<rparr> | None \<Rightarrow> st)"

section \<open>Clients\<close>

text \<open>The accept loop of \<open>run\<close>: the addresses of the clients being served.\<close>

inductive serve :: "ip_addr list \<Rightarrow> ip_addr list \<Rightarrow> bool" where
  admitted: "is_loopback a \<Longrightarrow> length clients < 16 \<Longrightarrow> serve clients (a # clients)"
| refused: "\<not> is_loopback a \<or> 16 \<le> length clients \<Longrightarrow> serve clients clients"
| finished: "serve (xs @ a # ys) (xs @ ys)"

section \<open>Text\<close>

text \<open>The scalar values of a Rust string, from its UTF-8 bytes.\<close>

definition cont_byte :: "u8 \<Rightarrow> bool" where
  "cont_byte b = (0x80 \<le> b \<and> b \<le> 0xBF)"

fun utf8_chars :: "bytes \<Rightarrow> nat list" where
  "utf8_chars [] = []"
| "utf8_chars (b # bs) =
    (if b < 0x80 then unat b # utf8_chars bs
     else case bs of
       c # cs \<Rightarrow>
         if b < 0xE0 then ((unat b mod 32) * 64 + unat c mod 64) # utf8_chars cs
         else (case cs of
           d # ds \<Rightarrow>
             if b < 0xF0 then ((unat b mod 16) * 4096 + (unat c mod 64) * 64 + unat d mod 64) # utf8_chars ds
             else (case ds of
               e # es \<Rightarrow> ((unat b mod 8) * 262144 + (unat c mod 64) * 4096 + (unat d mod 64) * 64 + unat e mod 64) # utf8_chars es
             | [] \<Rightarrow> [])
         | [] \<Rightarrow> [])
     | [] \<Rightarrow> [])"

text \<open>The well-formed byte sequences of Unicode, as \<open>String::from_utf8\<close> accepts them.\<close>

fun utf8_valid :: "bytes \<Rightarrow> bool" where
  "utf8_valid [] = True"
| "utf8_valid (b # bs) =
    (if b < 0x80 then utf8_valid bs
     else case bs of
       c # cs \<Rightarrow>
         if 0xC2 \<le> b \<and> b \<le> 0xDF then cont_byte c \<and> utf8_valid cs
         else (case cs of
           d # ds \<Rightarrow>
             if 0xE0 \<le> b \<and> b \<le> 0xEF then cont_byte c \<and> (b = 0xE0 \<longrightarrow> 0xA0 \<le> c) \<and> (b = 0xED \<longrightarrow> c \<le> 0x9F) \<and> cont_byte d \<and> utf8_valid ds
             else (case ds of
               e # es \<Rightarrow> 0xF0 \<le> b \<and> b \<le> 0xF4 \<and> cont_byte c \<and> (b = 0xF0 \<longrightarrow> 0x90 \<le> c) \<and> (b = 0xF4 \<longrightarrow> c \<le> 0x8F) \<and>
                 cont_byte d \<and> cont_byte e \<and> utf8_valid es
             | [] \<Rightarrow> False)
         | [] \<Rightarrow> False)
     | [] \<Rightarrow> False)"

definition safe_char :: "nat \<Rightarrow> nat" where
  "safe_char c = (if c < 128 \<and> \<not> (c < 32 \<or> c = 127) then c else 63)"

definition safe :: "string \<Rightarrow> string" where
  "safe text = map char_of (map safe_char (utf8_chars (map of_char text)))"

section \<open>The line reader\<close>

datatype cli_error = InputLimit | CommandTooLong | InvalidUtf8 | WriteFailed

datatype reply =
    Raw bytes
  | Text string
  | Summary u32 u32 bool nat nat "u32 list" nat
  | AclCount string nat
  | PeerLine ip_addr string u32 string nat bool string
  | RouteLine ip_net
  | Shown nat nat

record line_vars =
  ln_bytes :: bytes
  ln_state :: nat
  ln_option :: u8
  ln_wire :: nat
  ln_skip :: bool
  ln_out :: "reply list"

definition write_reply :: "(nat \<Rightarrow> bool) \<Rightarrow> reply \<Rightarrow> reply list \<Rightarrow> (cli_error, reply list) outcome" where
  "write_reply wr r out = (if wr (length out) then Ok (out @ [r]) else Err WriteFailed)"

text \<open>
  One byte in each of the states; \<open>None\<close> when the loop goes on, \<open>Some\<close> when it ends.
\<close>

definition telnet_option :: "(nat \<Rightarrow> bool) \<Rightarrow> u8 \<Rightarrow> line_vars \<Rightarrow> (cli_error, line_vars) outcome" where
  "telnet_option wr b v =
     bindr (if ln_option v = 251 then write_reply wr (Raw [255, 254, b]) (ln_out v) else Ok (ln_out v)) (\<lambda>out.
     bindr (if ln_option v = 253 then write_reply wr (Raw [255, 252, b]) out else Ok out) (\<lambda>out.
     Ok (v\<lparr>ln_out := out, ln_state := 0\<rparr>)))"

definition from_utf8 :: "bytes \<Rightarrow> (cli_error, bytes) outcome" where
  "from_utf8 b = (if utf8_valid b then Ok b else Err InvalidUtf8)"

definition command_byte :: "u8 \<Rightarrow> line_vars \<Rightarrow> (cli_error, line_vars \<times> bytes option) outcome" where
  "command_byte b v =
    (if b = 255 then Ok (v\<lparr>ln_state := 1\<rparr>, None)
     else if b = 10 then bindr (from_utf8 (ln_bytes v)) (\<lambda>l. Ok (v, Some l))
     else if b = 13 then
       let v = v\<lparr>ln_skip := True\<rparr> in bindr (from_utf8 (ln_bytes v)) (\<lambda>l. Ok (v, Some l))
     else if b = 0 then Ok (v, None)
     else if b = 8 \<or> b = 127 then Ok (v\<lparr>ln_bytes := butlast (ln_bytes v)\<rparr>, None)
     else if 32 \<le> b \<and> b \<le> 126 \<or> b = 9 then
       let v = v\<lparr>ln_bytes := ln_bytes v @ [b]\<rparr> in
       if length (ln_bytes v) > 512 then Err CommandTooLong else Ok (v, None)
     else Ok (v, None))"

definition line_byte :: "(nat \<Rightarrow> bool) \<Rightarrow> u8 \<Rightarrow> line_vars \<Rightarrow> (cli_error, line_vars \<times> bytes option) outcome" where
  "line_byte wr b v =
    (if ln_state v = 1 then
       if 251 \<le> b \<and> b \<le> 254 then Ok (v\<lparr>ln_option := b, ln_state := 2\<rparr>, None)
       else if b = 250 then Ok (v\<lparr>ln_state := 3\<rparr>, None)
       else Ok (v\<lparr>ln_state := 0\<rparr>, None)
     else if ln_state v = 2 then bindr (telnet_option wr b v) (\<lambda>v. Ok (v, None))
     else if ln_state v = 3 then Ok (if b = 255 then v\<lparr>ln_state := 4\<rparr> else v, None)
     else if ln_state v = 4 then Ok (v\<lparr>ln_state := (if b = 240 then 0 else 3)\<rparr>, None)
     else command_byte b v)"

fun line_loop :: "(nat \<Rightarrow> bool) \<Rightarrow> bytes \<Rightarrow> line_vars \<Rightarrow> (cli_error, (bytes option \<times> line_vars) \<times> bytes) outcome" where
  "line_loop wr [] v = Ok ((None, v), [])"
| "line_loop wr (b # stream) v =
    (let skip = ln_skip v; v = v\<lparr>ln_skip := False\<rparr> in
     if skip \<and> (b = 10 \<or> b = 0) then line_loop wr stream v
     else
       let v = v\<lparr>ln_wire := ln_wire v + 1\<rparr> in
       if ln_wire v > 8192 then Err InputLimit
       else bindr (line_byte wr b v) (\<lambda>(v, result).
         case result of
           Some l \<Rightarrow> Ok ((Some l, v), stream)
         | None \<Rightarrow> line_loop wr stream v))"

definition line_init :: "bool \<Rightarrow> reply list \<Rightarrow> line_vars" where
  "line_init skip out = \<lparr>ln_bytes = [], ln_state = 0, ln_option = 0, ln_wire = 0, ln_skip = skip, ln_out = out\<rparr>"

definition line :: "(nat \<Rightarrow> bool) \<Rightarrow> bytes \<Rightarrow> bool \<Rightarrow> reply list \<Rightarrow>
    (cli_error, (bytes option \<times> bool \<times> reply list) \<times> bytes) outcome" where
  "line wr stream skip out =
     bindr (line_loop wr stream (line_init skip out)) (\<lambda>((result, v), rest).
     Ok ((result, ln_skip v, ln_out v), rest))"

section \<open>Commands\<close>

definition u8_char :: "u8 \<Rightarrow> char" where
  "u8_char b = char_of (unat b)"

definition is_whitespace :: "u8 \<Rightarrow> bool" where
  "is_whitespace b = (9 \<le> b \<and> b \<le> 13 \<or> b = 32)"

fun split_whitespace :: "bytes \<Rightarrow> bytes \<Rightarrow> string list" where
  "split_whitespace word [] = (if word = [] then [] else [map u8_char word])"
| "split_whitespace word (b # bs) =
    (if is_whitespace b then (if word = [] then [] else [map u8_char word]) @ split_whitespace [] bs
     else split_whitespace (word @ [b]) bs)"

definition crlf :: string where
  "crlf = [CHR 0x0D, CHR 0x0A]"

definition prompt :: string where
  "prompt = ''ubgp> ''"

definition HELP :: string where
  "HELP = concat (map (\<lambda>l. l @ crlf)
    [''help                       Show commands'',
     ''show summary               Router and session summary'',
     ''show peers                 Peer state, state age and last error'',
     ''show routes ACL [PREFIX]    ACL export candidates (maximum 100; not advertised RIB)'',
     ''quit / exit                Close console''])"

record console_view =
  cv_statuses :: "peer_status list"
  cv_exports :: exports
  cv_now :: nat

definition show_summary :: "config \<Rightarrow> console_view \<Rightarrow> reply list" where
  "show_summary cfg v =
     Summary (router_id cfg) (asn cfg) (cfg_ipv6 cfg) (length (peers cfg))
       (length (filter (\<lambda>s. ps_state s = ''Established'') (cv_statuses v))) (tables (cfg_kernel cfg)) (length (acls cfg)) #
     map (\<lambda>name. AclCount (safe name) (case map_of (cv_exports v) name of Some r \<Rightarrow> length r | None \<Rightarrow> 0)) (map fst (acls cfg))"

definition show_peers :: "config \<Rightarrow> console_view \<Rightarrow> reply list" where
  "show_peers cfg v =
     Text (''Peer / interface  Remote-AS  State  Age(s)  MD5  Last error'' @ crlf) #
     map (\<lambda>(p, s). PeerLine (address p) (safe (interface p)) (remote_asn p) (ps_state s) ((cv_now v - ps_since s) div 1000)
       (md5_password p \<noteq> None) (safe (unwrap_or (ps_last_error s) ''-''))) (zip (peers cfg) (cv_statuses v))"

definition select_routes :: "ip_net option \<Rightarrow> prefixes \<Rightarrow> prefixes" where
  "select_routes flt routes = (case flt of
     Some prefix \<Rightarrow> if prefix \<in> set routes then [prefix] else []
   | None \<Rightarrow> take 100 routes)"

definition show_routes :: "config \<Rightarrow> console_view \<Rightarrow> string \<Rightarrow> ip_net option \<Rightarrow> reply list" where
  "show_routes cfg v acl flt =
    (if map_of (acls cfg) acl = None then [Text (''Unknown ACL; use show summary'' @ crlf)]
     else case map_of (cv_exports v) acl of
       Some routes \<Rightarrow>
         let selected = select_routes flt routes in
         Text (''ACL export candidates; not confirmation of peer advertisement.'' @ crlf) #
         map RouteLine selected @ [Shown (length selected) (length routes)]
     | None \<Rightarrow> [Text (''No export candidates available'' @ crlf)])"

text \<open>The replies to one command, the prompt included, and whether the console closes.\<close>

definition execute :: "(string \<Rightarrow> ip_net option) \<Rightarrow> config \<Rightarrow> console_view \<Rightarrow> string list \<Rightarrow> reply list \<times> bool" where
  "execute parse_net cfg v args =
    (if args = [''quit''] \<or> args = [''exit''] then ([Text (''Bye'' @ crlf)], True)
     else if args = [] then ([Text prompt], False)
     else if args = [''help''] \<or> args = [''?''] then ([Text HELP, Text prompt], False)
     else if args = [''show'', ''summary''] then (show_summary cfg v @ [Text prompt], False)
     else if args = [''show'', ''peers''] then (show_peers cfg v @ [Text prompt], False)
     else case args of
       a # b # acl # rest \<Rightarrow>
         if a = ''show'' \<and> b = ''routes'' \<and> length rest \<le> 1 then
           (case rest of
              prefix # _ \<Rightarrow> (case parse_net prefix of
                  Some q \<Rightarrow> (show_routes cfg v acl (Some q) @ [Text prompt], False)
                | None \<Rightarrow> ([Text (''Invalid prefix'' @ crlf @ prompt)], False))
            | [] \<Rightarrow> (show_routes cfg v acl None @ [Text prompt], False))
         else ([Text (''Unknown command; type help'' @ crlf), Text prompt], False)
     | _ \<Rightarrow> ([Text (''Unknown command; type help'' @ crlf), Text prompt], False))"

fun write_replies :: "(nat \<Rightarrow> bool) \<Rightarrow> reply list \<Rightarrow> reply list \<Rightarrow> (cli_error, reply list) outcome" where
  "write_replies wr [] out = Ok out"
| "write_replies wr (r # rs) out = bindr (write_reply wr r out) (write_replies wr rs)"

section \<open>Library lemmas\<close>

text \<open>A command line as the reader builds it: printable characters and tabs, at most 512.\<close>

definition cmd_byte :: "u8 \<Rightarrow> bool" where
  "cmd_byte b = (32 \<le> b \<and> b \<le> 126 \<or> b = 9)"

definition refusal :: "reply \<Rightarrow> bool" where
  "refusal r = (\<exists>b. r = Raw [255, 254, b] \<or> r = Raw [255, 252, b])"

definition line_inv :: "reply list \<Rightarrow> line_vars \<Rightarrow> bool" where
  "line_inv out v = (list_all cmd_byte (ln_bytes v) \<and> length (ln_bytes v) \<le> 512 \<and> ln_wire v \<le> 8192 \<and>
     (\<exists>rs. ln_out v = out @ rs \<and> list_all refusal rs \<and> length rs \<le> ln_wire v))"

lemma cmd_byte_ascii: "cmd_byte b \<Longrightarrow> b < 0x80"
  by (auto simp: cmd_byte_def word_le_nat_alt word_less_nat_alt)

lemma utf8_valid_ascii: "list_all (\<lambda>b. b < 0x80) bs \<Longrightarrow> utf8_valid bs"
  by (induction bs) auto

lemma from_utf8_cmd [simp]: "list_all cmd_byte bs \<Longrightarrow> from_utf8 bs = Ok bs"
  using utf8_valid_ascii [of bs] cmd_byte_ascii by (auto simp: from_utf8_def list_all_iff)

lemma line_inv_init: "line_inv out (line_init skip out)"
  by (simp add: line_inv_def line_init_def)

text \<open>Every byte keeps the invariant, and a finished line is the bytes collected so far.\<close>

lemma line_inv_update:
  assumes "line_inv out v"
  shows "line_inv out (v\<lparr>ln_state := s\<rparr>)" "line_inv out (v\<lparr>ln_option := opt, ln_state := s\<rparr>)" "line_inv out (v\<lparr>ln_skip := sk\<rparr>)"
    "line_inv out (v\<lparr>ln_bytes := butlast (ln_bytes v)\<rparr>)"
    "cmd_byte b \<Longrightarrow> length (ln_bytes v) < 512 \<Longrightarrow> line_inv out (v\<lparr>ln_bytes := ln_bytes v @ [b]\<rparr>)"
  using assms by (auto simp: line_inv_def list_all_iff dest: in_set_butlastD)

text \<open>The step before the byte is looked at counts it; a reply uses up that count.\<close>

definition line_pre :: "reply list \<Rightarrow> line_vars \<Rightarrow> bool" where
  "line_pre out v = (line_inv out v \<and> (\<exists>rs. ln_out v = out @ rs \<and> length rs < ln_wire v))"

lemma line_pre_count: "line_inv out v \<Longrightarrow> ln_wire v < 8192 \<Longrightarrow> line_pre out (v\<lparr>ln_skip := sk, ln_wire := Suc (ln_wire v)\<rparr>)"
  by (auto simp: line_inv_def line_pre_def)

lemma telnet_option_inv:
  assumes "line_pre out v" and "telnet_option wr b v = Ok v'"
  shows "line_inv out v'"
  using assms
  by (auto simp: telnet_option_def write_reply_def line_pre_def line_inv_def bindr_eq_Ok refusal_def split: if_splits)

lemma command_byte_inv:
  assumes "line_inv out v" and "command_byte b v = Ok (v', result)"
  shows "line_inv out v' \<and> (\<forall>l. result = Some l \<longrightarrow> l = ln_bytes v')"
proof -
  have "from_utf8 (ln_bytes v) = Ok (ln_bytes v)"
    using assms(1) by (simp add: line_inv_def)
  then show ?thesis
    using assms line_inv_update [OF assms(1)]
    by (auto simp: command_byte_def Let_def cmd_byte_def split: if_splits)
qed

lemma line_byte_inv:
  assumes "line_pre out v" and "line_byte wr b v = Ok (v', result)"
  shows "line_inv out v' \<and> (\<forall>l. result = Some l \<longrightarrow> l = ln_bytes v')"
proof -
  have inv: "line_inv out v" using assms(1) by (simp add: line_pre_def)
  show ?thesis
    using assms(2) command_byte_inv [OF inv] telnet_option_inv [OF assms(1)] inv line_inv_update [OF inv]
    by (auto simp: line_byte_def bindr_eq_Ok split: if_splits)
qed

lemma line_loop_inv:
  assumes "line_inv out v" and "line_loop wr stream v = Ok ((result, v'), rest)"
  shows "line_inv out v' \<and> (\<forall>l. result = Some l \<longrightarrow> l = ln_bytes v' \<and> length rest < length stream)"
  using assms
proof (induction stream arbitrary: v)
  case (Cons b stream)
  show ?case
  proof (cases "ln_skip v \<and> (b = 10 \<or> b = 0)")
    case True
    with Cons line_inv_update(3) show ?thesis by fastforce
  next
    case False
    let ?v = "v\<lparr>ln_skip := False, ln_wire := Suc (ln_wire v)\<rparr>"
    from False Cons.prems(2) obtain w r where wire: "ln_wire v < 8192" and byte: "line_byte wr b ?v = Ok (w, r)"
        and go: "(case r of Some l \<Rightarrow> Ok ((Some l, w), stream) | None \<Rightarrow> line_loop wr stream w) = Ok ((result, v'), rest)"
      by (auto simp: Let_def bindr_eq_Ok split: if_splits)
    have "line_inv out w \<and> (\<forall>l. r = Some l \<longrightarrow> l = ln_bytes w)"
      using line_byte_inv [OF line_pre_count [OF Cons.prems(1) wire] byte] .
    with go Cons.IH [of w] show ?thesis by (cases r) fastforce+
  qed
qed simp

text \<open>The errors of the reader.\<close>

lemma line_byte_errors: "line_pre out v \<Longrightarrow> line_byte wr b v \<noteq> Panic \<and> line_byte wr b v \<noteq> Err InvalidUtf8"
  by (auto simp: line_byte_def command_byte_def telnet_option_def write_reply_def line_pre_def line_inv_def Let_def bindr_eq_Panic
      bindr_eq_Err)

lemma line_loop_errors: "line_inv out v \<Longrightarrow> line_loop wr stream v \<noteq> Panic \<and> line_loop wr stream v \<noteq> Err InvalidUtf8"
proof (induction stream arbitrary: v)
  case (Cons b stream)
  show ?case
  proof (cases "ln_skip v \<and> (b = 10 \<or> b = 0) \<or> 8192 \<le> ln_wire v")
    case True
    with Cons line_inv_update(3) [OF Cons.prems, of False] show ?thesis by (auto simp: Let_def)
  next
    case False
    then have pre: "line_pre out (v\<lparr>ln_skip := False, ln_wire := Suc (ln_wire v)\<rparr>)"
      using line_pre_count [OF Cons.prems] by simp
    from line_byte_errors [OF pre, of wr b] line_byte_inv [OF pre, of wr b] Cons.IH False show ?thesis
      by (auto simp: Let_def bindr_eq_Panic bindr_eq_Err split: option.splits)
  qed
qed simp

text \<open>Typed text is collected, and a carriage return ends the line.\<close>

lemma line_byte_cmd:
  assumes "cmd_byte b" and "ln_state v = 0" and "length (ln_bytes v) < 512"
  shows "line_byte wr b v = Ok (v\<lparr>ln_bytes := ln_bytes v @ [b]\<rparr>, None)"
proof -
  have "b \<noteq> 255" "b \<noteq> 10" "b \<noteq> 13" "b \<noteq> 0" "b \<noteq> 8" "b \<noteq> 127"
    using assms(1) by (auto simp: cmd_byte_def word_le_nat_alt)
  then show ?thesis
    using assms by (simp add: line_byte_def command_byte_def Let_def cmd_byte_def)
qed

lemma line_loop_typed:
  assumes "list_all cmd_byte c" and "ln_state v = 0" and "length (ln_bytes v) + length c \<le> 512"
    and "ln_wire v + length c \<le> 8192" and "\<not> ln_skip v"
  shows "line_loop wr (c @ stream) v =
    line_loop wr stream (v\<lparr>ln_bytes := ln_bytes v @ c, ln_wire := ln_wire v + length c\<rparr>)"
  using assms
proof (induction c arbitrary: v)
  case (Cons b c)
  let ?v = "v\<lparr>ln_wire := Suc (ln_wire v)\<rparr>"
  have v: "v\<lparr>ln_skip := False\<rparr> = v" using Cons.prems(5) by simp
  have "line_loop wr ((b # c) @ stream) v = line_loop wr (c @ stream) (?v\<lparr>ln_bytes := ln_bytes v @ [b]\<rparr>)"
    using Cons.prems line_byte_cmd [of b ?v wr] by (simp add: Let_def v)
  then show ?case using Cons by simp
qed simp

lemma line_typed:
  assumes "list_all cmd_byte c" and "length c \<le> 512"
  shows "line wr ((if skip then [10] else []) @ c @ 13 # rest) skip out = Ok ((Some c, True, out), rest)"
proof -
  have "line_loop wr ((if skip then [10] else []) @ c @ 13 # rest) (line_init skip out) =
      line_loop wr (c @ 13 # rest) (line_init False out)"
    by (simp add: line_init_def)
  also have "\<dots> = line_loop wr (13 # rest) ((line_init False out)\<lparr>ln_bytes := c, ln_wire := length c\<rparr>)"
    using line_loop_typed [of c "line_init False out" wr "13 # rest"] assms by (simp add: line_init_def)
  also have "\<dots> = Ok ((Some c, (line_init False out)\<lparr>ln_bytes := c, ln_wire := Suc (length c), ln_skip := True\<rparr>), rest)"
    using assms by (simp add: line_init_def line_byte_def command_byte_def Let_def)
  finally show ?thesis by (simp add: line_def line_init_def)
qed

lemma line_end: "line wr (if skip then [10] else []) skip out = Ok ((None, False, out), [])"
  by (simp add: line_def line_init_def)

lemma line_consumes:
  assumes "line wr stream skip out = Ok ((Some l, skip', out'), rest)"
  shows "length rest < length stream"
  using assms line_loop_inv [OF line_inv_init, of wr stream skip out]
  by (auto simp: line_def bindr_eq_Ok)

section \<open>The console\<close>

definition greeting :: string where
  "greeting = ''ubgp read-only management CLI'' @ crlf @ ''Type help for commands.'' @ crlf @ prompt"

function console_loop :: "(string \<Rightarrow> ip_net option) \<Rightarrow> config \<Rightarrow> (nat \<Rightarrow> console_view) \<Rightarrow> (nat \<Rightarrow> bool) \<Rightarrow>
    nat \<Rightarrow> bytes \<Rightarrow> bool \<Rightarrow> reply list \<Rightarrow> (cli_error, reply list) outcome" where
  "console_loop parse_net cfg view wr k stream skip out =
     bindr (line wr stream skip out) (\<lambda>r. case r of
       ((None, skip, out), rest) \<Rightarrow> Ok out
     | ((Some l, skip, out), rest) \<Rightarrow>
         let (replies, close) = execute parse_net cfg (view k) (split_whitespace [] l) in
         bindr (write_replies wr replies out) (\<lambda>out.
         if close then Ok out else console_loop parse_net cfg view wr (Suc k) rest skip out))"
  by pat_completeness auto

termination
  by (relation "measure (\<lambda>(_, _, _, _, _, stream, _, _). length stream)") (auto intro: line_consumes)

declare console_loop.simps [simp del]

definition console :: "(string \<Rightarrow> ip_net option) \<Rightarrow> config \<Rightarrow> (nat \<Rightarrow> console_view) \<Rightarrow> (nat \<Rightarrow> bool) \<Rightarrow> bytes \<Rightarrow>
    (cli_error, reply list) outcome" where
  "console parse_net cfg view wr stream =
     bindr (write_reply wr (Text greeting) []) (\<lambda>out.
     console_loop parse_net cfg view wr 0 stream False out)"

lemma write_replies_Ok: "(\<And>k. wr k) \<Longrightarrow> write_replies wr rs out = Ok (out @ rs)"
  by (induction rs arbitrary: out) (simp_all add: write_reply_def)

text \<open>The replies to a list of commands.\<close>

definition answers :: "(string \<Rightarrow> ip_net option) \<Rightarrow> config \<Rightarrow> (nat \<Rightarrow> console_view) \<Rightarrow> nat \<Rightarrow> bytes list \<Rightarrow> reply list" where
  "answers parse_net cfg view k cs =
     concat (map (\<lambda>(i, c). fst (execute parse_net cfg (view i) (split_whitespace [] c))) (enumerate k cs))"

definition closes :: "bytes \<Rightarrow> bool" where
  "closes c = (split_whitespace [] c = [''quit''] \<or> split_whitespace [] c = [''exit''])"

lemma execute_closes: "snd (execute parse_net cfg v (split_whitespace [] c)) = closes c"
  by (auto simp: execute_def closes_def split: list.split option.split)

lemma console_loop_typed:
  assumes "\<And>k. wr k" and "\<forall>c \<in> set cs. list_all cmd_byte c \<and> length c \<le> 512 \<and> \<not> closes c"
  shows "console_loop parse_net cfg view wr k ((if skip then [10] else []) @ concat (map (\<lambda>c. c @ [13, 10]) cs)) skip out =
    Ok (out @ answers parse_net cfg view k cs)"
  using assms(2)
proof (induction cs arbitrary: k skip out)
  case Nil
  then show ?case
    using line_end [of wr skip out] by (subst console_loop.simps) (simp add: answers_def)
next
  case (Cons c cs)
  let ?rest = "concat (map (\<lambda>c. c @ [13, 10]) cs)"
  obtain rs where e: "execute parse_net cfg (view k) (split_whitespace [] c) = (rs, False)"
    using execute_closes [of parse_net cfg "view k" c] Cons.prems by (metis list.set_intros(1) prod.collapse)
  have "line wr ((if skip then [10] else []) @ c @ 13 # 10 # ?rest) skip out = Ok ((Some c, True, out), 10 # ?rest)"
    using line_typed [of c wr skip "10 # ?rest" out] Cons.prems by simp
  then show ?case
    using Cons.IH [of "Suc k" True "out @ rs"] Cons.prems
    by (subst console_loop.simps) (simp add: e write_replies_Ok [of wr, OF assms(1)] answers_def)
qed

lemma safe_char_printable: "32 \<le> safe_char c \<and> safe_char c \<le> 126"
  by (auto simp: safe_char_def)

lemma safe_printable: "list_all (\<lambda>c. 32 \<le> (of_char c :: nat) \<and> (of_char c :: nat) \<le> 126) (safe text)"
proof -
  have "of_char (char_of (safe_char c) :: char) = safe_char c" for c
    using safe_char_printable [of c] by (simp add: of_char_of take_bit_nat_def)
  then show ?thesis
    using safe_char_printable by (simp add: safe_def list_all_iff)
qed

lemma utf8_chars_ascii: "list_all (\<lambda>b. b < 0x80) bs \<Longrightarrow> utf8_chars bs = map unat bs"
  by (induction bs) auto

lemma safe_ascii:
  assumes "list_all (\<lambda>c. 32 \<le> (of_char c :: nat) \<and> (of_char c :: nat) \<le> 126) text"
  shows "safe text = text"
proof -
  have c: "(of_char c :: u8) < 0x80 \<and> unat (of_char c :: u8) = (of_char c :: nat)" if "(of_char c :: nat) \<le> 126" for c
  proof -
    have "(of_char c :: u8) = of_nat (of_char c)" by (simp only: of_nat_of_char)
    then have "unat (of_char c :: u8) = (of_char c :: nat)" using that by (simp add: unat_of_nat_u8)
    with that show ?thesis by (simp add: word_less_nat_alt)
  qed
  then have "utf8_chars (map of_char text) = map of_char text"
    using assms by (subst utf8_chars_ascii) (auto simp: list_all_iff)
  then show ?thesis
    using assms by (auto simp: safe_def safe_char_def list_all_iff intro!: map_idI)
qed

lemma select_routes_spec:
  "set (select_routes flt routes) \<subseteq> set routes" "length (select_routes flt routes) \<le> 100"
  "case flt of Some q \<Rightarrow> set (select_routes flt routes) = {q} \<inter> set routes
   | None \<Rightarrow> length routes \<le> 100 \<longrightarrow> select_routes flt routes = routes"
  by (cases flt; auto simp: select_routes_def dest: in_set_takeD)+

text \<open>The clients being served.\<close>

lemma serve_inv:
  assumes "serve\<^sup>*\<^sup>* [] clients"
  shows "length clients \<le> 16 \<and> list_all is_loopback clients"
  using assms by (induction rule: rtranclp_induct) (auto elim!: serve.cases)

section \<open>Properties\<close>

text \<open>
  C37: The line reader is bounded whatever a client sends: it neither panics nor meets invalid
  UTF-8; a command it returns consists of at most 512 printable characters and tabs and consumes
  input; and besides that the client is sent nothing but refusals of Telnet options, at most
  8192 of them.
\<close>

theorem line_bounded:
  "line wr stream skip out \<noteq> Panic \<and> line wr stream skip out \<noteq> Err InvalidUtf8 \<and>
   (\<forall>result skip' out' rest. line wr stream skip out = Ok ((result, skip', out'), rest) \<longrightarrow>
     (\<exists>rs. out' = out @ rs \<and> list_all refusal rs \<and> length rs \<le> 8192) \<and>
     (\<forall>l. result = Some l \<longrightarrow> list_all cmd_byte l \<and> length l \<le> 512 \<and> length rest < length stream))"
proof (intro conjI allI impI)
  show "line wr stream skip out \<noteq> Panic" "line wr stream skip out \<noteq> Err InvalidUtf8"
    using line_loop_errors [OF line_inv_init, of wr stream skip out] by (auto simp: line_def bindr_eq_Panic bindr_eq_Err)
next
  fix result skip' out' rest
  assume "line wr stream skip out = Ok ((result, skip', out'), rest)"
  then obtain v where "line_loop wr stream (line_init skip out) = Ok ((result, v), rest)" "out' = ln_out v"
    by (auto simp: line_def bindr_eq_Ok)
  from this(2) line_loop_inv [OF line_inv_init this(1)]
  have inv: "line_inv out v" "\<forall>l. result = Some l \<longrightarrow> l = ln_bytes v \<and> length rest < length stream" "out' = ln_out v"
    by blast+
  from inv(1,3) show "\<exists>rs. out' = out @ rs \<and> list_all refusal rs \<and> length rs \<le> 8192"
    unfolding line_inv_def by force
  fix l
  assume "result = Some l"
  with inv(1,2) show "list_all cmd_byte l" "length l \<le> 512" "length rest < length stream"
    by (auto simp: line_inv_def)
qed

theorem line_bounded_witness:
  "\<exists>rs. [Raw [255, 254, 1]] = [] @ rs \<and> list_all refusal rs"
proof -
  have "line (\<lambda>_. True) [255, 251, 1, 104, 105, 13, 10] False [] = Ok ((Some [104, 105], True, [Raw [255, 254, 1]]), [10])"
    by code_simp
  with line_bounded [of "\<lambda>_. True" "[255, 251, 1, 104, 105, 13, 10]" False "[]"] show ?thesis by blast
qed

text \<open>
  C38: The console answers what was typed. When a client sends commands of at most 512 printable
  characters, each ended by CR LF and none of them \<open>quit\<close> or \<open>exit\<close>, and the writes succeed, it
  receives the greeting and then, in order, exactly the replies to each command computed from the
  state at that moment.
\<close>

theorem console_answers:
  assumes "\<And>k. wr k" and "\<forall>c \<in> set cs. list_all cmd_byte c \<and> length c \<le> 512 \<and> \<not> closes c"
  shows "console parse_net cfg view wr (concat (map (\<lambda>c. c @ [13, 10]) cs)) =
    Ok (Text greeting # answers parse_net cfg view 0 cs)"
proof -
  have "write_reply wr (Text greeting) [] = Ok [Text greeting]"
    using assms(1) by (simp add: write_reply_def)
  moreover have "console_loop parse_net cfg view wr 0 (concat (map (\<lambda>c. c @ [13, 10]) cs)) False [Text greeting] =
      Ok (Text greeting # answers parse_net cfg view 0 cs)"
    using console_loop_typed [OF assms, where k = 0 and skip = False] by simp
  ultimately show ?thesis by (simp add: console_def)
qed

theorem console_answers_witness:
  "console (\<lambda>_. None) example_config (\<lambda>_. \<lparr>cv_statuses = [], cv_exports = [], cv_now = 0\<rparr>) (\<lambda>_. True)
     ([63] @ [13, 10]) = Ok [Text greeting, Text HELP, Text prompt]"
proof -
  have w: "split_whitespace [] [63] = [''?'']" by code_simp
  then have "\<forall>c \<in> set [[63 :: u8]]. list_all cmd_byte c \<and> length c \<le> 512 \<and> \<not> closes c"
    by (simp add: cmd_byte_def closes_def del: split_whitespace.simps)
  from console_answers [OF _ this, of "\<lambda>_. True"] show ?thesis
    by (simp add: answers_def execute_def w del: split_whitespace.simps)
qed

text \<open>
  The listing of routes is bounded and faithful: every route shown is an export candidate of
  the named ACL, at most 100 are shown, a prefix given as an argument selects that prefix only, all
  candidates are shown when there are at most 100 and no prefix is given, and the totals are right.
\<close>

theorem routes_listed:
  assumes "map_of (acls cfg) acl \<noteq> None" and "map_of (cv_exports v) acl = Some routes"
  shows "\<exists>text shown. show_routes cfg v acl flt = Text text # map RouteLine shown @ [Shown (length shown) (length routes)] \<and>
    set shown \<subseteq> set routes \<and> length shown \<le> 100 \<and>
    (case flt of Some q \<Rightarrow> set shown = {q} \<inter> set routes | None \<Rightarrow> length routes \<le> 100 \<longrightarrow> shown = routes)"
proof -
  have "show_routes cfg v acl flt = Text (''ACL export candidates; not confirmation of peer advertisement.'' @ crlf) #
      map RouteLine (select_routes flt routes) @ [Shown (length (select_routes flt routes)) (length routes)]"
    using assms by (simp add: show_routes_def Let_def)
  with select_routes_spec show ?thesis by blast
qed

theorem routes_listed_witness:
  "\<exists>shown. set shown = {NetV4 0xC6336400 24} \<inter> set [NetV4 0xC6336400 24, NetV4 0xC6336500 24] \<and> length shown \<le> 100"
proof -
  have "map_of (acls example_config) ''export'' \<noteq> None"
    by (simp add: example_config_def)
  from routes_listed [OF this, of "\<lparr>cv_statuses = [], cv_exports = [(''export'', [NetV4 0xC6336400 24, NetV4 0xC6336500 24])], cv_now = 0\<rparr>"
      "[NetV4 0xC6336400 24, NetV4 0xC6336500 24]" "Some (NetV4 0xC6336400 24)"]
  show ?thesis by auto
qed

end
