(* ===== verification/Peering.thy ===== *)
theory Peering
  imports Config "HOL-Library.AList"
begin

text \<open>
  What a peering asks of the host: the scoped endpoint address (\<open>src/transport.rs\<close>), the TCP-MD5
  key that is installed on a socket (\<open>src/tcp_md5.rs\<close>), the check that the configured addresses
  belong to the peering interface, and the listeners with the dispatch of incoming connections
  (\<open>src/bgp.rs\<close>).

  The interface list is what \<open>getifaddrs\<close> returned; the interface index and the result of
  \<open>setsockopt\<close> are arguments. A peer's channel is named by the position of the peer in the
  configuration.
\<close>

section \<open>Endpoints\<close>

datatype sock_addr = SockV4 u32 u16 | SockV6 u128 u16 u32 u32

definition endpoint :: "ip_addr \<Rightarrow> u16 \<Rightarrow> u32 \<Rightarrow> sock_addr" where
  "endpoint ip port idx = (case ip of
     V6 a \<Rightarrow> if is_unicast_link_local a then SockV6 a port 0 idx else SockV6 a port 0 0
   | V4 a \<Rightarrow> SockV4 a port)"

section \<open>TCP-MD5 keys\<close>

record signature =
  sg_address :: sock_addr
  sg_key_len :: u16
  sg_key :: bytes

datatype md5_error = Md5KeyLen | Md5AddressTooLarge | Md5SetsockoptFailed

text \<open>The sizes of \<open>sockaddr_in\<close>, \<open>sockaddr_in6\<close> and \<open>sockaddr_storage\<close>.\<close>

fun sockaddr_len :: "sock_addr \<Rightarrow> nat" where
  "sockaddr_len (SockV4 _ _) = 16"
| "sockaddr_len (SockV6 _ _ _ _) = 28"

definition SOCKADDR_STORAGE_SIZE :: nat where
  "SOCKADDR_STORAGE_SIZE = 128"

definition md5_bytes :: "string \<Rightarrow> bytes" where
  "md5_bytes key = map of_char key"

definition install :: "(signature \<Rightarrow> bool) \<Rightarrow> peer \<Rightarrow> u32 \<Rightarrow> (md5_error, signature option) outcome" where
  "install setsockopt p idx = (case md5_password p of
     None \<Rightarrow> Ok None
   | Some key \<Rightarrow>
       bindr (ensure (1 \<le> length (md5_bytes key) \<and> length (md5_bytes key) \<le> TCP_MD5SIG_MAXKEYLEN) Md5KeyLen) (\<lambda>_.
       let addr = endpoint (address p) 0 idx in
       bindr (ensure (sockaddr_len addr \<le> SOCKADDR_STORAGE_SIZE) Md5AddressTooLarge) (\<lambda>_.
       let sig = \<lparr>sg_address = addr, sg_key_len = of_nat (length (md5_bytes key)),
         sg_key = md5_bytes key @ replicate (TCP_MD5SIG_MAXKEYLEN - length (md5_bytes key)) 0\<rparr> in
       if setsockopt sig then Ok (Some sig) else Err Md5SetsockoptFailed)))"

section \<open>Interface addresses\<close>

datatype sockaddr = SaInet u32 | SaInet6 u128 | SaOther

record ifaddr =
  ifa_name :: string
  ifa_addr :: "sockaddr option"

datatype local_error = GetifaddrsFailed | LocalAddressMissing | NextHopV4Missing | NextHopV6Missing | LinkLocalMissing

fun interface_ips :: "string \<Rightarrow> ifaddr list \<Rightarrow> ip_addr list" where
  "interface_ips name [] = []"
| "interface_ips name (a # nodes) =
    (case ifa_addr a of
       Some sa \<Rightarrow> if ifa_name a = name then
           (case sa of SaInet x \<Rightarrow> [V4 x] | SaInet6 x \<Rightarrow> [V6 x] | SaOther \<Rightarrow> [])
         else []
     | None \<Rightarrow> []) @ interface_ips name nodes"

fun find_link_local :: "ip_addr list \<Rightarrow> u128 option" where
  "find_link_local [] = None"
| "find_link_local (V6 a # ips) = (if is_unicast_link_local a then Some a else find_link_local ips)"
| "find_link_local (V4 _ # ips) = find_link_local ips"

definition check_local_addresses :: "peer \<Rightarrow> ifaddr list option \<Rightarrow> (local_error, u128 option) outcome" where
  "check_local_addresses p root = (case root of
     None \<Rightarrow> Err GetifaddrsFailed
   | Some nodes \<Rightarrow>
       let ips = interface_ips (interface p) nodes in
       bindr (ensure (local_address p \<in> set ips) LocalAddressMissing) (\<lambda>_.
       bindr (if peer_ipv4 p then ensure (is_some_and (nh4 p) (\<lambda>a. V4 a \<in> set ips)) NextHopV4Missing else Ok ()) (\<lambda>_.
       bindr (if peer_ipv6 p then ensure (is_some_and (nh6 p) (\<lambda>a. V6 a \<in> set ips)) NextHopV6Missing else Ok ()) (\<lambda>_.
       bindr (case next_hop_v6_link_local p of
           Some a \<Rightarrow> ensure (V6 a \<in> set ips) LinkLocalMissing
         | None \<Rightarrow> Ok ()) (\<lambda>_.
       Ok (find_link_local ips))))))"

section \<open>Listeners\<close>

type_synonym listener_key = "ip_addr \<times> string"
type_synonym listener_peers = "(ip_addr \<times> nat) list"

definition add_listener :: "nat \<times> peer \<Rightarrow> (listener_key \<times> listener_peers) list \<Rightarrow> (listener_key \<times> listener_peers) list" where
  "add_listener ip ls = (case ip of (i, p) \<Rightarrow>
     let key = (local_address p, interface p)
     in AList.update key (AList.update (address p) i (unwrap_or (map_of ls key) [])) ls)"

definition listeners :: "config \<Rightarrow> (listener_key \<times> listener_peers) list" where
  "listeners cfg = fold add_listener (enumerate 0 (peers cfg)) []"

text \<open>The set-up of one listener: its first peer, and the keys of all its peers before it listens.\<close>

definition listener_peer :: "config \<Rightarrow> listener_key \<Rightarrow> (md5_error, peer) outcome" where
  "listener_peer cfg key = expect (find (\<lambda>p. local_address p = fst key \<and> interface p = snd key) (peers cfg))"

fun install_all :: "(signature \<Rightarrow> bool) \<Rightarrow> peer list \<Rightarrow> u32 \<Rightarrow> (md5_error, signature list) outcome" where
  "install_all setsockopt [] idx = Ok []"
| "install_all setsockopt (p # ps) idx =
     bindr (install setsockopt p idx) (\<lambda>r.
     bindr (install_all setsockopt ps idx) (\<lambda>rs.
     Ok ((case r of Some s \<Rightarrow> [s] | None \<Rightarrow> []) @ rs)))"

definition listener_keys :: "(signature \<Rightarrow> bool) \<Rightarrow> config \<Rightarrow> listener_key \<Rightarrow> u32 \<Rightarrow> (md5_error, signature list) outcome" where
  "listener_keys setsockopt cfg key idx =
     install_all setsockopt (filter (\<lambda>p. local_address p = fst key \<and> interface p = snd key) (peers cfg)) idx"

text \<open>Where an accepted connection goes, and the bounded channel it is put into.\<close>

definition dispatch :: "config \<Rightarrow> listener_key \<Rightarrow> ip_addr \<Rightarrow> nat option" where
  "dispatch cfg key remote = (case map_of (listeners cfg) key of
     Some ps \<Rightarrow> map_of ps remote
   | None \<Rightarrow> None)"

definition try_send :: "'a \<Rightarrow> 'a list \<Rightarrow> 'a list" where
  "try_send x queue = (if length queue < 2 then queue @ [x] else queue)"

section \<open>Library lemmas\<close>

lemma check_local_Ok:
  assumes "check_local_addresses p root = Ok ll"
  obtains nodes where "root = Some nodes" "local_address p \<in> set (interface_ips (interface p) nodes)"
    "peer_ipv4 p \<Longrightarrow> \<exists>a. nh4 p = Some a \<and> V4 a \<in> set (interface_ips (interface p) nodes)"
    "peer_ipv6 p \<Longrightarrow> \<exists>a. nh6 p = Some a \<and> V6 a \<in> set (interface_ips (interface p) nodes)"
    "\<And>a. next_hop_v6_link_local p = Some a \<Longrightarrow> V6 a \<in> set (interface_ips (interface p) nodes)"
    "ll = find_link_local (interface_ips (interface p) nodes)"
  using assms
  by (auto simp: check_local_addresses_def Let_def bindr_eq_Ok is_some_and_def split: option.splits if_splits)

lemma find_link_local_Some: "find_link_local ips = Some a \<Longrightarrow> V6 a \<in> set ips \<and> is_unicast_link_local a"
  by (induction ips rule: find_link_local.induct) (auto split: if_splits)

text \<open>The connection of a listener as one map from its key and the remote address.\<close>

definition channel_of :: "(listener_key \<times> listener_peers) list \<Rightarrow> listener_key \<Rightarrow> ip_addr \<Rightarrow> nat option" where
  "channel_of ls key remote = (case map_of ls key of Some ps \<Rightarrow> map_of ps remote | None \<Rightarrow> None)"

lemma channel_of_add:
  "channel_of (add_listener (i, p) ls) key remote =
    (if key = (local_address p, interface p) \<and> remote = address p then Some i else channel_of ls key remote)"
  by (auto simp: channel_of_def add_listener_def Let_def update_conv' unwrap_or_def split: option.split)

lemma channel_of_fold:
  assumes "distinct (map endpoint_key ps)"
  shows "channel_of (fold add_listener (enumerate k ps) ls) (l, i) remote = Some j \<longleftrightarrow>
    (\<exists>m < length ps. j = k + m \<and> endpoint_key (ps ! m) = (remote, l, i)) \<or>
    (remote, l, i) \<notin> endpoint_key ` set ps \<and> channel_of ls (l, i) remote = Some j"
  using assms
proof (induction ps arbitrary: k ls)
  case (Cons p ps)
  note IH = Cons.IH [of "Suc k" "add_listener (k, p) ls"]
  show ?case
  proof (cases "endpoint_key p = (remote, l, i)")
    case True
    then have "(remote, l, i) \<notin> endpoint_key ` set ps" using Cons.prems by auto
    moreover from this have "\<nexists>m. m < length ps \<and> endpoint_key (ps ! m) = (remote, l, i)"
      by (metis imageI nth_mem)
    ultimately show ?thesis
      using IH Cons.prems True by (auto simp: channel_of_add endpoint_key_def less_Suc_eq_0_disj)
  next
    case False
    then have "channel_of (add_listener (k, p) ls) (l, i) remote = channel_of ls (l, i) remote"
      by (auto simp: channel_of_add endpoint_key_def)
    with IH Cons.prems False show ?thesis by (fastforce simp: less_Suc_eq_0_disj)
  qed
qed simp

lemma dispatch_channel: "dispatch cfg key remote = channel_of (listeners cfg) key remote"
  by (simp add: dispatch_def channel_of_def)

lemma listener_key_peer:
  "key \<in> fst ` set (fold add_listener (enumerate k ps) ls) \<Longrightarrow>
    key \<in> fst ` set ls \<or> (\<exists>p \<in> set ps. key = (local_address p, interface p))"
proof (induction ps arbitrary: k ls)
  case (Cons p ps)
  have "fst ` set (add_listener (k, p) ls) = insert (local_address p, interface p) (fst ` set ls)"
    by (simp add: add_listener_def Let_def dom_update)
  with Cons.IH [of "Suc k" "add_listener (k, p) ls"] Cons.prems show ?case by auto
qed simp

text \<open>A validated key is always installed, and the kernel reads the whole of it.\<close>

lemma install_Ok:
  assumes "peer_ok c p"
  shows "install (\<lambda>_. True) p idx = Ok (map_option (\<lambda>key. \<lparr>sg_address = endpoint (address p) 0 idx,
    sg_key_len = of_nat (length key), sg_key = md5_bytes key @ replicate (80 - length key) 0\<rparr>) (md5_password p))"
proof (cases "md5_password p")
  case (Some key)
  then have "length key \<in> {1..80}" using assms by (simp add: peer_ok_def)
  then show ?thesis
    using Some by (simp add: install_def md5_bytes_def TCP_MD5SIG_MAXKEYLEN_def Let_def SOCKADDR_STORAGE_SIZE_def endpoint_def split: ip_addr.split)
qed (simp add: install_def)

lemma install_all_Ok:
  assumes "\<forall>p \<in> set ps. peer_ok c p"
  shows "\<exists>sigs. install_all (\<lambda>_. True) ps idx = Ok sigs \<and>
    (\<forall>p \<in> set ps. \<forall>key. md5_password p = Some key \<longrightarrow>
      (\<exists>s \<in> set sigs. sg_address s = endpoint (address p) 0 idx \<and> take (unat (sg_key_len s)) (sg_key s) = md5_bytes key))"
  using assms
proof (induction ps)
  case (Cons p ps)
  then obtain sigs where IH: "install_all (\<lambda>_. True) ps idx = Ok sigs"
    "\<forall>p \<in> set ps. \<forall>key. md5_password p = Some key \<longrightarrow>
      (\<exists>s \<in> set sigs. sg_address s = endpoint (address p) 0 idx \<and> take (unat (sg_key_len s)) (sg_key s) = md5_bytes key)"
    by auto
  show ?case
  proof (cases "md5_password p")
    case (Some key)
    then have len: "length key \<le> 80" using Cons.prems by (simp add: peer_ok_def)
    let ?s = "\<lparr>sg_address = endpoint (address p) 0 idx, sg_key_len = of_nat (length key),
      sg_key = md5_bytes key @ replicate (80 - length key) 0\<rparr>"
    have "take (unat (sg_key_len ?s)) (sg_key ?s) = md5_bytes key"
      using len by (simp add: unat_of_nat_u16 md5_bytes_def)
    with IH Some install_Ok [of c p idx] Cons.prems show ?thesis by auto
  qed (use IH install_Ok [of c p idx] Cons.prems in auto)
qed simp

section \<open>Properties\<close>

text \<open>
  C24: An incoming connection reaches the right peer. With a validated configuration, the listener
  of a local address and an interface hands a connection to a peer exactly when the remote address
  is that peer's and the peer uses that local address and interface; other connections are closed.
  Every listener has a peer to take its settings from.
\<close>

theorem listener_dispatch:
  assumes "validate N cfg = Ok ()"
  shows "(dispatch cfg (l, i) remote = Some j \<longleftrightarrow> j < length (peers cfg) \<and> endpoint_key (peers cfg ! j) = (remote, l, i)) \<and>
    (key \<in> fst ` set (listeners cfg) \<longrightarrow> (\<exists>p. listener_peer cfg key = Ok p))"
proof
  have "distinct (map endpoint_key (peers cfg))" using assms by (simp add: validate_ok_iff config_ok_def)
  from channel_of_fold [OF this, of 0 "[]" l i remote j]
  show "dispatch cfg (l, i) remote = Some j \<longleftrightarrow> j < length (peers cfg) \<and> endpoint_key (peers cfg ! j) = (remote, l, i)"
    by (auto simp: dispatch_channel listeners_def channel_of_def)
  show "key \<in> fst ` set (listeners cfg) \<longrightarrow> (\<exists>p. listener_peer cfg key = Ok p)"
  proof
    assume "key \<in> fst ` set (listeners cfg)"
    then have "\<exists>p \<in> set (peers cfg). key = (local_address p, interface p)"
      using listener_key_peer [of key 0 "peers cfg" "[]"] by (simp add: listeners_def)
    then have "find (\<lambda>p. local_address p = fst key \<and> interface p = snd key) (peers cfg) \<noteq> None"
      by (auto simp: find_None_iff)
    then show "\<exists>p. listener_peer cfg key = Ok p" by (auto simp: listener_peer_def)
  qed
qed

theorem listener_dispatch_witness:
  "dispatch example_config (V4 0xC0000201, ''eth0'') (V4 0xC0000202) = Some 0"
  using listener_dispatch [OF validate_ok_iff [THEN iffD2, OF example_config_ok], of "V4 0xC0000201" "''eth0''" "V4 0xC0000202" 0]
  by (simp add: example_config_def example_peer_def endpoint_key_def)

text \<open>
  No neighbour of a shared listener is left without its key: with a validated configuration and
  a kernel that supports TCP-MD5, every key of every peer of the listener is installed for that
  peer's address before the listener accepts connections, complete and of the right length.
\<close>

theorem listener_keys_complete:
  assumes "config_ok N cfg" and "p \<in> set (peers cfg)" and "md5_password p = Some key"
  shows "\<exists>sigs. listener_keys (\<lambda>_. True) cfg (local_address p, interface p) idx = Ok sigs \<and>
    (\<exists>s \<in> set sigs. sg_address s = endpoint (address p) 0 idx \<and> take (unat (sg_key_len s)) (sg_key s) = md5_bytes key)"
proof -
  let ?ps = "filter (\<lambda>q. local_address q = local_address p \<and> interface q = interface p) (peers cfg)"
  have "\<forall>q \<in> set ?ps. peer_ok cfg q" using assms(1) by (simp add: config_ok_def)
  from install_all_Ok [OF this, of idx] assms(2,3) show ?thesis by (auto simp: listener_keys_def)
qed

end
