(* ===== verification/Sockets.thy ===== *)
theory Sockets
  imports Peering
begin

text \<open>
  The set-up of TCP sockets in \<open>src/bgp.rs\<close>: the interface index, the options every BGP socket gets,
  the outgoing connection, and the listeners of \<open>run\<close>.

  A socket is the list of the operations that succeeded on it, in order; \<open>sys\<close> says whether the next
  operation succeeds on a socket with a given history, and \<open>nametoindex\<close> is \<open>if_nametoindex\<close>. An
  operation that fails ends the set-up with its error, and the socket is closed.
\<close>

section \<open>Operations\<close>

datatype domain = Ipv4 | Ipv6

datatype sock_op =
    NewSocket domain
  | BindDevice string
  | SetTtlV4 nat
  | SetHopsV6 nat
  | SetNodelay
  | SetReuse
  | SetOnlyV6
  | SetNonblocking
  | InstallKey signature
  | BindAddr sock_addr
  | ListenOp nat
  | FromStd
  | ConnectTo sock_addr

datatype setup_error = NulInName | NoInterface | SysFailed sock_op | ConnectTimedOut | KeyError md5_error

type_synonym sock = "sock_op list"
type_synonym kernel_calls = "sock \<Rightarrow> sock_op \<Rightarrow> bool"

definition sysop :: "kernel_calls \<Rightarrow> sock_op \<Rightarrow> sock \<Rightarrow> (setup_error, sock) outcome" where
  "sysop sys op s = (if sys s op then Ok (s @ [op]) else Err (SysFailed op))"

definition if_index :: "(string \<Rightarrow> u32) \<Rightarrow> peer \<Rightarrow> (setup_error, u32) outcome" where
  "if_index nametoindex p =
    (if CHR 0x00 \<in> set (interface p) then Err NulInName
     else let n = nametoindex (interface p) in
       bindr (ensure (n \<noteq> 0) NoInterface) (\<lambda>_. Ok n))"

definition configure :: "kernel_calls \<Rightarrow> peer \<Rightarrow> sock \<Rightarrow> (setup_error, sock) outcome" where
  "configure sys p s =
     bindr (sysop sys (BindDevice (interface p)) s) (\<lambda>s.
     bindr (if is_ipv4 (address p) then sysop sys (SetTtlV4 1) s else sysop sys (SetHopsV6 1) s) (\<lambda>s.
     sysop sys SetNodelay s))"

text \<open>\<open>tcp_md5::install\<close> on a socket.\<close>

definition install_on :: "kernel_calls \<Rightarrow> peer \<Rightarrow> u32 \<Rightarrow> sock \<Rightarrow> (setup_error, sock) outcome" where
  "install_on sys p idx s = (case install (\<lambda>sig. sys s (InstallKey sig)) p idx of
     Ok None \<Rightarrow> Ok s
   | Ok (Some sig) \<Rightarrow> Ok (s @ [InstallKey sig])
   | Err e \<Rightarrow> Err (KeyError e)
   | Panic \<Rightarrow> Panic)"

text \<open>\<open>late\<close>: the connection is not established within the connect timeout.\<close>

definition connect :: "(string \<Rightarrow> u32) \<Rightarrow> kernel_calls \<Rightarrow> bool \<Rightarrow> peer \<Rightarrow> (setup_error, sock) outcome" where
  "connect nametoindex sys late p =
     bindr (if_index nametoindex p) (\<lambda>idx.
     bindr (sysop sys (NewSocket (if is_ipv4 (address p) then Ipv4 else Ipv6)) []) (\<lambda>s.
     bindr (configure sys p s) (\<lambda>s.
     bindr (sysop sys (BindAddr (endpoint (local_address p) 0 idx)) s) (\<lambda>s.
     bindr (install_on sys p idx s) (\<lambda>s.
     if late then Err ConnectTimedOut
     else sysop sys (ConnectTo (endpoint (address p) (peer_port p) idx)) s)))))"

fun install_each :: "kernel_calls \<Rightarrow> peer list \<Rightarrow> u32 \<Rightarrow> sock \<Rightarrow> (setup_error, sock) outcome" where
  "install_each sys [] idx s = Ok s"
| "install_each sys (p # ps) idx s = bindr (install_on sys p idx s) (install_each sys ps idx)"

text \<open>The body of the loop over the listeners in \<open>run\<close>, up to the listening socket.\<close>

definition listener_setup :: "(string \<Rightarrow> u32) \<Rightarrow> kernel_calls \<Rightarrow> config \<Rightarrow> listener_key \<Rightarrow> (setup_error, sock) outcome" where
  "listener_setup nametoindex sys cfg key = (case key of (local, iface) \<Rightarrow>
     bindr (expect (find (\<lambda>p. local_address p = local \<and> interface p = iface) (peers cfg))) (\<lambda>p.
     bindr (if_index nametoindex p) (\<lambda>idx.
     bindr (sysop sys (NewSocket (if is_ipv4 local then Ipv4 else Ipv6)) []) (\<lambda>s.
     bindr (sysop sys SetReuse s) (\<lambda>s.
     bindr (if is_ipv6 local then sysop sys SetOnlyV6 s else Ok s) (\<lambda>s.
     bindr (configure sys p s) (\<lambda>s.
     bindr (install_each sys (filter (\<lambda>p. local_address p = local \<and> interface p = iface) (peers cfg)) idx s) (\<lambda>s.
     bindr (sysop sys SetNonblocking s) (\<lambda>s.
     bindr (sysop sys (BindAddr (endpoint local (listen_port cfg) idx)) s) (\<lambda>s.
     bindr (sysop sys (ListenOp 64) s) (\<lambda>s.
     sysop sys FromStd s)))))))))))"

fun listeners_setup :: "(string \<Rightarrow> u32) \<Rightarrow> kernel_calls \<Rightarrow> config \<Rightarrow> listener_key list \<Rightarrow>
    (setup_error, (listener_key \<times> sock) list) outcome" where
  "listeners_setup nametoindex sys cfg [] = Ok []"
| "listeners_setup nametoindex sys cfg (key # keys) =
     bindr (listener_setup nametoindex sys cfg key) (\<lambda>s.
     bindr (listeners_setup nametoindex sys cfg keys) (\<lambda>rest.
     Ok ((key, s) # rest)))"

section \<open>What a socket has been given\<close>

lemma sysop_eq_Ok [simp]: "sysop sys op s = Ok s' \<longleftrightarrow> sys s op \<and> s' = s @ [op]"
  by (auto simp: sysop_def)

lemma sysop_no_panic [simp, no_panic]: "sysop sys op s \<noteq> Panic"
  by (simp add: sysop_def)

text \<open>The hop limit of the transport family: packets do not leave the link.\<close>

definition one_hop :: "ip_addr \<Rightarrow> sock_op" where
  "one_hop a = (if is_ipv4 a then SetTtlV4 1 else SetHopsV6 1)"

definition authenticated :: "peer \<Rightarrow> u32 \<Rightarrow> sock \<Rightarrow> bool" where
  "authenticated p idx s = (\<forall>key. md5_password p = Some key \<longrightarrow>
     (\<exists>sig. InstallKey sig \<in> set s \<and> sg_address sig = endpoint (address p) 0 idx \<and>
       take (unat (sg_key_len sig)) (sg_key sig) = md5_bytes key))"

lemma authenticated_append: "authenticated p idx s \<Longrightarrow> authenticated p idx (s @ s')"
  by (auto simp: authenticated_def)

lemma configure_Ok:
  "configure sys p s = Ok s' \<Longrightarrow> s' = s @ [BindDevice (interface p), one_hop (address p), SetNodelay]"
  by (auto simp: configure_def one_hop_def bindr_eq_Ok split: if_splits)

lemma if_index_Ok: "if_index nametoindex p = Ok idx \<Longrightarrow> idx = nametoindex (interface p) \<and> idx \<noteq> 0"
  by (auto simp: if_index_def Let_def bindr_eq_Ok split: if_splits)

lemma install_Some_key:
  assumes "install so p idx = Ok (Some sig)" and "md5_password p = Some key"
  shows "sg_address sig = endpoint (address p) 0 idx \<and> take (unat (sg_key_len sig)) (sg_key sig) = md5_bytes key"
proof -
  from assms have len: "length (md5_bytes key) \<le> 80" and sig: "sig = \<lparr>sg_address = endpoint (address p) 0 idx,
      sg_key_len = of_nat (length (md5_bytes key)), sg_key = md5_bytes key @ replicate (80 - length (md5_bytes key)) 0\<rparr>"
    by (auto simp: install_def Let_def bindr_eq_Ok TCP_MD5SIG_MAXKEYLEN_def split: if_splits)
  then show ?thesis by (simp add: unat_of_nat_u16)
qed

lemma install_on_Ok:
  assumes "install_on sys p idx s = Ok s'"
  shows "\<exists>keys. s' = s @ map InstallKey keys \<and> authenticated p idx s'"
proof (cases "md5_password p")
  case None
  with assms show ?thesis
    by (intro exI [of _ "[]"]) (auto simp: install_on_def install_def authenticated_def)
next
  case (Some key)
  then have "install (\<lambda>sig. sys s (InstallKey sig)) p idx \<noteq> Ok None"
    by (auto simp: install_def Let_def bindr_eq_Ok split: if_splits)
  with assms obtain sig where sig: "install (\<lambda>sig. sys s (InstallKey sig)) p idx = Ok (Some sig)" "s' = s @ [InstallKey sig]"
    by (auto simp: install_on_def split: outcome.splits option.splits)
  with install_Some_key [OF sig(1) Some] Some show ?thesis
    by (intro exI [of _ "[sig]"]) (auto simp: authenticated_def)
qed

lemma install_each_Ok:
  "install_each sys ps idx s = Ok s' \<Longrightarrow> (\<exists>keys. s' = s @ map InstallKey keys) \<and> (\<forall>p \<in> set ps. authenticated p idx s')"
proof (induction ps arbitrary: s)
  case (Cons p ps)
  then obtain s1 where s1: "install_on sys p idx s = Ok s1" "install_each sys ps idx s1 = Ok s'"
    by (auto simp: bindr_eq_Ok)
  from install_on_Ok [OF s1(1)] obtain k1 where k1: "s1 = s @ map InstallKey k1" "authenticated p idx s1" by blast
  from Cons.IH [OF s1(2)] obtain k2 where k2: "s' = s1 @ map InstallKey k2" "\<forall>p \<in> set ps. authenticated p idx s'" by blast
  have "s' = s @ map InstallKey (k1 @ k2)" using k1 k2 by simp
  moreover have "authenticated p idx s'" using k1(2) k2(1) by (simp add: authenticated_append)
  ultimately show ?case using k2(2) by (intro conjI exI [of _ "k1 @ k2"]) auto
qed auto

lemma authenticated_mono: "authenticated p idx s \<Longrightarrow> set s \<subseteq> set s' \<Longrightarrow> authenticated p idx s'"
  by (auto simp: authenticated_def)

lemma listener_setup_Ok:
  assumes "listener_setup nametoindex sys cfg (local, iface) = Ok s"
  shows "\<exists>p pre. p \<in> set (peers cfg) \<and> local_address p = local \<and> interface p = iface \<and> nametoindex iface \<noteq> 0 \<and>
    s = pre @ [BindAddr (endpoint local (listen_port cfg) (nametoindex iface)), ListenOp 64, FromStd] \<and>
    hd pre = NewSocket (if is_ipv4 local then Ipv4 else Ipv6) \<and> {BindDevice iface, one_hop (address p)} \<subseteq> set pre \<and>
    (\<forall>q \<in> set (peers cfg). local_address q = local \<and> interface q = iface \<longrightarrow> authenticated q (nametoindex iface) pre)"
proof -
  let ?ps = "filter (\<lambda>p. local_address p = local \<and> interface p = iface) (peers cfg)"
  let ?s0 = "[NewSocket (if is_ipv4 local then Ipv4 else Ipv6), SetReuse] @ (if is_ipv6 local then [SetOnlyV6] else [])"
  from assms obtain p idx s1 s2 where p: "find (\<lambda>p. local_address p = local \<and> interface p = iface) (peers cfg) = Some p"
      and idx: "if_index nametoindex p = Ok idx" and s1: "configure sys p ?s0 = Ok s1"
      and s2: "install_each sys ?ps idx s1 = Ok s2"
      and s: "s = s2 @ [SetNonblocking, BindAddr (endpoint local (listen_port cfg) idx), ListenOp 64, FromStd]"
    by (auto simp: listener_setup_def bindr_eq_Ok expect_def split: if_splits option.splits)
  have q: "p \<in> set (peers cfg)" "local_address p = local" "interface p = iface"
    using p by (auto simp: find_Some_split)
  have i: "idx = nametoindex iface" "idx \<noteq> 0" using if_index_Ok [OF idx] q(3) by auto
  from install_each_Ok [OF s2] obtain keys where keys: "s2 = s1 @ map InstallKey keys" "\<forall>q \<in> set ?ps. authenticated q idx s2"
    by blast
  have "set s2 \<subseteq> set (s2 @ [SetNonblocking])" by auto
  with keys(2) have "\<forall>q \<in> set ?ps. authenticated q idx (s2 @ [SetNonblocking])" using authenticated_mono by blast
  moreover have "hd (s2 @ [SetNonblocking]) = NewSocket (if is_ipv4 local then Ipv4 else Ipv6)"
    "{BindDevice iface, one_hop (address p)} \<subseteq> set (s2 @ [SetNonblocking])"
    using keys(1) configure_Ok [OF s1] q(3) by auto
  ultimately show ?thesis
    using q i s by (intro exI [of _ p] exI [of _ "s2 @ [SetNonblocking]"]) auto
qed

lemma connect_Ok:
  assumes "connect nametoindex sys late p = Ok s"
  shows "\<not> late \<and> nametoindex (interface p) \<noteq> 0 \<and>
    (\<exists>pre. s = pre @ [ConnectTo (endpoint (address p) (peer_port p) (nametoindex (interface p)))] \<and>
    {BindDevice (interface p), one_hop (address p), BindAddr (endpoint (local_address p) 0 (nametoindex (interface p)))} \<subseteq> set pre \<and>
    authenticated p (nametoindex (interface p)) pre)"
proof -
  let ?s0 = "[NewSocket (if is_ipv4 (address p) then Ipv4 else Ipv6)]"
  from assms obtain idx s1 s2 where idx: "if_index nametoindex p = Ok idx" and s1: "configure sys p ?s0 = Ok s1"
      and s2: "install_on sys p idx (s1 @ [BindAddr (endpoint (local_address p) 0 idx)]) = Ok s2"
      and s: "\<not> late" "s = s2 @ [ConnectTo (endpoint (address p) (peer_port p) idx)]"
    by (auto simp: connect_def bindr_eq_Ok split: if_splits)
  from install_on_Ok [OF s2] configure_Ok [OF s1] if_index_Ok [OF idx] s show ?thesis by auto
qed

section \<open>When everything works, and when not\<close>

lemma configure_no_panic [simp, no_panic]: "configure sys p s \<noteq> Panic"
  by (auto simp: configure_def bindr_eq_Panic)

lemma if_index_no_panic [simp, no_panic]: "if_index nametoindex p \<noteq> Panic"
  by (auto simp: if_index_def Let_def bindr_eq_Panic)

lemma install_on_no_panic [simp, no_panic]: "install_on sys p idx s \<noteq> Panic"
proof -
  have "install so p idx \<noteq> Panic" for so
    by (auto simp: install_def Let_def bindr_eq_Panic split: option.splits if_splits)
  then show ?thesis by (auto simp: install_on_def split: outcome.splits option.splits)
qed

lemma install_each_no_panic [simp, no_panic]: "install_each sys ps idx s \<noteq> Panic"
  by (induction ps arbitrary: s) (auto simp: bindr_eq_Panic)

lemma listener_setup_no_panic:
  assumes "key \<in> fst ` set (listeners cfg)"
  shows "listener_setup nametoindex sys cfg key \<noteq> Panic"
proof -
  obtain local iface where key: "key = (local, iface)" by (cases key)
  obtain p where "p \<in> set (peers cfg)" "local_address p = local" "interface p = iface"
    using listener_key_peer [of key 0 "peers cfg" "[]"] assms key by (auto simp: listeners_def)
  then have "find (\<lambda>p. local_address p = local \<and> interface p = iface) (peers cfg) \<noteq> None"
    by (auto simp: find_None_iff)
  then show ?thesis by (auto simp: key listener_setup_def bindr_eq_Panic expect_def split: option.splits)
qed

lemma install_on_permissive:
  assumes "peer_ok c p"
  shows "\<exists>s'. install_on (\<lambda>_ _. True) p idx s = Ok s'"
  using install_Ok [OF assms, of idx] by (auto simp: install_on_def split: option.split)

lemma install_each_permissive:
  "\<forall>p \<in> set ps. peer_ok c p \<Longrightarrow> \<exists>s'. install_each (\<lambda>_ _. True) ps idx s = Ok s'"
proof (induction ps arbitrary: s)
  case (Cons p ps)
  then obtain s1 where "install_on (\<lambda>_ _. True) p idx s = Ok s1" using install_on_permissive by fastforce
  with Cons show ?case by simp
qed simp

lemma sysop_permissive [simp]: "sysop (\<lambda>_ _. True) op s = Ok (s @ [op])"
  by simp

lemma configure_permissive: "\<exists>s'. configure (\<lambda>_ _. True) p s = Ok s'"
  by (simp add: configure_def)

lemma if_index_valid: "peer_ok c p \<Longrightarrow> nametoindex (interface p) \<noteq> 0 \<Longrightarrow> if_index nametoindex p = Ok (nametoindex (interface p))"
  by (simp add: if_index_def peer_ok_def Let_def)

lemma listener_setup_permissive:
  assumes "\<forall>p \<in> set (peers cfg). peer_ok cfg p" and "\<forall>p \<in> set (peers cfg). nametoindex (interface p) \<noteq> 0"
    and "key \<in> fst ` set (listeners cfg)"
  shows "\<exists>s. listener_setup nametoindex (\<lambda>_ _. True) cfg key = Ok s"
proof -
  obtain local iface where key: "key = (local, iface)" by (cases key)
  have "\<exists>p \<in> set (peers cfg). local_address p = local \<and> interface p = iface"
    using listener_key_peer [of key 0 "peers cfg" "[]"] assms(3) key by (auto simp: listeners_def)
  then obtain p where p: "find (\<lambda>p. local_address p = local \<and> interface p = iface) (peers cfg) = Some p"
    by (metis (mono_tags, lifting) find_None_iff not_None_eq)
  then have "p \<in> set (peers cfg)" by (auto simp: find_Some_split)
  with assms(1,2) if_index_valid have i: "if_index nametoindex p = Ok (nametoindex (interface p))" by blast
  obtain s1 where s1: "configure (\<lambda>_ _. True) p ([NewSocket (if is_ipv4 local then Ipv4 else Ipv6), SetReuse] @
      (if is_ipv6 local then [SetOnlyV6] else [])) = Ok s1"
    using configure_permissive by blast
  have "\<forall>q \<in> set (filter (\<lambda>p. local_address p = local \<and> interface p = iface) (peers cfg)). peer_ok cfg q"
    using assms(1) by simp
  from install_each_permissive [OF this] obtain s2 where
      "install_each (\<lambda>_ _. True) (filter (\<lambda>p. local_address p = local \<and> interface p = iface) (peers cfg))
        (nametoindex (interface p)) s1 = Ok s2"
    by blast
  with s1 show ?thesis by (simp add: key listener_setup_def p expect_def i split: if_splits)
qed

lemma connect_permissive:
  assumes "peer_ok c p" and "nametoindex (interface p) \<noteq> 0"
  shows "\<exists>s. connect nametoindex (\<lambda>_ _. True) False p = Ok s"
proof -
  have i: "if_index nametoindex p = Ok (nametoindex (interface p))"
    using if_index_valid assms by blast
  obtain s1 where "configure (\<lambda>_ _. True) p [NewSocket (if is_ipv4 (address p) then Ipv4 else Ipv6)] = Ok s1"
    using configure_permissive by blast
  moreover obtain s2 where "install_on (\<lambda>_ _. True) p (nametoindex (interface p))
      (s1 @ [BindAddr (endpoint (local_address p) 0 (nametoindex (interface p)))]) = Ok s2"
    using install_on_permissive [OF assms(1)] by blast
  ultimately show ?thesis by (simp add: connect_def i)
qed

lemma listeners_setup_permissive:
  assumes "\<forall>p \<in> set (peers cfg). peer_ok cfg p" and "\<forall>p \<in> set (peers cfg). nametoindex (interface p) \<noteq> 0"
  shows "set keys \<subseteq> fst ` set (listeners cfg) \<Longrightarrow>
    \<exists>ls. listeners_setup nametoindex (\<lambda>_ _. True) cfg keys = Ok ls \<and> map fst ls = keys"
proof (induction keys)
  case (Cons key keys)
  have "key \<in> fst ` set (listeners cfg)" using Cons.prems by simp
  from listener_setup_permissive [OF assms this]
  obtain s where "listener_setup nametoindex (\<lambda>_ _. True) cfg key = Ok s" by blast
  moreover obtain ls where "listeners_setup nametoindex (\<lambda>_ _. True) cfg keys = Ok ls" "map fst ls = keys"
    using Cons by auto
  ultimately show ?case by simp
qed simp

lemma listeners_setup_no_panic:
  "set keys \<subseteq> fst ` set (listeners cfg) \<Longrightarrow> listeners_setup nametoindex sys cfg keys \<noteq> Panic"
  by (induction keys) (auto simp: bindr_eq_Panic listener_setup_no_panic)

section \<open>Properties\<close>

text \<open>
  C25: No BGP socket talks unguarded. With a validated configuration, when an outgoing connection is
  made its socket was bound to the peering interface and the configured local address, limited to
  one hop in the family of the transport, and given the peer's TCP-MD5 key; and when a listener
  listens, all of this holds for every peer that shares it, each key for that peer's own address.
\<close>

theorem sockets_guarded:
  assumes "validate N cfg = Ok ()" and "p \<in> set (peers cfg)"
  shows "(connect nametoindex sys late p = Ok s \<longrightarrow>
      (\<exists>pre. s = pre @ [ConnectTo (endpoint (address p) (peer_port p) (nametoindex (interface p)))] \<and>
        {BindDevice (interface p), one_hop (address p), BindAddr (endpoint (local_address p) 0 (nametoindex (interface p)))} \<subseteq> set pre \<and>
        authenticated p (nametoindex (interface p)) pre)) \<and>
    (listener_setup nametoindex sys cfg (local_address p, interface p) = Ok s \<longrightarrow>
      (\<exists>pre. s = pre @ [BindAddr (endpoint (local_address p) (listen_port cfg) (nametoindex (interface p))), ListenOp 64, FromStd] \<and>
        {BindDevice (interface p), one_hop (address p)} \<subseteq> set pre \<and> authenticated p (nametoindex (interface p)) pre))"
proof (intro conjI impI)
  assume "connect nametoindex sys late p = Ok s"
  from connect_Ok [OF this] show "\<exists>pre. s = pre @ [ConnectTo (endpoint (address p) (peer_port p) (nametoindex (interface p)))] \<and>
      {BindDevice (interface p), one_hop (address p), BindAddr (endpoint (local_address p) 0 (nametoindex (interface p)))} \<subseteq> set pre \<and>
      authenticated p (nametoindex (interface p)) pre"
    by blast
next
  assume "listener_setup nametoindex sys cfg (local_address p, interface p) = Ok s"
  from listener_setup_Ok [OF this] obtain q pre where q: "q \<in> set (peers cfg)" "local_address q = local_address p"
      and pre: "s = pre @ [BindAddr (endpoint (local_address p) (listen_port cfg) (nametoindex (interface p))), ListenOp 64, FromStd]"
        "{BindDevice (interface p), one_hop (address q)} \<subseteq> set pre" "authenticated p (nametoindex (interface p)) pre"
    using assms(2) by blast
  have "peer_ok cfg p" "peer_ok cfg q" using assms q(1) by (simp_all add: validate_ok_iff config_ok_def)
  then have "one_hop (address q) = one_hop (address p)" using q(2) by (simp add: peer_ok_def one_hop_def)
  with pre show "\<exists>pre. s = pre @ [BindAddr (endpoint (local_address p) (listen_port cfg) (nametoindex (interface p))), ListenOp 64, FromStd] \<and>
      {BindDevice (interface p), one_hop (address p)} \<subseteq> set pre \<and> authenticated p (nametoindex (interface p)) pre"
    by auto
qed

theorem sockets_guarded_witness:
  "\<exists>s. connect (\<lambda>_. 2) (\<lambda>_ _. True) False example_peer = Ok s \<and> {BindDevice ''eth0'', SetTtlV4 1} \<subseteq> set s"
proof -
  have "validate ipnet_ref example_config = Ok ()" "example_peer \<in> set (peers example_config)"
    using example_config_ok by (simp_all add: validate_ok_iff example_config_def)
  note g = sockets_guarded [OF this, of "\<lambda>_. 2" "\<lambda>_ _. True" False]
  have "\<exists>s. connect (\<lambda>_. 2) (\<lambda>_ _. True) False example_peer = Ok s"
    by (simp add: connect_def if_index_def configure_def install_on_def install_def example_peer_def)
  with g show ?thesis by (fastforce simp: example_peer_def one_hop_def)
qed

text \<open>
  The listeners come up. Whatever the operating system answers, setting up the listeners of a
  configuration does not panic; and with a validated configuration whose interfaces exist, when
  every call succeeds, every listener is set up and every peer can be connected to.
\<close>

theorem setup_succeeds:
  "listeners_setup nametoindex sys cfg (map fst (listeners cfg)) \<noteq> Panic \<and>
   (validate N cfg = Ok () \<and> (\<forall>p \<in> set (peers cfg). nametoindex (interface p) \<noteq> 0) \<longrightarrow>
     (\<exists>ls. listeners_setup nametoindex (\<lambda>_ _. True) cfg (map fst (listeners cfg)) = Ok ls \<and> map fst ls = map fst (listeners cfg)) \<and>
     (\<forall>p \<in> set (peers cfg). \<exists>s. connect nametoindex (\<lambda>_ _. True) False p = Ok s))"
proof (intro conjI impI)
  show "listeners_setup nametoindex sys cfg (map fst (listeners cfg)) \<noteq> Panic"
    by (rule listeners_setup_no_panic) simp
  assume a: "validate N cfg = Ok () \<and> (\<forall>p \<in> set (peers cfg). nametoindex (interface p) \<noteq> 0)"
  then have ok: "\<forall>p \<in> set (peers cfg). peer_ok cfg p" by (simp add: validate_ok_iff config_ok_def)
  show "\<exists>ls. listeners_setup nametoindex (\<lambda>_ _. True) cfg (map fst (listeners cfg)) = Ok ls \<and> map fst ls = map fst (listeners cfg)"
    by (rule listeners_setup_permissive [OF ok conjunct2 [OF a]]) simp
  show "\<forall>p \<in> set (peers cfg). \<exists>s. connect nametoindex (\<lambda>_ _. True) False p = Ok s"
    using connect_permissive ok a by blast
qed

theorem setup_succeeds_witness:
  "\<exists>ls. listeners_setup (\<lambda>_. 2) (\<lambda>_ _. True) example_config (map fst (listeners example_config)) = Ok ls \<and>
    map fst ls = [(V4 0xC0000201, ''eth0'')]"
proof -
  have "validate ipnet_ref example_config = Ok ()" using example_config_ok by (simp add: validate_ok_iff)
  moreover have "map fst (listeners example_config) = [(V4 0xC0000201, ''eth0'')]"
    by (simp add: listeners_def example_config_def example_peer_def add_listener_def Let_def)
  ultimately show ?thesis
    using setup_succeeds [of "\<lambda>_. 2" "\<lambda>_ _. True" example_config ipnet_ref] by auto
qed

end
