(* ===== verification/Connection.thy ===== *)
theory Connection
  imports Receive Console Sockets
begin

text \<open>
  The life of a connection in \<open>src/bgp.rs\<close>: the OPEN exchange on one TCP connection, the choice
  between an outgoing and an incoming one, the confirmation that establishes the session, and the
  loop that keeps a peer connected.

  A stream is the list of bytes the peer sends on it. What the operating system and the clock
  decide (socket options, the interface addresses, whether a write meets its deadline, when an
  exchange is complete) are fields of an environment. \<open>fmt\<close> is the rendering of an error with its causes.
\<close>

section \<open>Errors\<close>

datatype conn_error =
    WireError error
  | LocalError local_error
  | SetupError setup_error
  | SendFailed
  | SendDeadline
  | OpenTimeout
  | TaskPanicked
  | ListenerStopped
  | SelectionOverflow
  | SelectionRange
  | ExportsClosed
  | BothFailed "conn_error list"
  | NoUsable "conn_error list" bool
  | StillPending

fun map_err :: "('e \<Rightarrow> 'f) \<Rightarrow> ('e, 'a) outcome \<Rightarrow> ('f, 'a) outcome" where
  "map_err f (Ok x) = Ok x"
| "map_err f (Err e) = Err (f e)"
| "map_err f Panic = Panic"

text \<open>The NOTIFICATION \<open>report\<close> sends for an error: only protocol errors have one.\<close>

definition report_conn :: "conn_error \<Rightarrow> (error, bytes option) outcome" where
  "report_conn e = (case e of WireError e \<Rightarrow> report e | _ \<Rightarrow> Ok None)"

text \<open>
  Writing a complete packet: the milliseconds after which \<open>write_all\<close> has written all of it, or
  \<open>None\<close> when it fails, against a deadline in seconds.
\<close>

definition send :: "nat option \<Rightarrow> nat \<Rightarrow> (conn_error, unit) outcome" where
  "send written secs = (case written of
     None \<Rightarrow> Err SendFailed
   | Some ms \<Rightarrow> ensure (ms \<le> 1000 * secs) SendDeadline)"

section \<open>The OPEN exchange\<close>

record candidate =
  cand_stream :: bytes
  cand_neg :: negotiated
  cand_incoming :: bool
  cand_link_local :: "u128 option"

record open_env =
  oe_sock :: sock
  oe_sys :: kernel_calls
  oe_ifaddrs :: "ifaddr list option"
  oe_written :: "nat option"
  oe_input :: bytes
  oe_ready_ms :: nat

definition open_exchange :: "config \<Rightarrow> peer \<Rightarrow> open_env \<Rightarrow> (conn_error, negotiated \<times> bytes) outcome" where
  "open_exchange cfg p env =
     bindr (map_err WireError (open_msg cfg p)) (\<lambda>_.
     bindr (send (oe_written env) (unat (write_timeout_secs p))) (\<lambda>_.
     bindr (map_err WireError (read_frame (oe_input env))) (\<lambda>((kind, body), stream).
     if kind \<noteq> 1 then Err (WireError (unexpected OpenSent kind body))
     else bindr (map_err WireError (parse_open body cfg p)) (\<lambda>n. Ok (n, stream)))))"

text \<open>The candidate or the error, and the NOTIFICATION that answers the error.\<close>

definition handshake :: "config \<Rightarrow> peer \<Rightarrow> bool \<Rightarrow> open_env \<Rightarrow> (conn_error, candidate) outcome \<times> (error, bytes option) outcome" where
  "handshake cfg p incoming env =
    (case bindr (map_err SetupError (configure (oe_sys env) p (oe_sock env))) (\<lambda>_.
         map_err LocalError (check_local_addresses p (oe_ifaddrs env))) of
       Err e \<Rightarrow> (Err e, Ok None)
     | Panic \<Rightarrow> (Panic, Ok None)
     | Ok link_local \<Rightarrow>
         if 1000 * unat (connect_timeout_secs p) < oe_ready_ms env then (Err OpenTimeout, Ok None)
         else (case open_exchange cfg p env of
             Ok (n, stream) \<Rightarrow>
               (Ok \<lparr>cand_stream = stream, cand_neg = n, cand_incoming = incoming, cand_link_local = link_local\<rparr>, Ok None)
           | Err e \<Rightarrow> (Err e, report_conn e)
           | Panic \<Rightarrow> (Panic, Ok None)))"

text \<open>The task \<open>choose\<close> spawns first: an outgoing connection and the exchange on it.\<close>

definition outgoing :: "(string \<Rightarrow> u32) \<Rightarrow> bool \<Rightarrow> config \<Rightarrow> peer \<Rightarrow> open_env \<Rightarrow>
    (conn_error, candidate) outcome \<times> (error, bytes option) outcome" where
  "outgoing nametoindex late cfg p env = (case connect nametoindex (oe_sys env) late p of
     Ok s \<Rightarrow> handshake cfg p False (env\<lparr>oe_sock := s\<rparr>)
   | Err e \<Rightarrow> (Err (SetupError e), Ok None)
   | Panic \<Rightarrow> (Panic, Ok None))"

section \<open>Choosing a connection\<close>

definition prefer_incoming :: "config \<Rightarrow> peer \<Rightarrow> negotiated \<Rightarrow> bool" where
  "prefer_incoming cfg p n =
    (router_id cfg < neg_router_id n \<or> router_id cfg = neg_router_id n \<and> asn cfg < remote_asn p)"

record chooser =
  ch_tasks :: nat
  ch_errors :: "conn_error list"
  ch_pending :: "candidate option"
  ch_started :: bool
  ch_deadline :: nat

text \<open>The arms of the \<open>select!\<close>: an incoming stream, a finished task, and the deadline.\<close>

datatype choose_event = Incoming | IncomingClosed | Joined "(conn_error, candidate) outcome" nat | Deadline nat

datatype choose_result = Waiting chooser | Chosen candidate "candidate option" | GaveUp conn_error

text \<open>Seconds of the clock are an \<open>i64\<close>: a deadline outside its range is an error, not a panic.\<close>

definition choose_init :: "peer \<Rightarrow> nat \<Rightarrow> (conn_error, chooser) outcome" where
  "choose_init p now =
     bindr (ensure (unat (connect_timeout_secs p) + 2 < 2 ^ 64) SelectionOverflow) (\<lambda>_.
     bindr (ensure (now div 1000 + (unat (connect_timeout_secs p) + 2) < 2 ^ 63) SelectionRange) (\<lambda>_.
     Ok \<lparr>ch_tasks = 1, ch_errors = [], ch_pending = None, ch_started = False,
       ch_deadline = now + 1000 * (unat (connect_timeout_secs p) + 2)\<rparr>))"

fun choose_enabled :: "choose_event \<Rightarrow> chooser \<Rightarrow> bool" where
  "choose_enabled Incoming ch = (\<not> ch_started ch)"
| "choose_enabled IncomingClosed ch = (\<not> ch_started ch)"
| "choose_enabled (Joined r now) ch = (0 < ch_tasks ch)"
| "choose_enabled (Deadline now) ch = (ch_deadline ch \<le> now)"

text \<open>A chosen candidate comes with the pending one that is closed in its favour.\<close>

fun choose_step :: "config \<Rightarrow> peer \<Rightarrow> choose_event \<Rightarrow> chooser \<Rightarrow> choose_result" where
  "choose_step cfg p Incoming ch = Waiting (ch\<lparr>ch_started := True, ch_tasks := ch_tasks ch + 1\<rparr>)"
| "choose_step cfg p IncomingClosed ch = GaveUp ListenerStopped"
| "choose_step cfg p (Joined (Ok c) now) ch =
    (if cand_incoming c = prefer_incoming cfg p (cand_neg c) then Chosen c (ch_pending ch)
     else Waiting (ch\<lparr>ch_tasks := ch_tasks ch - 1, ch_pending := Some c, ch_deadline := now + 500\<rparr>))"
| "choose_step cfg p (Joined (Err e) now) ch =
    (let ch = ch\<lparr>ch_tasks := ch_tasks ch - 1, ch_errors := ch_errors ch @ [e]\<rparr> in
     if ch_tasks ch = 0 \<and> ch_pending ch = None \<and> ch_started ch then GaveUp (BothFailed (ch_errors ch)) else Waiting ch)"
| "choose_step cfg p (Joined Panic now) ch = GaveUp TaskPanicked"
| "choose_step cfg p (Deadline now) ch = (case ch_pending ch of
     Some c \<Rightarrow> Chosen c None
   | None \<Rightarrow> GaveUp (NoUsable (if ch_errors ch = [] then [StillPending] else ch_errors ch) (ch_started ch)))"

inductive choosing :: "config \<Rightarrow> peer \<Rightarrow> choose_event list \<Rightarrow> chooser \<Rightarrow> bool"
  for cfg :: config and p :: peer where
  start: "choose_init p now = Ok ch \<Longrightarrow> choosing cfg p [] ch"
| step: "choosing cfg p es ch \<Longrightarrow> choose_enabled e ch \<Longrightarrow> choose_step cfg p e ch = Waiting ch' \<Longrightarrow>
    choosing cfg p (es @ [e]) ch'"

inductive chosen :: "config \<Rightarrow> peer \<Rightarrow> choose_event list \<Rightarrow> candidate \<Rightarrow> bool"
  for cfg :: config and p :: peer where
  decide: "choosing cfg p es ch \<Longrightarrow> choose_enabled e ch \<Longrightarrow> choose_step cfg p e ch = Chosen c old \<Longrightarrow>
    chosen cfg p (es @ [e]) c"

section \<open>Establishing a session\<close>

record confirm_env =
  ce_written :: "nat option"
  ce_ready_ms :: nat

definition session_peer :: "peer \<Rightarrow> candidate \<Rightarrow> peer" where
  "session_peer p c =
    (if peer_ipv6 p \<and> next_hop_v6_link_local p = None then p\<lparr>next_hop_v6_link_local := cand_link_local c\<rparr> else p)"

definition confirm_timeout :: "negotiated \<Rightarrow> error" where
  "confirm_timeout n = Protocol \<lparr>pe_code = (if hold n = 0 then 5 else 4), pe_subcode = 0, pe_data = [],
     pe_reason = ''OpenConfirm timeout''\<rparr>"

definition confirm_secs :: "peer \<Rightarrow> negotiated \<Rightarrow> nat" where
  "confirm_secs p n = (if hold n = 0 then unat (connect_timeout_secs p) else unat (hold n))"

text \<open>The part of \<open>session\<close> before the session is established; \<open>Ok\<close> is the rest of the stream.\<close>

definition session_confirm :: "peer \<Rightarrow> candidate \<Rightarrow> confirm_env \<Rightarrow> (conn_error, bytes) outcome \<times> (error, bytes option) outcome" where
  "session_confirm p c env =
    (case send (ce_written env) (unat (write_timeout_secs p)) of
       Err e \<Rightarrow> (Err e, Ok None)
     | Panic \<Rightarrow> (Panic, Ok None)
     | Ok _ \<Rightarrow>
       let failed = (\<lambda>e. (Err (WireError e), report e)) in
       if 1000 * confirm_secs p (cand_neg c) < ce_ready_ms env then failed (confirm_timeout (cand_neg c))
       else (case read_frame (cand_stream c) of
           Err e \<Rightarrow> failed e
         | Panic \<Rightarrow> (Panic, Ok None)
         | Ok ((kind, body), stream) \<Rightarrow>
             if kind \<noteq> KEEPALIVE then failed (unexpected OpenConfirm kind body)
             else (Ok stream, Ok None)))"

text \<open>
  The updates of the peer's status during \<open>session\<close>, and its result; \<open>joint\<close> is how the two
  halves of the established session end.
\<close>

definition session :: "peer \<Rightarrow> candidate \<Rightarrow> confirm_env \<Rightarrow> (conn_error, unit) outcome \<Rightarrow>
    (string \<times> conn_error option) list \<times> (conn_error, unit) outcome" where
  "session p c env joint =
    (case fst (session_confirm p c env) of
       Ok _ \<Rightarrow> ([(''OpenConfirm'', None), (''Established'', None)] @
           (case joint of
              Ok _ \<Rightarrow> [(''Active'', None)]
            | Err e \<Rightarrow> [(''Active'', Some e)]
            | Panic \<Rightarrow> []), joint)
     | Err e \<Rightarrow> ([(''OpenConfirm'', None)], Err e)
     | Panic \<Rightarrow> ([(''OpenConfirm'', None)], Panic))"

section \<open>The peer loop\<close>

record peer_state =
  pl_failures :: u32
  pl_status :: peer_status

text \<open>One attempt: the choice failed, or a session ran for some milliseconds.\<close>

datatype attempt = ChoiceFailed conn_error | SessionRan nat "(string \<times> conn_error option) list" "(conn_error, unit) outcome"

definition set_status :: "(conn_error \<Rightarrow> string) \<Rightarrow> nat \<Rightarrow> string \<times> conn_error option \<Rightarrow> peer_state \<Rightarrow> peer_state" where
  "set_status fmt now u s = s\<lparr>pl_status := update_status now (fst u) (map_option fmt (snd u)) (pl_status s)\<rparr>"

definition backoff_secs :: "u32 \<Rightarrow> nat" where
  "backoff_secs failures = min (2 ^ min (unat failures) 5) 30"

definition retry_ms :: "u32 \<Rightarrow> nat \<Rightarrow> nat" where
  "retry_ms failures jitter = backoff_secs failures * 1000 + jitter"

definition peer_attempt :: "(conn_error \<Rightarrow> string) \<Rightarrow> nat \<Rightarrow> attempt \<Rightarrow> peer_state \<Rightarrow> peer_state" where
  "peer_attempt fmt now a s =
    (let s = set_status fmt now (''Connect'', None) s;
         s = (case a of
             ChoiceFailed e \<Rightarrow> set_status fmt now (''Active'', Some e) s
           | SessionRan elapsed updates result \<Rightarrow>
               let s = fold (set_status fmt now) updates s;
                   s = (case result of Err e \<Rightarrow> set_status fmt now (''Active'', Some e) s | _ \<Rightarrow> s)
               in if 30000 \<le> elapsed then s\<lparr>pl_failures := 0\<rparr> else s);
         s = set_status fmt now (''Active'', None) s
     in s\<lparr>pl_failures := saturating_inc (pl_failures s)\<rparr>)"

text \<open>An incoming connection during the back-off: its handshake fails, or its session ends.\<close>

definition backoff_incoming :: "(conn_error \<Rightarrow> string) \<Rightarrow> nat \<Rightarrow> conn_error + (string \<times> conn_error option) list \<times> (conn_error, unit) outcome \<Rightarrow>
    peer_state \<Rightarrow> peer_state" where
  "backoff_incoming fmt now r s = (case r of
     Inl e \<Rightarrow> set_status fmt now (''Active'', Some e) s
   | Inr (updates, result) \<Rightarrow>
       let s = fold (set_status fmt now) updates s
       in case result of Err e \<Rightarrow> set_status fmt now (''Active'', Some e) s | _ \<Rightarrow> s)"

section \<open>Library lemmas\<close>

lemma send_eq_Ok [simp]: "send w secs = Ok u \<longleftrightarrow> (\<exists>ms. w = Some ms \<and> ms \<le> 1000 * secs)"
  by (auto simp: send_def split: option.splits)

lemma send_no_panic [simp, no_panic]: "send w secs \<noteq> Panic"
  by (simp add: send_def split: option.split)

lemma send_eq_Err [simp]:
  "send w secs = Err e \<longleftrightarrow> w = None \<and> e = SendFailed \<or> (\<exists>ms. w = Some ms \<and> 1000 * secs < ms \<and> e = SendDeadline)"
  by (auto simp: send_def split: option.splits)

lemma map_err_eq [simp]:
  "map_err f m = Ok x \<longleftrightarrow> m = Ok x" "map_err f m = Panic \<longleftrightarrow> m = Panic" "map_err f m = Err e \<longleftrightarrow> (\<exists>e'. m = Err e' \<and> e = f e')"
  by (cases m; auto)+

lemma report_Ok: "\<exists>r. report e = Ok r"
proof (cases e)
  case (Protocol pe)
  have "\<exists>pkt. notification (pe_code pe) (pe_subcode pe) (pe_data pe) = Ok pkt"
    unfolding notification_Ok using frame_bytes_Ok [OF body_ok_notification] by blast
  with Protocol show ?thesis by (auto simp: report_def)
qed (simp_all add: report_def)

lemma report_conn_Ok: "\<exists>r. report_conn e = Ok r"
  using report_Ok by (auto simp: report_conn_def split: conn_error.split)

lemma check_local_no_panic: "check_local_addresses p root \<noteq> Panic"
  by (auto simp: check_local_addresses_def Let_def bindr_eq_Panic split: option.splits if_splits)

lemma open_exchange_no_panic: "open_exchange cfg p env \<noteq> Panic"
proof -
  have "open_msg cfg p \<noteq> Panic"
    using frame_bytes_Ok [OF body_ok_open, of cfg p] by (simp add: open_msg_def)
  then show ?thesis
    by (auto simp: open_exchange_def bindr_eq_Panic read_frame_no_panic parse_open_no_panic split: if_splits)
qed

text \<open>What a candidate guarantees.\<close>

lemma handshake_Ok:
  assumes "fst (handshake cfg p incoming env) = Ok c"
  shows "cand_incoming c = incoming" and "neg_wf cfg p (cand_neg c)"
    and "check_local_addresses p (oe_ifaddrs env) = Ok (cand_link_local c)"
  using assms parse_open_wf
  by (auto simp: handshake_def open_exchange_def bindr_eq_Ok split: if_splits outcome.splits)

lemma next_hops_link_local [simp]:
  "nh4 (p\<lparr>next_hop_v6_link_local := l\<rparr>) = nh4 p" "nh6 (p\<lparr>next_hop_v6_link_local := l\<rparr>) = nh6 p"
  by (simp_all add: nh4_def nh6_def cong: option.case_cong)

lemma session_peer_fields [simp]:
  "peer_ipv4 (session_peer p c) = peer_ipv4 p" "peer_ipv6 (session_peer p c) = peer_ipv6 p"
  "export_acl (session_peer p c) = export_acl p" "remote_asn (session_peer p c) = remote_asn p"
  "hold_time_secs (session_peer p c) = hold_time_secs p" "interface (session_peer p c) = interface p"
  "nh4 (session_peer p c) = nh4 p" "nh6 (session_peer p c) = nh6 p"
  by (simp_all add: session_peer_def)

lemma session_peer_ok:
  assumes "peer_ok cfg p" and "\<And>a. cand_link_local c = Some a \<Longrightarrow> is_unicast_link_local a"
  shows "peer_ok cfg (session_peer p c)"
  using assms by (auto simp: session_peer_def peer_ok_def)

lemma neg_wf_session_peer [simp]: "neg_wf cfg (session_peer p c) n = neg_wf cfg p n"
  by (simp add: neg_wf_def)

lemma handshake_session:
  assumes "peer_ok cfg p" and "fst (handshake cfg p incoming env) = Ok c"
  shows "peer_ok cfg (session_peer p c) \<and> neg_wf cfg (session_peer p c) (cand_neg c)"
proof -
  note hs = handshake_Ok [OF assms(2)]
  from hs(3) have "cand_link_local c = Some a \<Longrightarrow> is_unicast_link_local a" for a
    by (rule check_local_Ok) (metis find_link_local_Some)
  with hs(2) session_peer_ok [OF assms(1)] show ?thesis by simp
qed

section \<open>Collisions\<close>

text \<open>
  The interface of a tie break between two routers: each compares its own identity with the
  other's, and they come to opposite answers. Then both keep the same one of two connections,
  since what is incoming for one is outgoing for the other.
\<close>

locale tie_break =
  fixes yields :: "'a \<Rightarrow> 'a \<Rightarrow> bool"
  assumes opposite: "x \<noteq> y \<Longrightarrow> yields x y = (\<not> yields y x)"
begin

lemma same_connection: "x \<noteq> y \<Longrightarrow> a = yields x y \<Longrightarrow> b = yields y x \<Longrightarrow> a = (\<not> b)"
  using opposite by blast

end

definition identity_less :: "u32 \<times> u32 \<Rightarrow> u32 \<times> u32 \<Rightarrow> bool" where
  "identity_less x y = (fst x < fst y \<or> fst x = fst y \<and> snd x < snd y)"

lemma prefer_incoming_identity:
  "prefer_incoming cfg p n = identity_less (router_id cfg, asn cfg) (neg_router_id n, remote_asn p)"
  by (simp add: prefer_incoming_def identity_less_def)

interpretation router: tie_break identity_less
  by unfold_locales (auto simp: identity_less_def prod_eq_iff)

lemma choosing_inv:
  assumes "choosing cfg p es ch"
  shows "(\<forall>c now. Joined (Ok c) now \<in> set es \<longrightarrow> cand_incoming c \<noteq> prefer_incoming cfg p (cand_neg c)) \<and>
    (\<forall>c. ch_pending ch = Some c \<longrightarrow> (\<exists>now. Joined (Ok c) now \<in> set es \<and> ch_deadline ch = now + 500))"
  using assms
proof induction
  case (start now ch)
  then show ?case by (auto simp: choose_init_def bindr_eq_Ok)
next
  case (step es ch e ch')
  from step.hyps(3) step.IH show ?case
    by (cases "(cfg, p, e, ch)" rule: choose_step.cases) (auto simp: Let_def split: if_splits option.splits)
qed

lemma chosen_spec:
  assumes "chosen cfg p es c"
  shows "(\<exists>now. Joined (Ok c) now \<in> set es) \<and>
    (cand_incoming c = prefer_incoming cfg p (cand_neg c) \<or>
     (\<forall>c' now. Joined (Ok c') now \<in> set es \<longrightarrow> cand_incoming c' \<noteq> prefer_incoming cfg p (cand_neg c')) \<and>
     (\<exists>joined late. Joined (Ok c) joined \<in> set es \<and> last es = Deadline late \<and> joined + 500 \<le> late))"
  using assms
proof cases
  case (decide es' ch e old)
  note inv = choosing_inv [OF decide(2)]
  from decide(4) inv decide(3) show ?thesis
    by (cases "(cfg, p, e, ch)" rule: choose_step.cases) (fastforce simp: decide(1) Let_def split: if_splits option.splits)+
qed

lemma chosen_preferred:
  assumes "chosen cfg p es c" and "Joined (Ok c') now \<in> set es" and "cand_incoming c' = prefer_incoming cfg p (cand_neg c')"
  shows "cand_incoming c = prefer_incoming cfg p (cand_neg c)"
  using chosen_spec [OF assms(1)] assms(2,3) by blast

section \<open>The peer loop\<close>

lemma set_status_simps [simp]:
  "pl_failures (set_status fmt now u s) = pl_failures s"
  "ps_state (pl_status (set_status fmt now u s)) = fst u"
  "ps_last_error (pl_status (set_status fmt now u s)) =
    (case snd u of Some e \<Rightarrow> Some (fmt e) | None \<Rightarrow> ps_last_error (pl_status s))"
  by (simp_all add: set_status_def update_status_def Let_def split: option.split)

lemma fold_set_status_failures [simp]: "pl_failures (fold (set_status fmt now) us s) = pl_failures s"
  by (induction us arbitrary: s) simp_all

lemma unat_saturating_inc: "unat (saturating_inc n) = min (unat n + 1) (2 ^ 32 - 1)"
proof (cases "unat n + 1 < 2 ^ 32")
  case True
  then have "unat (n + 1) = unat n + 1" by (simp add: unat_word_ariths)
  with True show ?thesis by (simp add: saturating_inc_def)
next
  case False
  moreover have "unat n < 2 ^ 32" using unsigned_less [of n] by simp
  ultimately show ?thesis by (simp add: saturating_inc_def)
qed

lemma backoff_secs_bounds: "1 \<le> unat n \<Longrightarrow> 2 \<le> backoff_secs n \<and> backoff_secs n \<le> 30"
  using power_increasing [of 1 "min (unat n) 5" "2 :: nat"] by (simp add: backoff_secs_def)

definition attempt_error :: "attempt \<Rightarrow> conn_error option" where
  "attempt_error a = (case a of ChoiceFailed e \<Rightarrow> Some e | SessionRan _ _ (Err e) \<Rightarrow> Some e | _ \<Rightarrow> None)"

lemma peer_attempt_failures:
  "pl_failures (peer_attempt fmt now a s) =
    saturating_inc (case a of SessionRan elapsed _ _ \<Rightarrow> if 30000 \<le> elapsed then 0 else pl_failures s | _ \<Rightarrow> pl_failures s)"
  by (auto simp: peer_attempt_def Let_def split: attempt.split outcome.split)

lemma peer_attempt_status:
  "ps_state (pl_status (peer_attempt fmt now a s)) = ''Active''"
  "attempt_error a = Some e \<Longrightarrow> ps_last_error (pl_status (peer_attempt fmt now a s)) = Some (fmt e)"
  by (auto simp: peer_attempt_def Let_def attempt_error_def set_status_def update_status_def split: attempt.splits outcome.splits)

section \<open>Properties\<close>

text \<open>
  C17: A collision is resolved the same way on both sides. Take two routers configured for each
  other whose identifiers or ASNs differ, and let each choose among its candidates, in any order
  of events. If on each side a candidate of the direction it prefers has completed its OPEN
  exchange before the choice, both choose the same TCP connection: the one that is incoming for
  one of them is outgoing for the other.
\<close>

theorem collision_same_connection:
  assumes "asn c = remote_asn rp" and "asn rc = remote_asn p" and "(router_id c, asn c) \<noteq> (router_id rc, asn rc)"
    and "chosen c p es x" and "\<forall>y t. Joined (Ok y) t \<in> set es \<longrightarrow> neg_router_id (cand_neg y) = router_id rc"
    and "Joined (Ok y) t \<in> set es" and "cand_incoming y = prefer_incoming c p (cand_neg y)"
    and "chosen rc rp es' x'" and "\<forall>y t. Joined (Ok y) t \<in> set es' \<longrightarrow> neg_router_id (cand_neg y) = router_id c"
    and "Joined (Ok y') t' \<in> set es'" and "cand_incoming y' = prefer_incoming rc rp (cand_neg y')"
  shows "cand_incoming x = (\<not> cand_incoming x')"
proof -
  have "neg_router_id (cand_neg x) = router_id rc" "neg_router_id (cand_neg x') = router_id c"
    using chosen_spec [OF assms(4)] chosen_spec [OF assms(8)] assms(5,9) by blast+
  moreover have "cand_incoming x = prefer_incoming c p (cand_neg x)" "cand_incoming x' = prefer_incoming rc rp (cand_neg x')"
    using chosen_preferred [OF assms(4,6,7)] chosen_preferred [OF assms(8,10,11)] .
  ultimately show ?thesis
    using router.same_connection [OF assms(3)] assms(1,2) by (simp add: prefer_incoming_identity)
qed

definition example_candidate :: "u32 \<Rightarrow> bool \<Rightarrow> candidate" where
  "example_candidate rid incoming = \<lparr>cand_stream = [], cand_neg = example_neg\<lparr>neg_router_id := rid\<rparr>,
     cand_incoming = incoming, cand_link_local = None\<rparr>"

lemma example_chosen:
  "chosen example_config example_peer [Incoming, Joined (Ok (example_candidate 0xC0000202 True)) 1] (example_candidate 0xC0000202 True)"
  "chosen remote_config remote_peer [Joined (Ok (example_candidate 0xC0000201 False)) 1] (example_candidate 0xC0000201 False)"
proof -
  let ?ch = "\<lparr>ch_tasks = 1, ch_errors = [], ch_pending = None, ch_started = False, ch_deadline = 12000\<rparr>"
  have init: "choose_init example_peer 0 = Ok ?ch" "choose_init remote_peer 0 = Ok ?ch"
    by (simp_all add: choose_init_def remote_defs)
  have "choosing example_config example_peer ([] @ [Incoming]) (?ch\<lparr>ch_started := True, ch_tasks := 2\<rparr>)"
    by (rule choosing.step [OF choosing.start [OF init(1)]]) simp_all
  from chosen.decide [OF this, of "Joined (Ok (example_candidate 0xC0000202 True)) 1" "example_candidate 0xC0000202 True" None]
  show "chosen example_config example_peer [Incoming, Joined (Ok (example_candidate 0xC0000202 True)) 1] (example_candidate 0xC0000202 True)"
    by (simp add: example_candidate_def prefer_incoming_def remote_defs)
  from chosen.decide [OF choosing.start [OF init(2), of remote_config], of "Joined (Ok (example_candidate 0xC0000201 False)) 1"
      "example_candidate 0xC0000201 False" None]
  show "chosen remote_config remote_peer [Joined (Ok (example_candidate 0xC0000201 False)) 1] (example_candidate 0xC0000201 False)"
    by (simp add: example_candidate_def prefer_incoming_def remote_defs)
qed

theorem collision_same_connection_witness:
  "cand_incoming (example_candidate 0xC0000202 True) = (\<not> cand_incoming (example_candidate 0xC0000201 False))"
  by (rule collision_same_connection [OF _ _ _ example_chosen(1) _ _ _ example_chosen(2), where t = 1 and t' = 1
        and y = "example_candidate 0xC0000202 True" and y' = "example_candidate 0xC0000201 False"])
    (simp_all add: example_candidate_def prefer_incoming_def remote_defs)

text \<open>
  The choice of a connection follows the preference: the chosen candidate has completed its
  OPEN exchange, and it has the other than the preferred direction only when no candidate of the
  preferred direction has completed by the time of the choice and at least half a second has
  passed since the chosen one did.
\<close>

theorem choose_settles:
  assumes "chosen cfg p es c"
  shows "(\<exists>t. Joined (Ok c) t \<in> set es) \<and>
    (cand_incoming c = prefer_incoming cfg p (cand_neg c) \<or>
     (\<forall>c' t. Joined (Ok c') t \<in> set es \<longrightarrow> cand_incoming c' \<noteq> prefer_incoming cfg p (cand_neg c')) \<and>
     (\<exists>joined late. Joined (Ok c) joined \<in> set es \<and> last es = Deadline late \<and> joined + 500 \<le> late))"
  by (rule chosen_spec [OF assms])

theorem choose_settles_witness:
  "\<exists>t. Joined (Ok (example_candidate 0xC0000202 True)) t \<in> set [Incoming, Joined (Ok (example_candidate 0xC0000202 True)) 1]"
  using choose_settles [OF example_chosen(1)] by blast

text \<open>
  C27: A session is established exactly by the peer's KEEPALIVE: its status becomes Established if
  and only if the own KEEPALIVE was written and the first message of the peer is a KEEPALIVE that
  is complete within the hold time (the connection timeout when the hold time is zero). Otherwise
  the session ends with an error, no panic, and the error is answered by a NOTIFICATION exactly
  when it is a protocol error.
\<close>

theorem session_establishes:
  "((''Established'', None) \<in> set (fst (session p c env joint)) \<longleftrightarrow>
      (\<exists>ms. ce_written env = Some ms \<and> ms \<le> 1000 * unat (write_timeout_secs p)) \<and> ce_ready_ms env \<le> 1000 * (if hold (cand_neg c) = 0 then unat (connect_timeout_secs p) else unat (hold (cand_neg c))) \<and>
      (\<exists>stream. read_frame (cand_stream c) = Ok ((KEEPALIVE, []), stream))) \<and>
   (\<exists>r. snd (session_confirm p c env) = Ok r \<and>
      (r \<noteq> None \<longleftrightarrow> (\<exists>pe. fst (session_confirm p c env) = Err (WireError (Protocol pe))))) \<and>
   fst (session_confirm p c env) \<noteq> Panic"
proof -
  have fr: "b = [] \<and> k = 4" if "read_frame (cand_stream c) = Ok ((k, b), stream)" "k = KEEPALIVE" for k b stream
    using read_frame_inverse [OF that(1)] that(2) by (auto simp: body_ok_def valid_length_def KEEPALIVE_def)
  have rep: "\<exists>r. report e = Ok r \<and> (r \<noteq> None \<longleftrightarrow> (\<exists>pe. e = Protocol pe))" for e
    using report_Ok [of e] by (cases e) (auto simp: report_def bindr_eq_Ok)
  have "fst (session_confirm p c env) = Ok stream \<longleftrightarrow> (\<exists>ms. ce_written env = Some ms \<and> ms \<le> 1000 * unat (write_timeout_secs p)) \<and> ce_ready_ms env \<le> 1000 * confirm_secs p (cand_neg c) \<and>
      read_frame (cand_stream c) = Ok ((KEEPALIVE, []), stream)" for stream
    using fr by (auto simp: session_confirm_def Let_def split: outcome.split if_splits)
  moreover have "(''Established'', None) \<in> set (fst (session p c env joint)) \<longleftrightarrow> (\<exists>stream. fst (session_confirm p c env) = Ok stream)"
    by (auto simp: session_def split: outcome.splits)
  moreover have "(\<exists>r. snd (session_confirm p c env) = Ok r \<and>
      (r \<noteq> None \<longleftrightarrow> (\<exists>pe. fst (session_confirm p c env) = Err (WireError (Protocol pe))))) \<and> fst (session_confirm p c env) \<noteq> Panic"
    using rep by (auto simp: session_confirm_def Let_def read_frame_no_panic split: outcome.split)
  ultimately show ?thesis by (simp add: confirm_secs_def)
qed

text \<open>A candidate of the outgoing task was made on a socket that was set up in full.\<close>

lemma outgoing_Ok:
  assumes "fst (outgoing nametoindex late cfg p env) = Ok c"
  shows "\<exists>s. connect nametoindex (oe_sys env) late p = Ok s \<and> fst (handshake cfg p False (env\<lparr>oe_sock := s\<rparr>)) = Ok c"
  using assms by (auto simp: outgoing_def split: outcome.splits)

text \<open>
  C26: Every next hop a session announces belongs to the peering interface: after a successful
  handshake, the IPv4 next hop, the IPv6 next hop and the link-local next hop (the configured or
  the filled-in one) that the session uses for an enabled family are addresses of the interface,
  and so is the local address of the connection.
\<close>

theorem next_hops_local:
  assumes "fst (handshake cfg p incoming env) = Ok c"
  shows "\<exists>nodes. oe_ifaddrs env = Some nodes \<and>
    (let ips = set (interface_ips (interface p) nodes); q = session_peer p c in
     local_address p \<in> ips \<and>
     (peer_ipv4 q \<longrightarrow> (\<exists>a. nh4 q = Some a \<and> V4 a \<in> ips)) \<and>
     (peer_ipv6 q \<longrightarrow> (\<exists>a. nh6 q = Some a \<and> V6 a \<in> ips)) \<and>
     (\<forall>a. next_hop_v6_link_local q = Some a \<longrightarrow> V6 a \<in> ips))"
proof -
  from handshake_Ok(3) [OF assms] obtain nodes where n: "oe_ifaddrs env = Some nodes"
      "local_address p \<in> set (interface_ips (interface p) nodes)"
      "peer_ipv4 p \<Longrightarrow> \<exists>a. nh4 p = Some a \<and> V4 a \<in> set (interface_ips (interface p) nodes)"
      "peer_ipv6 p \<Longrightarrow> \<exists>a. nh6 p = Some a \<and> V6 a \<in> set (interface_ips (interface p) nodes)"
      "\<And>a. next_hop_v6_link_local p = Some a \<Longrightarrow> V6 a \<in> set (interface_ips (interface p) nodes)"
      "cand_link_local c = find_link_local (interface_ips (interface p) nodes)"
    by (rule check_local_Ok) blast
  then have "next_hop_v6_link_local (session_peer p c) = Some a \<Longrightarrow> V6 a \<in> set (interface_ips (interface p) nodes)" for a
    by (auto simp: session_peer_def dest: find_link_local_Some split: if_splits)
  with n show ?thesis by (simp add: Let_def)
qed

definition example_env_open :: open_env where
  "example_env_open = \<lparr>oe_sock = [], oe_sys = (\<lambda>_ _. True),
     oe_ifaddrs = Some [\<lparr>ifa_name = ''lo'', ifa_addr = Some (SaInet 0x7F000001)\<rparr>, \<lparr>ifa_name = ''eth0'', ifa_addr = Some (SaInet 0xC0000201)\<rparr>],
     oe_written = Some 1, oe_input = frame_bytes (1, open_body remote_config remote_peer), oe_ready_ms = 5\<rparr>"

lemma example_handshake: "\<exists>c. fst (handshake example_config example_peer False example_env_open) = Ok c"
proof -
  have "read_frame (frame_bytes (1, open_body remote_config remote_peer) @ []) = Ok ((1, open_body remote_config remote_peer), [])"
    by (rule read_frame_bytes [OF body_ok_open])
  moreover have "\<exists>n. parse_open (open_body remote_config remote_peer) example_config example_peer = Ok n"
    by (subst parse_open_body) (auto simp: negotiate_def Let_def remote_defs)
  moreover have "open_msg example_config example_peer = Ok (frame_bytes (1, open_body example_config example_peer))"
    using frame_bytes_Ok [OF body_ok_open] by (simp add: open_msg_def)
  moreover have "\<exists>ll. check_local_addresses example_peer (oe_ifaddrs example_env_open) = Ok ll"
    by (simp add: check_local_addresses_def example_env_open_def example_peer_def nh4_def is_some_and_def Let_def)
  ultimately show ?thesis
    by (auto simp: handshake_def open_exchange_def example_env_open_def example_peer_def configure_def send_def)
qed

theorem next_hops_local_witness:
  "\<exists>nodes. oe_ifaddrs example_env_open = Some nodes \<and> local_address example_peer \<in> set (interface_ips (interface example_peer) nodes)"
proof -
  obtain c where "fst (handshake example_config example_peer False example_env_open) = Ok c" using example_handshake by blast
  from next_hops_local [OF this] show ?thesis by (auto simp: Let_def)
qed

text \<open>
  C36: Reconnecting is bounded and reports what failed: after every attempt the next one is made
  within 2 to 31 seconds, the delay never shrinks with more failures, a session that lasted 30
  seconds resets it to its smallest value, and the peer is shown as Active with the error of the
  failed attempt.
\<close>

theorem peer_loop_backoff:
  assumes "jitter < 1000"
  shows "2000 \<le> retry_ms (pl_failures (peer_attempt fmt now a s)) jitter \<and>
    retry_ms (pl_failures (peer_attempt fmt now a s)) jitter < 31000 \<and>
    (\<forall>m. pl_failures s \<le> m \<longrightarrow> retry_ms (pl_failures s) jitter \<le> retry_ms m jitter) \<and>
    (\<forall>elapsed us r. a = SessionRan elapsed us r \<and> 30000 \<le> elapsed \<longrightarrow>
      retry_ms (pl_failures (peer_attempt fmt now a s)) jitter = 2000 + jitter) \<and>
    ps_state (pl_status (peer_attempt fmt now a s)) = ''Active'' \<and>
    (\<forall>e. attempt_error a = Some e \<longrightarrow> ps_last_error (pl_status (peer_attempt fmt now a s)) = Some (fmt e))"
proof (intro conjI allI impI)
  let ?f = "pl_failures (peer_attempt fmt now a s)"
  have "1 \<le> unat ?f" by (simp add: peer_attempt_failures unat_saturating_inc)
  from backoff_secs_bounds [OF this] assms show "2000 \<le> retry_ms ?f jitter" "retry_ms ?f jitter < 31000"
    by (simp_all add: retry_ms_def)
next
  fix m :: u32
  assume "pl_failures s \<le> m"
  then have "min (unat (pl_failures s)) 5 \<le> min (unat m) 5" by (simp add: word_le_nat_alt)
  then have "(2 :: nat) ^ min (unat (pl_failures s)) 5 \<le> 2 ^ min (unat m) 5" by (rule power_increasing) simp
  then have "backoff_secs (pl_failures s) \<le> backoff_secs m" unfolding backoff_secs_def by (rule min.mono) simp
  then show "retry_ms (pl_failures s) jitter \<le> retry_ms m jitter" by (simp add: retry_ms_def)
next
  fix elapsed us r
  assume "a = SessionRan elapsed us r \<and> 30000 \<le> elapsed"
  then show "retry_ms (pl_failures (peer_attempt fmt now a s)) jitter = 2000 + jitter"
    by (simp add: peer_attempt_failures retry_ms_def backoff_secs_def saturating_inc_def)
qed (simp_all add: peer_attempt_status)

theorem peer_loop_backoff_witness:
  "2000 \<le> retry_ms (pl_failures (peer_attempt (\<lambda>_. ''OPEN timeout'') 7 (ChoiceFailed OpenTimeout)
     \<lparr>pl_failures = 3, pl_status = \<lparr>ps_state = ''Connect'', ps_since = 0, ps_last_error = None\<rparr>\<rparr>)) 5"
  using peer_loop_backoff [of 5] by simp

end
