(* ===== verification/Convergence.thy ===== *)
theory Convergence
  imports Transmit
begin

text \<open>
  What the transmit loop achieves on its own, and what it promises. Without new events and without
  time passing, the loop of \<open>src/bgp.rs\<close> reaches its \<open>select!\<close> with everything written after
  finitely many steps, and then waits. And the whole machine, interleaved with the kernel side,
  the clock and refresh requests, refines a specification of three lines: announce prefixes of
  the adopted target, withdraw prefixes outside of it, and adopt published targets.
\<close>

section \<open>The loop on its own\<close>

text \<open>An arm of the final \<open>select!\<close> that is ready without an event from outside.\<close>

definition refresh_due :: "tstate \<Rightarrow> bool" where
  "refresh_due s = (t_pending s \<noteq> 0 \<and> t_next_refresh s \<le> t_clock s)"

definition keepalive_due :: "negotiated \<Rightarrow> tstate \<Rightarrow> bool" where
  "keepalive_due n s = (hold n \<noteq> 0 \<and> t_next_keepalive s \<le> t_clock s)"

definition transmit_wait :: "peer \<Rightarrow> negotiated \<Rightarrow> tstate \<Rightarrow> tstate option" where
  "transmit_wait p n s =
    (if t_seen s \<noteq> w_version (t_exports s) then Some (transmit_changed p n s)
     else if t_eor s = 0 \<and> refresh_due s \<or> keepalive_due n s then Some (s\<lparr>t_loc := AtReplan\<rparr>)
     else None)"

text \<open>The next step of the loop; \<open>None\<close> when it waits or has ended.\<close>

definition transmit_own :: "ipnet_ops \<Rightarrow> config \<Rightarrow> peer \<Rightarrow> negotiated \<Rightarrow> tstate \<Rightarrow> (error, tstate) outcome option" where
  "transmit_own N cfg p n s = (case t_loc s of
     AtReplan \<Rightarrow> Some (Ok (transmit_replan p n s))
   | AtRefresh \<Rightarrow> Some (Ok (transmit_refresh n s))
   | AtKeepalive \<Rightarrow> Some (transmit_keepalive n s)
   | AtBatch \<Rightarrow> Some (transmit_batch N cfg p n s)
   | AtWait \<Rightarrow> map_option Ok (transmit_wait p n s)
   | Closed \<Rightarrow> None)"

fun transmit_run :: "ipnet_ops \<Rightarrow> config \<Rightarrow> peer \<Rightarrow> negotiated \<Rightarrow> nat \<Rightarrow> tstate \<Rightarrow> (error, tstate) outcome" where
  "transmit_run N cfg p n 0 s = Ok s"
| "transmit_run N cfg p n (Suc k) s = (case transmit_own N cfg p n s of
     None \<Rightarrow> Ok s
   | Some r \<Rightarrow> bindr r (transmit_run N cfg p n k))"

section \<open>Termination\<close>

text \<open>
  The measure, most significant first: unseen exports, a due refresh, a due KEEPALIVE, the unsent
  prefixes, whether the current lap can end in another one, and the position within the lap.
\<close>

definition lap_again :: "negotiated \<Rightarrow> tstate \<Rightarrow> bool" where
  "lap_again n s = (t_eor s \<noteq> 0 \<or> t_loc s \<in> {AtKeepalive, AtBatch, AtWait} \<and> refresh_due s \<or>
     t_loc s \<in> {AtBatch, AtWait} \<and> keepalive_due n s)"

fun lap_rank :: "location \<Rightarrow> nat" where
  "lap_rank AtReplan = 4"
| "lap_rank AtRefresh = 3"
| "lap_rank AtKeepalive = 2"
| "lap_rank AtBatch = 1"
| "lap_rank _ = 0"

definition loop_order :: "negotiated \<Rightarrow> (tstate \<times> tstate) set" where
  "loop_order n = measures [\<lambda>s. of_bool (t_seen s \<noteq> w_version (t_exports s)), \<lambda>s. of_bool (refresh_due s),
     \<lambda>s. of_bool (keepalive_due n s), \<lambda>s. plan_size (t_plan s), \<lambda>s. of_bool (lap_again n s), \<lambda>s. lap_rank (t_loc s)]"

lemma wf_loop_order: "wf (loop_order n)"
  by (simp add: loop_order_def)

lemma keepalive_ms_pos: "0 < keepalive_ms n"
  by (simp add: keepalive_ms_def)

lemma own_replan:
  assumes "t_loc s = AtReplan"
  shows "(transmit_replan p n s, s) \<in> loop_order n"
  using assms
  by (auto simp: loop_order_def transmit_replan_def replan_def Let_def refresh_due_def keepalive_due_def lap_again_def)

lemma transmit_refresh_idle:
  assumes "\<not> (t_eor s = 0 \<and> refresh_due s)"
  shows "transmit_refresh n s = s\<lparr>t_loc := AtKeepalive\<rparr>"
proof (cases "t_eor s = 0 \<and> t_next_refresh s \<le> t_clock s")
  case True
  with assms have "t_pending s = 0" by (simp add: refresh_due_def)
  with True show ?thesis by (simp add: transmit_refresh_def)
qed (auto simp: transmit_refresh_def)

lemma transmit_refresh_due:
  assumes "t_eor s = 0" and "refresh_due s"
  shows "t_pending (transmit_refresh n s) = 0" "t_seen (transmit_refresh n s) = t_seen s"
    "t_exports (transmit_refresh n s) = t_exports s"
  using assms by (simp_all add: transmit_refresh_def refresh_due_def Let_def)

lemma own_refresh:
  assumes "t_loc s = AtRefresh"
  shows "(transmit_refresh n s, s) \<in> loop_order n"
proof (cases "t_eor s = 0 \<and> refresh_due s")
  case True
  then have "\<not> refresh_due (transmit_refresh n s)"
    using transmit_refresh_due(1) [of s n] by (simp add: refresh_due_def)
  with True transmit_refresh_due(2,3) [of s n] show ?thesis by (simp add: loop_order_def)
next
  case False
  then show ?thesis
    using assms transmit_refresh_idle [OF False]
    by (auto simp: loop_order_def refresh_due_def keepalive_due_def lap_again_def)
qed

lemma own_keepalive:
  assumes "t_loc s = AtKeepalive" and "transmit_keepalive n s = Ok s'"
  shows "(s', s) \<in> loop_order n"
proof (cases "keepalive_due n s")
  case True
  with assms(2) obtain pkt where "s' = s\<lparr>t_log := t_log s @ [(SentKeepalive, pkt)],
      t_next_keepalive := t_clock s + keepalive_ms n, t_loc := AtBatch\<rparr>"
    by (auto simp: transmit_keepalive_def keepalive_due_def bindr_eq_Ok)
  then have "refresh_due s' = refresh_due s" "\<not> keepalive_due n s'" "t_seen s' = t_seen s" "t_exports s' = t_exports s"
    using keepalive_ms_pos [of n] by (simp_all add: refresh_due_def keepalive_due_def)
  with True show ?thesis by (simp add: loop_order_def)
next
  case False
  with assms(2) have "s' = s\<lparr>t_loc := AtBatch\<rparr>"
    by (simp add: transmit_keepalive_def keepalive_due_def split: if_splits)
  with False assms(1) show ?thesis
    by (simp add: loop_order_def refresh_due_def keepalive_due_def lap_again_def)
qed

lemma send_eor_fields:
  assumes "send_eor v6 s = Ok s'"
  shows "t_seen s' = t_seen s \<and> t_exports s' = t_exports s \<and> t_pending s' = t_pending s \<and> t_next_refresh s' = t_next_refresh s \<and>
    t_clock s' = t_clock s \<and> t_next_keepalive s' = t_next_keepalive s \<and> t_plan s' = t_plan s \<and> t_eor s' = t_eor s"
  using assms by (auto simp: send_eor_def bindr_eq_Ok split: if_splits)

lemma transmit_batch_None:
  assumes "transmit_batch N cfg p n s = Ok s'" and "plan_next (t_plan s) = None"
  shows "t_seen s' = t_seen s \<and> t_exports s' = t_exports s \<and> t_pending s' = t_pending s \<and> t_next_refresh s' = t_next_refresh s \<and>
    t_clock s' = t_clock s \<and> t_next_keepalive s' = t_next_keepalive s \<and> t_plan s' = t_plan s \<and> t_eor s' = 0 \<and> t_loc s' = AtWait"
proof (cases "t_eor s = 0")
  case True
  with assms show ?thesis by (auto simp: transmit_batch_def)
next
  case False
  with assms obtain s1 s2 where "send_eor False s = Ok s1" "send_eor True s1 = Ok s2" "s' = s2\<lparr>t_eor := 0, t_loc := AtWait\<rparr>"
    by (auto simp: transmit_batch_def bindr_eq_Ok)
  with send_eor_fields [of False s s1] send_eor_fields [of True s1 s2] show ?thesis by simp
qed

lemma own_batch:
  assumes "t_loc s = AtBatch" and "transmit_batch N cfg p n s = Ok s'"
  shows "(s', s) \<in> loop_order n"
proof (cases "plan_next (t_plan s)")
  case None
  with transmit_batch_None [OF assms(2) None] assms(1) show ?thesis
    by (auto simp: loop_order_def refresh_due_def keepalive_due_def lap_again_def)
next
  case (Some r)
  then obtain w b pl where nxt: "plan_next (t_plan s) = Some ((w, b), pl)" by (metis surj_pair)
  with assms(2) have "t_plan s' = pl" "t_seen s' = t_seen s" "t_exports s' = t_exports s" "refresh_due s' = refresh_due s"
      "keepalive_due n s' = keepalive_due n s"
    by (auto simp: transmit_batch_def bindr_eq_Ok refresh_due_def keepalive_due_def)
  with plan_next_smaller [OF nxt] show ?thesis by (simp add: loop_order_def)
qed

lemma own_wait:
  assumes "t_loc s = AtWait" and "transmit_wait p n s = Some s'" and "t_eor s = 0"
  shows "(s', s) \<in> loop_order n"
  using assms
  by (auto simp: loop_order_def transmit_wait_def transmit_changed_def replan_def Let_def refresh_due_def keepalive_due_def lap_again_def
      split: if_splits)

lemma own_decreases:
  assumes "transmit_own N cfg p n s = Some (Ok s')" and "tinv N cfg p n s"
  shows "(s', s) \<in> loop_order n"
proof -
  have "t_loc s = AtWait \<Longrightarrow> t_eor s = 0" using assms(2) by (simp add: tinv_def)
  with assms(1) own_replan own_refresh own_keepalive own_batch own_wait show ?thesis
    by (auto simp: transmit_own_def split: location.splits)
qed

section \<open>Steps of the loop are steps of the machine\<close>

lemma own_tstep:
  assumes "transmit_own N cfg p n s = Some (Ok s')"
  shows "tstep N cfg p n publishes s s'"
  using assms
  by (auto simp: transmit_own_def transmit_wait_def split: location.splits if_splits intro: tstep.intros)

lemma own_fields:
  assumes "transmit_own N cfg p n s = Some (Ok s')"
  shows "t_exports s' = t_exports s \<and> t_loc s' \<noteq> Closed"
proof (cases "t_loc s")
  case AtBatch
  with assms have b: "transmit_batch N cfg p n s = Ok s'" by (simp add: transmit_own_def)
  show ?thesis
  proof (cases "plan_next (t_plan s)")
    case None
    with transmit_batch_None [OF b] show ?thesis by simp
  next
    case (Some r)
    with b show ?thesis by (cases r) (auto simp: transmit_batch_def bindr_eq_Ok)
  qed
next
  case AtKeepalive
  with assms show ?thesis by (auto simp: transmit_own_def transmit_keepalive_def bindr_eq_Ok split: if_splits)
qed (use assms in \<open>auto simp: transmit_own_def transmit_replan_def transmit_refresh_def transmit_wait_def transmit_changed_def
      replan_def Let_def split: if_splits\<close>)

lemma own_total:
  assumes "ipnet N" and "peer_ok cfg p" and "neg_wf cfg p n" and "tinv N cfg p n s" and "transmit_own N cfg p n s = Some r"
  shows "\<exists>s'. r = Ok s'"
proof -
  have "\<exists>s1. transmit_keepalive n s = Ok s1" by (simp add: transmit_keepalive_def frame_keepalive)
  then obtain s1 where "transmit_keepalive n s = Ok s1" by blast
  moreover obtain s2 where "transmit_batch N cfg p n s = Ok s2" using transmit_batch_total [OF assms(1-4)] by blast
  ultimately show ?thesis
    using assms(5) by (cases "t_loc s") (auto simp: transmit_own_def, metis+)
qed

lemma own_idle:
  assumes "transmit_own N cfg p n s = None" and "t_loc s \<noteq> Closed" and "tinv N cfg p n s"
  shows "t_loc s = AtWait \<and> peer_rib (t_log s) = wanted n (desired (export_acl p) (w_value (t_exports s)))"
proof -
  from assms(1,2) have w: "t_loc s = AtWait" "t_seen s = w_version (t_exports s)"
    by (auto simp: transmit_own_def transmit_wait_def split: location.splits if_splits)
  with assms(3) have "plan_ok n (t_advertised s) (t_target s) (t_plan s)" "plan_next (t_plan s) = None"
      "peer_rib (t_log s) = set (t_advertised s)" "t_target s = desired (export_acl p) (w_value (t_exports s))"
    unfolding tinv_def by blast+
  with w plan_done show ?thesis by metis
qed

lemma run_converges:
  assumes "ipnet N" and "peer_ok cfg p" and "neg_wf cfg p n"
  shows "treach N cfg p n (kernel_publishes N le cfg) s \<Longrightarrow> t_loc s \<noteq> Closed \<Longrightarrow>
    \<exists>k s'. transmit_run N cfg p n k s = Ok s' \<and> transmit_own N cfg p n s' = None \<and> t_loc s' \<noteq> Closed \<and>
      t_exports s' = t_exports s \<and> tinv N cfg p n s'"
proof (induction s rule: wf_induct_rule [OF wf_loop_order [of n]])
  case (1 s)
  note inv = session_inv [OF assms(1) 1(2)]
  show ?case
  proof (cases "transmit_own N cfg p n s")
    case None
    with 1(3) inv show ?thesis by (intro exI [of _ 0] exI [of _ s]) simp
  next
    case (Some r)
    then obtain s1 where own: "transmit_own N cfg p n s = Some (Ok s1)"
      using own_total [OF assms inv] by blast
    have "treach N cfg p n (kernel_publishes N le cfg) s1"
      by (rule treach.step [OF 1(2) own_tstep [OF own]])
    from 1(1) [OF own_decreases [OF own inv] this] own_fields [OF own]
    obtain k s' where "transmit_run N cfg p n k s1 = Ok s'" "transmit_own N cfg p n s' = None" "t_loc s' \<noteq> Closed"
        "t_exports s' = t_exports s" "tinv N cfg p n s'"
      by auto
    with own show ?thesis by (intro exI [of _ "Suc k"] exI [of _ s']) simp
  qed
qed

section \<open>The specification of a session\<close>

text \<open>
  The interface of a refinement: steps keep an invariant, and under the invariant every step is one
  of the specification. The client fact is that every run is a run of the specification.
\<close>

locale simulation =
  fixes step :: "'s \<Rightarrow> 's \<Rightarrow> bool" and inv :: "'s \<Rightarrow> bool" and abs :: "'s \<Rightarrow> 'a" and spec :: "'a \<Rightarrow> 'a \<Rightarrow> bool"
  assumes preserves: "inv s \<Longrightarrow> step s s' \<Longrightarrow> inv s'"
    and simulates: "inv s \<Longrightarrow> step s s' \<Longrightarrow> spec (abs s) (abs s')"
begin

lemma refines: "step\<^sup>*\<^sup>* s s' \<Longrightarrow> inv s \<Longrightarrow> inv s' \<and> spec\<^sup>*\<^sup>* (abs s) (abs s')"
  by (induction rule: rtranclp_induct) (auto intro: preserves rtranclp.rtrancl_into_rtrancl simulates)

end

record export_spec =
  sp_rib :: "ip_net set"
  sp_target :: "ip_net set"
  sp_latest :: "ip_net set"

inductive spec_step :: "(ip_net \<Rightarrow> bool) \<Rightarrow> export_spec \<Rightarrow> export_spec \<Rightarrow> bool" for ok :: "ip_net \<Rightarrow> bool" where
  announce: "b \<subseteq> sp_target a \<Longrightarrow> spec_step ok a (a\<lparr>sp_rib := sp_rib a \<union> b\<rparr>)"
| withdraw: "b \<inter> sp_target a = {} \<Longrightarrow> spec_step ok a (a\<lparr>sp_rib := sp_rib a - b\<rparr>)"
| adopt: "spec_step ok a (a\<lparr>sp_target := sp_latest a\<rparr>)"
| publish: "\<forall>q \<in> l. ok q \<Longrightarrow> spec_step ok a (a\<lparr>sp_latest := l\<rparr>)"

definition spec_of :: "peer \<Rightarrow> negotiated \<Rightarrow> tstate \<Rightarrow> export_spec" where
  "spec_of p n s = \<lparr>sp_rib = peer_rib (t_log s), sp_target = wanted n (t_target s),
     sp_latest = wanted n (desired (export_acl p) (w_value (t_exports s)))\<rparr>"

lemma spec_stutter: "spec_step ok a a"
  using spec_step.announce [of "{}" a ok] by simp

lemma spec_same:
  assumes "peer_rib (t_log s') = peer_rib (t_log s)" "t_target s' = t_target s" "t_exports s' = t_exports s"
  shows "spec_step ok (spec_of p n s) (spec_of p n s')"
  using assms spec_stutter by (simp add: spec_of_def)

lemma spec_adopt: "spec_step ok (spec_of p n s) (spec_of p n ((replan p n s)\<lparr>t_loc := l\<rparr>))"
  using spec_step.adopt [of ok "spec_of p n s"] by (simp add: spec_of_def replan_def Let_def)

lemma spec_batch:
  assumes "transmit_batch N cfg p n s = Ok s'" and "tinv N cfg p n s"
  shows "spec_step ok (spec_of p n s) (spec_of p n s')"
proof (cases "plan_next (t_plan s)")
  case None
  have "peer_rib (t_log s2) = peer_rib (t_log s1) \<and> t_target s2 = t_target s1 \<and> t_exports s2 = t_exports s1"
    if "send_eor v6 s1 = Ok s2" for v6 s1 s2
    using that by (auto simp: send_eor_def bindr_eq_Ok split: if_splits)
  with None assms(1) show ?thesis
    by (intro spec_same) (auto simp: transmit_batch_def bindr_eq_Ok split: if_splits)
next
  case (Some r)
  then obtain w b pl where nxt: "plan_next (t_plan s) = Some ((w, b), pl)" by (metis surj_pair)
  have "plan_ok n (t_advertised s) (t_target s) (t_plan s)" using assms(2) by (simp add: tinv_def)
  then have sub: "if w then set b \<inter> sp_target (spec_of p n s) = {} else set b \<subseteq> sp_target (spec_of p n s)"
    using plan_next_ok [OF _ nxt] by (simp add: spec_of_def)
  have "spec_of p n s' = (spec_of p n s)\<lparr>sp_rib := (if w then sp_rib (spec_of p n s) - set b else sp_rib (spec_of p n s) \<union> set b)\<rparr>"
    using assms(1) nxt by (auto simp: transmit_batch_def bindr_eq_Ok spec_of_def)
  with sub spec_step.announce [of "set b" "spec_of p n s" ok] spec_step.withdraw [of "set b" "spec_of p n s" ok]
  show ?thesis by (cases w) simp_all
qed

context export_channel
begin

lemma tstep_simulates:
  assumes "tinv N cfg p n s" and "tstep N cfg p n publishes s s'"
  shows "spec_step (permitted N cfg p) (spec_of p n s) (spec_of p n s')"
  using assms(2)
proof cases
  case (published ex)
  have "target_ok N cfg p (desired (export_acl p) ex)" by (rule desired_ok [OF published(2)])
  then have "\<forall>q \<in> wanted n (desired (export_acl p) ex). permitted N cfg p q"
    by (simp add: target_ok_def wanted_def)
  from spec_step.publish [OF this, of "spec_of p n s"] published(1) show ?thesis
    by (simp add: spec_of_def send_replace_def)
next
  case replans
  then show ?thesis
    using spec_adopt [of "permitted N cfg p" p n s AtRefresh] spec_same [of "s\<lparr>t_loc := AtRefresh\<rparr>" s]
    by (auto simp: transmit_replan_def Let_def)
next
  case refreshes
  then show ?thesis by (intro spec_same) (simp_all add: transmit_refresh_def Let_def)
next
  case keepalive
  then show ?thesis by (intro spec_same) (auto simp: transmit_keepalive_def bindr_eq_Ok split: if_splits)
next
  case batch
  then show ?thesis using spec_batch assms(1) by blast
next
  case changed
  then show ?thesis using spec_adopt by (simp add: transmit_changed_def)
qed (auto intro!: spec_same simp: refresh_request_def)

lemma session_simulation:
  "simulation (tstep N cfg p n publishes) (tinv N cfg p n) (spec_of p n) (spec_step (permitted N cfg p))"
  by unfold_locales (auto intro: tinv_step tstep_simulates)

end

interpretation session: simulation "tstep ipnet_ref cfg p n (kernel_publishes ipnet_ref le cfg)" "tinv ipnet_ref cfg p n"
  "spec_of p n" "spec_step (permitted ipnet_ref cfg p)" for le cfg p n
  by (rule kernel_side.session_simulation)

section \<open>Properties\<close>

text \<open>
  A session catches up. From every reachable state that is not closed, if nothing else happens,
  the loop writes whatever is due and comes to rest after finitely many of its own steps, without
  an error, in its final wait; and then the peer holds exactly the exported prefixes of the
  negotiated families.
\<close>

theorem session_converges:
  assumes "ipnet N" and "peer_ok cfg p" and "neg_wf cfg p n" and "treach N cfg p n (kernel_publishes N le cfg) s"
    and "t_loc s \<noteq> Closed"
  shows "\<exists>k s'. transmit_run N cfg p n k s = Ok s' \<and> transmit_own N cfg p n s' = None \<and> t_loc s' = AtWait \<and>
    peer_rib (t_log s') = {q \<in> set (desired (export_acl p) (w_value (t_exports s))). neg_enabled n q}"
proof -
  from run_converges [OF assms(1-3) assms(4,5)]
  obtain k s' where "transmit_run N cfg p n k s = Ok s'" "transmit_own N cfg p n s' = None" "t_loc s' \<noteq> Closed"
      "t_exports s' = t_exports s" "tinv N cfg p n s'"
    by blast
  with own_idle [of N cfg p n s'] show ?thesis by (auto simp: wanted_def)
qed

theorem session_converges_witness:
  "\<exists>k s'. transmit_run ipnet_ref example_config example_peer example_neg k example_start = Ok s' \<and> t_loc s' = AtWait"
proof -
  have "t_loc example_start \<noteq> Closed" by (simp add: example_start_def transmit_init_def Let_def)
  from session_converges [OF ref.ipnet_axioms example_peer_ok example_neg_wf example_start_reach this] show ?thesis by blast
qed

text \<open>
  C9: A session refines its specification. Seen as the peer's routes, the adopted target and the
  latest exports, every run of the session, interleaved with the clock, the kernel side and refresh
  requests, is a run of a machine that only announces prefixes of its target, only withdraws
  prefixes outside of it, adopts the latest exports, and is published permitted prefixes only; and
  whenever the session waits, the peer's routes are the adopted target.
\<close>

theorem session_refines:
  assumes "ipnet N" and "kernel_publishes N le cfg (w_value ex)"
    and "(tstep N cfg p n (kernel_publishes N le cfg))\<^sup>*\<^sup>* (transmit_init now p n ex) s"
  shows "(spec_step (permitted N cfg p))\<^sup>*\<^sup>*
      \<lparr>sp_rib = {}, sp_target = wanted n (desired (export_acl p) (w_value ex)),
        sp_latest = wanted n (desired (export_acl p) (w_value ex))\<rparr> (spec_of p n s) \<and>
    (t_loc s = AtWait \<longrightarrow> sp_rib (spec_of p n s) = sp_target (spec_of p n s))"
proof -
  note ch = kernel_channel [OF assms(1), of cfg le]
  have "tinv N cfg p n (transmit_init now p n ex)"
    by (rule tinv_init [OF export_channel.desired_ok [OF ch assms(2)]])
  from simulation.refines [OF export_channel.session_simulation [OF ch] assms(3) this]
  have s: "tinv N cfg p n s" "(spec_step (permitted N cfg p))\<^sup>*\<^sup>* (spec_of p n (transmit_init now p n ex)) (spec_of p n s)"
    by blast+
  have "sp_rib (spec_of p n s) = sp_target (spec_of p n s)" if "t_loc s = AtWait"
    using s(1) that plan_done [of n "t_advertised s" "t_target s" "t_plan s"] by (auto simp: tinv_def spec_of_def)
  with s(2) show ?thesis by (simp add: spec_of_def transmit_init_def Let_def peer_rib_def)
qed

theorem session_refines_witness:
  "(spec_step (permitted ipnet_ref example_config example_peer))\<^sup>*\<^sup>*
      \<lparr>sp_rib = {}, sp_target = {NetV4 0xC6336400 24}, sp_latest = {NetV4 0xC6336400 24}\<rparr>
      (spec_of example_peer example_neg example_start)"
proof -
  let ?ex = "\<lparr>w_value = [(''export'', [NetV4 0xC6336400 24])], w_version = 1\<rparr>"
  have "kernel_publishes ipnet_ref True example_config (w_value ?ex)"
    using published_example_reach published_example_value by (auto simp: kernel_publishes_def)
  moreover have "wanted example_neg (desired (export_acl example_peer) (w_value ?ex)) = {NetV4 0xC6336400 24}"
    by (auto simp: wanted_def desired_def example_peer_def neg_enabled_def example_neg_def)
  ultimately show ?thesis
    using session_refines [OF ref.ipnet_axioms, of True example_config ?ex example_peer example_neg 0 example_start]
    by (simp add: example_start_def)
qed

end
