(* ===== verification/Refresh.thy ===== *)
theory Refresh
  imports Convergence
begin

unbundle bit_operations_syntax

text \<open>
  Route refresh in \<open>src/bgp.rs\<close>: what a session sends again between the moment it takes up a
  refresh request and the End-of-RIB marker that answers it, while the exports change, the clock
  advances and further requests arrive.
\<close>

section \<open>What a log announces\<close>

definition announced :: "(sent \<times> bytes) list \<Rightarrow> ip_net set" where
  "announced log = (\<Union>e \<in> set log. case fst e of SentUpdate False batch \<Rightarrow> set batch | _ \<Rightarrow> {})"

lemma announced_simps [simp]:
  "announced [] = {}"
  "announced (log @ log') = announced log \<union> announced log'"
  "announced [(SentUpdate w b, pkt)] = (if w then {} else set b)"
  "announced [(SentKeepalive, pkt)] = {}"
  "announced [(SentEor v6, pkt)] = {}"
  by (auto simp: announced_def)

text \<open>Every marker of the prefix's family in the log comes after an announcement of the prefix.\<close>

definition marked_after :: "ip_net \<Rightarrow> (sent \<times> bytes) list \<Rightarrow> bool" where
  "marked_after q log =
     (\<forall>as pkt bs. log = as @ (SentEor (is_v6 q), pkt) # bs \<longrightarrow> q \<in> announced as)"

lemma marked_after_Nil [simp]: "marked_after q []"
  by (simp add: marked_after_def)

lemma marked_after_snoc [simp]:
  "marked_after q (log @ [e]) \<longleftrightarrow> marked_after q log \<and> (fst e = SentEor (is_v6 q) \<longrightarrow> q \<in> announced log)"
  (is "?l \<longleftrightarrow> ?r")
proof
  assume l: ?l
  have "q \<in> announced as" if "log = as @ (SentEor (is_v6 q), pkt) # bs" for as pkt bs
    using l that unfolding marked_after_def by (metis append.assoc append_Cons)
  moreover have "q \<in> announced log" if "fst e = SentEor (is_v6 q)"
    using l that unfolding marked_after_def by (metis prod.collapse)
  ultimately show ?r by (auto simp: marked_after_def)
next
  assume r: ?r
  have "q \<in> announced as" if "log @ [e] = as @ (SentEor (is_v6 q), pkt) # bs" for as pkt bs
  proof (cases bs rule: rev_cases)
    case Nil
    with r that show ?thesis by simp
  next
    case (snoc bs' e')
    with r that show ?thesis unfolding marked_after_def by auto
  qed
  then show ?l by (simp add: marked_after_def)
qed

definition has_marker :: "bool \<Rightarrow> (sent \<times> bytes) list \<Rightarrow> bool" where
  "has_marker v6 log = (\<exists>pkt. (SentEor v6, pkt) \<in> set log)"

lemma has_marker_simps [simp]:
  "\<not> has_marker v6 []"
  "has_marker v6 (log @ [e]) \<longleftrightarrow> has_marker v6 log \<or> fst e = SentEor v6"
  by (auto simp: has_marker_def) (metis prod.collapse)

section \<open>A refresh in progress\<close>

text \<open>
  The refresh was taken up when the log was \<open>base\<close>. Until the marker is written it is due, and until
  the prefix is announced again it is to be replayed and in the queue of additions.
\<close>

definition refreshing :: "peer \<Rightarrow> negotiated \<Rightarrow> ip_net \<Rightarrow> (sent \<times> bytes) list \<Rightarrow> tstate \<Rightarrow> bool" where
  "refreshing p n q base s = (\<exists>since. t_log s = base @ since \<and> marked_after q since \<and>
     neg_enabled n q \<and> q \<in> set (t_target s) \<and> q \<in> set (desired (export_acl p) (w_value (t_exports s))) \<and>
     (t_eor s AND family_bit (is_v6 q) \<noteq> 0 \<or> has_marker (is_v6 q) since) \<and>
     (q \<in> announced since \<or> t_eor s \<noteq> 0 \<and> q \<in> set (t_replay s) \<and> q \<in> set (additions (t_plan s))))"

lemma family_enabled: "neg_enabled n q \<Longrightarrow> family_bits n AND family_bit (is_v6 q) \<noteq> 0"
  by (cases q) (auto simp: neg_enabled_def family_bits_def family_bit_def is_v6_def)

lemma refreshing_start:
  assumes "t_eor s = 0" and "t_next_refresh s \<le> t_clock s" and "t_pending s AND family_bit (is_v6 q) \<noteq> 0"
    and "neg_enabled n q" and "q \<in> set (t_target s)" and "q \<in> set (desired (export_acl p) (w_value (t_exports s)))"
  shows "refreshing p n q (t_log s) (transmit_refresh n s)"
proof -
  have pend: "t_pending s \<noteq> 0" using assms(3) by auto
  have "t_pending s AND family_bits n AND family_bit (is_v6 q) \<noteq> 0"
    using assms(3) family_enabled [OF assms(4)]
    by (cases "is_v6 q") (auto simp: family_bits_def family_bit_def split: if_splits)
  then have eor: "(t_pending s AND family_bits n) AND family_bit (is_v6 q) \<noteq> 0" by (simp add: and.assoc)
  then have "t_pending s AND family_bits n \<noteq> 0" by auto
  with assms pend eor show ?thesis
    by (simp add: refreshing_def transmit_refresh_def Let_def set_plan_new)
qed

lemma refreshing_replan:
  assumes "refreshing p n q base s"
  shows "refreshing p n q base ((replan p n s)\<lparr>t_loc := l\<rparr>)"
  using assms by (auto simp: refreshing_def replan_def Let_def set_plan_new)

lemma refreshing_loc: "refreshing p n q base (s\<lparr>t_loc := l\<rparr>) = refreshing p n q base s"
  by (simp add: refreshing_def)

lemma refreshing_again:
  assumes "refreshing p n q base s"
  shows "refreshing p n q base (transmit_refresh n s)"
proof (cases "t_eor s = 0 \<and> refresh_due s")
  case True
  with assms show ?thesis
    by (auto simp: refreshing_def transmit_refresh_def refresh_due_def Let_def)
next
  case False
  with assms show ?thesis by (simp add: transmit_refresh_idle refreshing_loc)
qed

lemma refreshing_keepalive:
  assumes "refreshing p n q base s" and "transmit_keepalive n s = Ok s'"
  shows "refreshing p n q base s'"
proof (cases "hold n \<noteq> 0 \<and> t_next_keepalive s \<le> t_clock s")
  case True
  with assms(2) obtain pkt where s': "s' = s\<lparr>t_log := t_log s @ [(SentKeepalive, pkt)],
      t_next_keepalive := t_clock s + keepalive_ms n, t_loc := AtBatch\<rparr>"
    by (auto simp: transmit_keepalive_def bindr_eq_Ok)
  from assms(1) obtain since where "t_log s = base @ since" "marked_after q since"
      "t_eor s AND family_bit (is_v6 q) \<noteq> 0 \<or> has_marker (is_v6 q) since"
      "q \<in> announced since \<or> t_eor s \<noteq> 0 \<and> q \<in> set (t_replay s) \<and> q \<in> set (additions (t_plan s))"
    by (auto simp: refreshing_def)
  with assms(1) show ?thesis
    unfolding refreshing_def by (intro exI [of _ "since @ [(SentKeepalive, pkt)]"]) (auto simp: s' refreshing_def)
next
  case False
  with assms show ?thesis by (auto simp: transmit_keepalive_def refreshing_loc)
qed

text \<open>The markers a session writes at the end of its plan.\<close>

definition markers :: "u8 \<Rightarrow> (sent \<times> bytes) list" where
  "markers eor = (if eor AND family_bit False \<noteq> 0 then [(SentEor False, frame_bytes (UPDATE, end_of_rib_body False))] else []) @
     (if eor AND family_bit True \<noteq> 0 then [(SentEor True, frame_bytes (UPDATE, end_of_rib_body True))] else [])"

lemma batch_end:
  assumes "plan_next (t_plan s) = None" and "transmit_batch N cfg p n s = Ok s'"
  shows "s' = s\<lparr>t_log := t_log s @ markers (t_eor s), t_eor := 0, t_loc := AtWait\<rparr>"
  using assms
  by (cases "t_eor s = 0") (auto simp: transmit_batch_def send_eor_def end_of_rib_Ok markers_def)

lemma markers_announced:
  assumes "q \<in> announced log" and "marked_after q log"
  shows "q \<in> announced (log @ markers eor)" "marked_after q (log @ markers eor)"
  using assms marked_after_snoc [of q "log @ [(SentEor False, frame_bytes (UPDATE, end_of_rib_body False))]"]
  by (auto simp: markers_def split: if_splits)

lemma markers_marker:
  "eor AND family_bit (is_v6 q) \<noteq> 0 \<or> has_marker (is_v6 q) log \<Longrightarrow> has_marker (is_v6 q) (log @ markers eor)"
  by (cases "is_v6 q") (auto simp: markers_def has_marker_def)

lemma refreshing_batch_end:
  assumes "refreshing p n q base s" and "plan_next (t_plan s) = None" and "transmit_batch N cfg p n s = Ok s'"
  shows "refreshing p n q base s'"
proof -
  from assms(1,2) obtain since where since: "t_log s = base @ since" "marked_after q since" "q \<in> announced since"
      "t_eor s AND family_bit (is_v6 q) \<noteq> 0 \<or> has_marker (is_v6 q) since"
    by (auto simp: refreshing_def plan_next_None)
  note m = markers_announced [OF since(3,2), of "t_eor s"]
  from markers_marker [OF since(4)] m since(1) assms(1) show ?thesis
    unfolding refreshing_def batch_end [OF assms(2,3)]
    by (intro exI [of _ "since @ markers (t_eor s)"]) auto
qed

lemma refreshing_batch_next:
  assumes "refreshing p n q base s" and "tinv N cfg p n s" and "plan_next (t_plan s) = Some ((w, b), pl)"
    and "transmit_batch N cfg p n s = Ok s'"
  shows "refreshing p n q base s'"
proof -
  obtain pkt where s': "s' = s\<lparr>t_plan := pl,
      t_log := t_log s @ [(SentUpdate w b, pkt)], t_replay := forget_replay b (t_replay s),
      t_advertised := record_batch w b (t_advertised s), t_loc := AtReplan\<rparr>"
    using assms(3,4) by (auto simp: transmit_batch_def bindr_eq_Ok)
  from assms(1) obtain since where since: "t_log s = base @ since" "marked_after q since" "neg_enabled n q" "q \<in> set (t_target s)"
      "t_eor s AND family_bit (is_v6 q) \<noteq> 0 \<or> has_marker (is_v6 q) since"
      "q \<in> announced since \<or> t_eor s \<noteq> 0 \<and> q \<in> set (t_replay s) \<and> q \<in> set (additions (t_plan s))"
    by (auto simp: refreshing_def)
  have "plan_ok n (t_advertised s) (t_target s) (t_plan s)" using assms(2) by (simp add: tinv_def)
  from plan_next_ok [OF this assms(3)] since(3,4) have "w \<Longrightarrow> q \<notin> set b" by (auto simp: wanted_def)
  with since(6) plan_next_Some [OF assms(3)]
  have "q \<in> announced (since @ [(SentUpdate w b, pkt)]) \<or>
      t_eor s \<noteq> 0 \<and> q \<in> set (forget_replay b (t_replay s)) \<and> q \<in> set (additions pl)"
    by (auto simp: set_forget_replay split: if_splits)
  with since assms(1) show ?thesis
    unfolding refreshing_def s'
    by (intro exI [of _ "since @ [(SentUpdate w b, pkt)]"]) auto
qed

lemma refreshing_batch:
  assumes "refreshing p n q base s" and "tinv N cfg p n s" and "transmit_batch N cfg p n s = Ok s'"
  shows "refreshing p n q base s'"
proof (cases "plan_next (t_plan s)")
  case None
  then show ?thesis using refreshing_batch_end [OF assms(1) _ assms(3)] by blast
next
  case (Some r)
  then obtain w b pl where "plan_next (t_plan s) = Some ((w, b), pl)" by (metis surj_pair)
  then show ?thesis by (rule refreshing_batch_next [OF assms(1,2) _ assms(3)])
qed

text \<open>The publications that keep a prefix exported to the peer.\<close>

definition keeps :: "(exports \<Rightarrow> bool) \<Rightarrow> peer \<Rightarrow> ip_net \<Rightarrow> exports \<Rightarrow> bool" where
  "keeps publishes p q ex = (publishes ex \<and> q \<in> set (desired (export_acl p) ex))"

lemma tstep_mono:
  assumes "tstep N cfg p n publishes s s'" and "\<And>ex. publishes ex \<Longrightarrow> publishes' ex"
  shows "tstep N cfg p n publishes' s s'"
  using assms(1) by cases (auto intro: tstep.intros assms(2))

lemma refreshing_step:
  assumes "tstep N cfg p n (keeps publishes p q) s s'" and "tinv N cfg p n s" and "refreshing p n q base s"
  shows "refreshing p n q base s'"
  using assms(1)
proof cases
  case (published ex)
  with assms(3) show ?thesis by (auto simp: refreshing_def keeps_def send_replace_def)
next
  case replans
  with assms(3) refreshing_replan [OF assms(3), of AtRefresh] show ?thesis
    by (simp add: transmit_replan_def Let_def refreshing_loc)
next
  case changed
  with refreshing_replan [OF assms(3)] show ?thesis by (simp add: transmit_changed_def)
qed (use assms(2,3) in \<open>auto intro: refreshing_again refreshing_keepalive refreshing_batch simp: refreshing_loc\<close>,
     auto simp: refreshing_def refresh_request_def)

context export_channel
begin

lemma refreshing_run:
  assumes "(tstep N cfg p n (keeps publishes p q))\<^sup>*\<^sup>* s s'" and "tinv N cfg p n s" and "refreshing p n q base s"
  shows "tinv N cfg p n s' \<and> refreshing p n q base s'"
  using assms
proof (induction rule: rtranclp_induct)
  case (step s1 s2)
  then have "tinv N cfg p n s1" "refreshing p n q base s1" by blast+
  moreover have "tstep N cfg p n publishes s1 s2"
    using step.hyps(2) by (rule tstep_mono) (simp add: keeps_def)
  ultimately show ?case using refreshing_step step.hyps(2) tinv_step by blast
qed blast

end

section \<open>Runs as scripts\<close>

text \<open>An executable interleaving: own steps of the loop, the clock, the kernel side and the reader.\<close>

datatype script_event = Own | Tick nat | Publishes exports | Requests bool

fun drive :: "ipnet_ops \<Rightarrow> config \<Rightarrow> peer \<Rightarrow> negotiated \<Rightarrow> script_event list \<Rightarrow> tstate \<Rightarrow> tstate option" where
  "drive N cfg p n [] s = Some s"
| "drive N cfg p n (Own # es) s = (case transmit_own N cfg p n s of
     Some (Ok s') \<Rightarrow> drive N cfg p n es s'
   | _ \<Rightarrow> None)"
| "drive N cfg p n (Tick d # es) s = drive N cfg p n es (s\<lparr>t_clock := t_clock s + d\<rparr>)"
| "drive N cfg p n (Publishes ex # es) s = drive N cfg p n es (s\<lparr>t_exports := send_replace ex (t_exports s)\<rparr>)"
| "drive N cfg p n (Requests v6 # es) s = drive N cfg p n es (refresh_request v6 s)"

lemma drive_steps:
  assumes "drive N cfg p n es s = Some s'" and "\<And>ex. Publishes ex \<in> set es \<Longrightarrow> publishes ex"
  shows "(tstep N cfg p n publishes)\<^sup>*\<^sup>* s s'"
  using assms
proof (induction es s rule: drive.induct)
  case (2 N cfg p n es s)
  then show ?case
    by (auto split: option.splits outcome.splits intro: converse_rtranclp_into_rtranclp own_tstep)
next
  case (3 N cfg p n d es s)
  moreover have "tstep N cfg p n publishes s (s\<lparr>t_clock := t_clock s + d\<rparr>)" by (simp add: tstep.clock)
  ultimately show ?case by (auto intro: converse_rtranclp_into_rtranclp)
qed (auto intro: converse_rtranclp_into_rtranclp tstep.intros)

lemma treach_steps:
  assumes "(tstep N cfg p n publishes)\<^sup>*\<^sup>* s s'" and "treach N cfg p n publishes s"
  shows "treach N cfg p n publishes s'"
  using assms by (induction rule: rtranclp_induct) (auto intro: treach.step)

lemma run_steps:
  "transmit_run N cfg p n k s = Ok s' \<Longrightarrow> (tstep N cfg p n publishes)\<^sup>*\<^sup>* s s'"
  by (induction k arbitrary: s)
    (auto simp: bindr_eq_Ok split: option.splits intro: converse_rtranclp_into_rtranclp own_tstep)

lemma refresh_log: "t_log (transmit_refresh n s) = t_log s"
  by (simp add: transmit_refresh_def Let_def)

lemma own_log:
  assumes "transmit_own N cfg p n s = Some (Ok s')"
  shows "\<exists>es. t_log s' = t_log s @ es"
proof (cases "t_loc s")
  case AtBatch
  with assms have b: "transmit_batch N cfg p n s = Ok s'" by (simp add: transmit_own_def)
  then show ?thesis
  proof (cases "plan_next (t_plan s)")
    case None
    from batch_end [OF None b] show ?thesis by simp
  next
    case (Some r)
    with b show ?thesis by (cases r) (auto simp: transmit_batch_def bindr_eq_Ok)
  qed
next
  case AtKeepalive
  with assms show ?thesis by (auto simp: transmit_own_def transmit_keepalive_def bindr_eq_Ok split: if_splits)
qed (use assms in \<open>auto simp: transmit_own_def transmit_replan_def transmit_wait_def transmit_changed_def
      replan_def Let_def refresh_log split: if_splits\<close>)

lemma run_log: "transmit_run N cfg p n k s = Ok s' \<Longrightarrow> \<exists>es. t_log s' = t_log s @ es"
proof (induction k arbitrary: s)
  case (Suc k)
  show ?case
  proof (cases "transmit_own N cfg p n s")
    case None
    with Suc.prems show ?thesis by simp
  next
    case (Some r)
    with Suc.prems obtain s1 where s1: "transmit_own N cfg p n s = Some (Ok s1)" "transmit_run N cfg p n k s1 = Ok s'"
      by (auto simp: bindr_eq_Ok)
    with Suc.IH own_log show ?thesis by (metis append.assoc)
  qed
qed simp

lemmas lap_simps = transmit_own_def transmit_replan_def replan_def transmit_refresh_def transmit_keepalive_def transmit_batch_def
  transmit_wait_def desired_def plan_new_def keepalive_ms_def family_bits_def family_bit_def send_eor_def
  end_of_rib_Ok record_batch_def forget_replay_def refresh_request_def refresh_due_def keepalive_due_def send_replace_def Let_def

section \<open>Properties\<close>

text \<open>The state in which the loop takes up a pending request for the family of a prefix.\<close>

definition takes_refresh :: "ip_net \<Rightarrow> tstate \<Rightarrow> bool" where
  "takes_refresh q s = (t_loc s = AtRefresh \<and> t_eor s = 0 \<and> t_next_refresh s \<le> t_clock s \<and>
     t_pending s AND family_bit (is_v6 q) \<noteq> 0)"

text \<open>
  C11: A route refresh is answered in full. Take a prefix of a negotiated family that the session is
  exporting when it takes up a refresh request for the family, and any further run in which every
  published export keeps the prefix. No End-of-RIB marker of the family is written before the prefix
  was announced again, and once no marker is due the marker has been written.
\<close>

theorem refresh_replays:
  assumes "ipnet N" and "treach N cfg p n (kernel_publishes N le cfg) s" and "takes_refresh q s" and "neg_enabled n q"
    and "q \<in> set (t_target s)" and "q \<in> set (desired (export_acl p) (w_value (t_exports s)))"
    and "(tstep N cfg p n (keeps (kernel_publishes N le cfg) p q))\<^sup>*\<^sup>* (transmit_refresh n s) s'"
  shows "\<exists>since. t_log s' = t_log s @ since \<and>
    (\<forall>as pkt bs. since = as @ (SentEor (is_v6 q), pkt) # bs \<longrightarrow> q \<in> announced as) \<and>
    (t_eor s' = 0 \<longrightarrow> has_marker (is_v6 q) since)"
proof -
  have "refreshing p n q (t_log s) (transmit_refresh n s)"
    using refreshing_start assms(3-6) by (simp add: takes_refresh_def)
  moreover have "tinv N cfg p n (transmit_refresh n s)"
    by (rule tinv_refresh [OF session_inv [OF assms(1,2)]])
  ultimately have "refreshing p n q (t_log s) s'"
    using export_channel.refreshing_run [OF kernel_channel [OF assms(1)] assms(7)] by blast
  then show ?thesis by (auto simp: refreshing_def marked_after_def)
qed

text \<open>A session of the example peering that takes up a request.\<close>

definition example_script :: "script_event list" where
  "example_script = [Own, Own, Own, Own, Own, Own, Own, Own, Requests False, Own, Own]"

lemma example_refresh:
  "\<exists>s. treach ipnet_ref example_config example_peer example_neg (kernel_publishes ipnet_ref True example_config) s \<and>
    takes_refresh (NetV4 0xC6336400 24) s \<and> t_target s = [NetV4 0xC6336400 24] \<and>
    w_value (t_exports s) = [(''export'', [NetV4 0xC6336400 24])] \<and> t_seen s = w_version (t_exports s)"
proof -
  let ?q = "NetV4 0xC6336400 24"
  have "clean_net ?q" by (simp add: clean_net_def net_wf_def net_mask_def mask_top_def)
  then obtain pkt where u: "update ipnet_ref example_config example_peer example_neg [?q] False = Ok pkt"
    using batch_encodes [OF ref.ipnet_axioms example_peer_ok example_neg_wf, of "[?q]" False]
    by (auto simp: good_batch_def MAX_UPDATE_PREFIXES_def neg_enabled_def example_neg_def)
  have "plan_next \<lparr>withdrawals = [], additions = []\<rparr> = None"
    "plan_next \<lparr>withdrawals = [], additions = [?q]\<rparr> = Some ((False, [?q]), \<lparr>withdrawals = [], additions = []\<rparr>)"
    by (simp_all add: plan_next_def MAX_UPDATE_PREFIXES_def)
  with u obtain s where s: "drive ipnet_ref example_config example_peer example_neg example_script example_start = Some s"
      "takes_refresh ?q s" "t_target s = [?q]" "w_value (t_exports s) = [(''export'', [?q])]" "t_seen s = w_version (t_exports s)"
    by (simp add: example_script_def example_start_def example_neg_def example_peer_def transmit_init_def lap_simps neg_enabled_def
        takes_refresh_def is_v6_def)
  from drive_steps [OF s(1)] have "(tstep ipnet_ref example_config example_peer example_neg
      (kernel_publishes ipnet_ref True example_config))\<^sup>*\<^sup>* example_start s"
    by (simp add: example_script_def)
  from treach_steps [OF this example_start_reach] s show ?thesis by blast
qed

lemma example_refresh_fields:
  assumes "t_target s = [NetV4 0xC6336400 24]" and "w_value (t_exports s) = [(''export'', [NetV4 0xC6336400 24])]"
  shows "neg_enabled example_neg (NetV4 0xC6336400 24)" "NetV4 0xC6336400 24 \<in> set (t_target s)"
    "NetV4 0xC6336400 24 \<in> set (desired (export_acl example_peer) (w_value (t_exports s)))"
  using assms by (simp_all add: neg_enabled_def example_neg_def desired_def example_peer_def)

theorem refresh_replays_witness:
  "\<exists>s since. treach ipnet_ref example_config example_peer example_neg (kernel_publishes ipnet_ref True example_config) s \<and>
    t_log (transmit_refresh example_neg s) = t_log s @ since \<and>
    (\<forall>as pkt bs. since = as @ (SentEor False, pkt) # bs \<longrightarrow> NetV4 0xC6336400 24 \<in> announced as)"
proof -
  obtain s where s: "treach ipnet_ref example_config example_peer example_neg (kernel_publishes ipnet_ref True example_config) s"
      "takes_refresh (NetV4 0xC6336400 24) s" "t_target s = [NetV4 0xC6336400 24]"
      "w_value (t_exports s) = [(''export'', [NetV4 0xC6336400 24])]"
    using example_refresh by blast
  note f = example_refresh_fields [OF s(3,4)]
  from refresh_replays [OF ref.ipnet_axioms s(1,2) f rtranclp.rtrancl_refl] s(1) show ?thesis
    by (auto simp: is_v6_def)
qed

text \<open>
  C12: A route refresh completes. When the loop takes up a request, and nothing else happens, it comes
  to rest after finitely many of its own steps, without an error; by then it has announced
  every exported prefix of the requested family again, and the marker after them.
\<close>

theorem refresh_completes:
  assumes "ipnet N" and "peer_ok cfg p" and "neg_wf cfg p n" and "treach N cfg p n (kernel_publishes N le cfg) s"
    and "takes_refresh q s" and "neg_enabled n q" and "t_seen s = w_version (t_exports s)"
  shows "\<exists>k s' since. transmit_run N cfg p n k s = Ok s' \<and> transmit_own N cfg p n s' = None \<and> t_log s' = t_log s @ since \<and>
    (\<forall>r \<in> set (t_target s). is_v6 r = is_v6 q \<longrightarrow> has_marker (is_v6 r) since \<and> marked_after r since)"
proof -
  note inv = session_inv [OF assms(1,4)]
  have loc: "t_loc s = AtRefresh" using assms(5) by (simp add: takes_refresh_def)
  then have own: "transmit_own N cfg p n s = Some (Ok (transmit_refresh n s))" by (simp add: transmit_own_def)
  let ?s1 = "transmit_refresh n s"
  have open1: "t_loc ?s1 \<noteq> Closed" using own_fields [OF own] by simp
  have inv1: "tinv N cfg p n ?s1" by (rule tinv_refresh [OF inv])
  from run_converges [OF assms(1-3) treach.step [OF assms(4) own_tstep [OF own]] open1]
  obtain k s' where run: "transmit_run N cfg p n k ?s1 = Ok s'"
      and rest: "transmit_own N cfg p n s' = None" "t_loc s' \<noteq> Closed" "tinv N cfg p n s'"
    by blast
  have eor: "t_eor s' = 0" using own_idle [OF rest] rest(3) by (simp add: tinv_def)
  have tgt: "t_target s = desired (export_acl p) (w_value (t_exports s))" using inv assms(7) by (simp add: tinv_def)
  have replayed: "\<exists>since. t_log s' = t_log s @ since \<and> marked_after r since \<and> has_marker (is_v6 r) since"
    if r: "r \<in> set (t_target s)" "is_v6 r = is_v6 q" for r
  proof -
    have "neg_enabled n r" using assms(6) r(2) by (cases q; cases r) (auto simp: neg_enabled_def is_v6_def)
    then have "refreshing p n r (t_log s) ?s1"
      using refreshing_start assms(5) r tgt by (simp add: takes_refresh_def)
    from export_channel.refreshing_run [OF kernel_channel [OF assms(1)] run_steps [OF run] inv1 this] eor
    show ?thesis by (auto simp: refreshing_def)
  qed
  have "\<exists>since. t_log s' = t_log s @ since"
    using run_log [OF run] by (metis append.assoc refresh_log)
  then obtain since where "t_log s' = t_log s @ since" by blast
  with replayed run rest(1) own show ?thesis
    by (intro exI [of _ "Suc k"] exI [of _ s'] exI [of _ since]) auto
qed

theorem refresh_completes_witness:
  "\<exists>s k s' since. takes_refresh (NetV4 0xC6336400 24) s \<and>
    transmit_run ipnet_ref example_config example_peer example_neg k s = Ok s' \<and> t_log s' = t_log s @ since \<and> has_marker False since"
proof -
  obtain s where s: "treach ipnet_ref example_config example_peer example_neg (kernel_publishes ipnet_ref True example_config) s"
      "takes_refresh (NetV4 0xC6336400 24) s" "t_target s = [NetV4 0xC6336400 24]"
      "w_value (t_exports s) = [(''export'', [NetV4 0xC6336400 24])]" "t_seen s = w_version (t_exports s)"
    using example_refresh by blast
  from refresh_completes [OF ref.ipnet_axioms example_peer_ok example_neg_wf s(1,2) example_refresh_fields(1) [OF s(3,4)] s(5)] s(2,3)
  show ?thesis by (fastforce simp: is_v6_def)
qed

section \<open>Requests in the cool-down\<close>

text \<open>What a step does to the pending bits and the cool-down.\<close>

lemma own_pending:
  assumes "transmit_own N cfg p n w = Some (Ok w')"
  shows "(t_pending w' = t_pending w \<and> t_next_refresh w' = t_next_refresh w \<or>
      t_pending w' = 0 \<and> t_next_refresh w' \<in> {t_next_refresh w, t_clock w + 1000} \<and> w' = transmit_refresh n w \<and>
        t_loc w = AtRefresh \<and> t_eor w = 0 \<and> t_next_refresh w \<le> t_clock w) \<and> t_clock w' = t_clock w"
proof (cases "t_loc w")
  case AtBatch
  with assms have b: "transmit_batch N cfg p n w = Ok w'" by (simp add: transmit_own_def)
  show ?thesis
  proof (cases "plan_next (t_plan w)")
    case None
    with transmit_batch_None [OF b] show ?thesis by simp
  next
    case (Some r)
    with b show ?thesis by (cases r) (auto simp: transmit_batch_def bindr_eq_Ok)
  qed
next
  case AtKeepalive
  with assms show ?thesis by (auto simp: transmit_own_def transmit_keepalive_def bindr_eq_Ok split: if_splits)
next
  case AtRefresh
  with assms have w': "w' = transmit_refresh n w" by (simp add: transmit_own_def)
  show ?thesis
  proof (cases "t_eor w = 0 \<and> refresh_due w")
    case True
    then have "t_pending w' = 0 \<and> t_next_refresh w' = t_clock w + 1000 \<and> t_clock w' = t_clock w"
      by (simp add: w' transmit_refresh_def refresh_due_def Let_def)
    with True AtRefresh w' show ?thesis by (simp add: refresh_due_def)
  next
    case False
    then show ?thesis by (simp add: w' transmit_refresh_idle)
  qed
qed (use assms in \<open>auto simp: transmit_own_def transmit_replan_def transmit_wait_def transmit_changed_def
      replan_def Let_def split: if_splits\<close>)

lemma tstep_own:
  assumes "tstep N cfg p n P s s'"
  obtains "transmit_own N cfg p n s = Some (Ok s')"
  | "t_pending s' = t_pending s" "t_next_refresh s' = t_next_refresh s" "t_clock s \<le> t_clock s'"
  | v6 where "s' = refresh_request v6 s"
  using assms
proof cases
  case changed
  then show ?thesis using that(2) by (simp add: transmit_changed_def replan_def Let_def)
qed (use that in \<open>auto simp: transmit_own_def\<close>)

lemma cooldown_bounded: "treach N cfg p n P s \<Longrightarrow> t_next_refresh s \<le> t_clock s + 1000"
proof (induction rule: treach.induct)
  case (step s s')
  from step.hyps(2) show ?case
    by (cases rule: tstep_own) (use step.IH own_pending [of N cfg p n s s'] in \<open>auto simp: refresh_request_def\<close>)
qed (simp add: transmit_init_def Let_def)

lemma run_pending:
  assumes "transmit_run N cfg p n k s = Ok s'" and "t_pending s = 0 \<or> t_next_refresh s \<le> t_clock s"
  shows "t_pending s' = 0 \<or> t_next_refresh s' \<le> t_clock s'"
  using assms
proof (induction k arbitrary: s)
  case (Suc k)
  show ?case
  proof (cases "transmit_own N cfg p n s")
    case None
    with Suc.prems show ?thesis by simp
  next
    case (Some r)
    with Suc.prems obtain s1 where s1: "transmit_own N cfg p n s = Some (Ok s1)" "transmit_run N cfg p n k s1 = Ok s'"
      by (auto simp: bindr_eq_Ok)
    have "t_pending s1 = 0 \<or> t_next_refresh s1 \<le> t_clock s1" using own_pending [OF s1(1)] Suc.prems(2) by auto
    with Suc.IH [OF s1(2)] show ?thesis .
  qed
qed simp

lemma pending_kept:
  assumes "tstep N cfg p n P s s'" and "t_pending s AND family_bit v6 \<noteq> 0"
  shows "t_pending s' AND family_bit v6 \<noteq> 0 \<or>
    s' = transmit_refresh n s \<and> t_loc s = AtRefresh \<and> t_eor s = 0 \<and> t_next_refresh s \<le> t_clock s"
  using assms(1)
proof (cases rule: tstep_own)
  case 1
  with own_pending [OF 1] assms(2) show ?thesis by auto
next
  case (3 f)
  have "(t_pending s OR family_bit f) AND family_bit v6 \<noteq> 0"
    using assms(2) by (simp add: bit.conj_disj_distrib2 or_eq_0_iff)
  with 3 show ?thesis by (simp add: refresh_request_def)
qed (use assms(2) in simp)

lemma pending_until_taken:
  assumes "(tstep N cfg p n P)\<^sup>*\<^sup>* (refresh_request v6 s) s'"
  shows "t_pending s' AND family_bit v6 \<noteq> 0 \<or>
    (\<exists>s1. (tstep N cfg p n P)\<^sup>*\<^sup>* (refresh_request v6 s) s1 \<and>
      t_loc s1 = AtRefresh \<and> t_eor s1 = 0 \<and> t_next_refresh s1 \<le> t_clock s1 \<and> t_pending s1 AND family_bit v6 \<noteq> 0 \<and>
      (tstep N cfg p n P)\<^sup>*\<^sup>* (transmit_refresh n s1) s')"
  using assms
proof (induction rule: rtranclp_induct)
  case base
  have "family_bit v6 \<noteq> 0" by (simp add: family_bit_def)
  then show ?case by (simp add: refresh_request_def bit.conj_disj_distrib2 or_eq_0_iff)
next
  case (step s1 s2)
  show ?case
  proof (cases "t_pending s1 AND family_bit v6 \<noteq> 0")
    case True
    with pending_kept [OF step.hyps(2) True] step.hyps(1) show ?thesis by blast
  next
    case False
    with step.IH step.hyps(2) show ?thesis by (meson rtranclp.rtrancl_into_rtrancl)
  qed
qed

lemma run_takes_all:
  assumes "ipnet N" and "peer_ok cfg p" and "neg_wf cfg p n" and "treach N cfg p n (kernel_publishes N le cfg) s"
    and "t_loc s \<noteq> Closed" and "t_next_refresh s \<le> t_clock s"
  shows "\<exists>k s2. transmit_run N cfg p n k s = Ok s2 \<and> transmit_own N cfg p n s2 = None \<and> t_pending s2 = 0"
proof -
  from run_converges [OF assms(1-5)] obtain k s2 where run: "transmit_run N cfg p n k s = Ok s2"
      and rest: "transmit_own N cfg p n s2 = None" "t_loc s2 \<noteq> Closed" "tinv N cfg p n s2"
    by blast
  have "t_pending s2 = 0 \<or> t_next_refresh s2 \<le> t_clock s2" using run_pending [OF run] assms(6) by simp
  moreover have "t_loc s2 = AtWait" "t_eor s2 = 0" using own_idle [OF rest] rest(3) by (simp_all add: tinv_def)
  then have "\<not> refresh_due s2" using rest(1) by (auto simp: transmit_own_def transmit_wait_def split: if_splits)
  ultimately have "t_pending s2 = 0" by (auto simp: refresh_due_def)
  with run rest(1) show ?thesis by blast
qed

text \<open>
  C13: A refresh request is never lost. After the reader has set the bit of a family, in every run the
  bit stays set until the loop takes the request up, also through the cool-down after an earlier
  refresh and while other requests arrive; and a loop that is left alone for one second comes to
  rest with no request pending.
\<close>

theorem refresh_not_lost:
  assumes "ipnet N" and "peer_ok cfg p" and "neg_wf cfg p n" and "treach N cfg p n (kernel_publishes N le cfg) s"
    and "t_loc s \<noteq> Closed" and "(tstep N cfg p n (kernel_publishes N le cfg))\<^sup>*\<^sup>* (refresh_request v6 s) s'"
  shows "(t_pending s' AND family_bit v6 \<noteq> 0 \<or>
      (\<exists>s1. (tstep N cfg p n (kernel_publishes N le cfg))\<^sup>*\<^sup>* (refresh_request v6 s) s1 \<and>
        t_loc s1 = AtRefresh \<and> t_eor s1 = 0 \<and> t_next_refresh s1 \<le> t_clock s1 \<and> t_pending s1 AND family_bit v6 \<noteq> 0 \<and>
        (tstep N cfg p n (kernel_publishes N le cfg))\<^sup>*\<^sup>* (transmit_refresh n s1) s')) \<and>
    (\<exists>k s2. transmit_run N cfg p n k (s\<lparr>t_clock := t_clock s + 1000\<rparr>) = Ok s2 \<and> transmit_own N cfg p n s2 = None \<and> t_pending s2 = 0)"
proof
  let ?s = "s\<lparr>t_clock := t_clock s + 1000\<rparr>"
  have "treach N cfg p n (kernel_publishes N le cfg) ?s" by (rule treach.step [OF assms(4) tstep.clock]) simp
  moreover have "t_loc ?s \<noteq> Closed" "t_next_refresh ?s \<le> t_clock ?s" using assms(5) cooldown_bounded [OF assms(4)] by simp_all
  ultimately show "\<exists>k s2. transmit_run N cfg p n k ?s = Ok s2 \<and> transmit_own N cfg p n s2 = None \<and> t_pending s2 = 0"
    by (rule run_takes_all [OF assms(1-3)])
qed (rule pending_until_taken [OF assms(6)])

theorem refresh_not_lost_witness:
  "\<exists>k s2. transmit_run ipnet_ref example_config example_peer example_neg k (example_start\<lparr>t_clock := t_clock example_start + 1000\<rparr>) = Ok s2 \<and>
    t_pending s2 = 0"
proof -
  have "t_loc example_start \<noteq> Closed" by (simp add: example_start_def transmit_init_def Let_def)
  from refresh_not_lost [OF ref.ipnet_axioms example_peer_ok example_neg_wf example_start_reach this rtranclp.rtrancl_refl, of False]
  show ?thesis by blast
qed

section \<open>A refresh that the exports outrun\<close>

text \<open>A dual-stack peering.\<close>

definition dual_peer :: peer where
  "dual_peer = example_peer\<lparr>peer_ipv6 := True, next_hop_v6 := Some 0x20010DB8000000000000000000000001\<rparr>"

definition dual_config :: config where
  "dual_config = example_config\<lparr>cfg_ipv6 := True, peers := [dual_peer], acls := [(''export'', \<lparr>rules = [
     \<lparr>rule_action = Permit, rule_prefix = NetV4 0xC6336400 24, min_length = None, max_length = None\<rparr>,
     \<lparr>rule_action = Permit, rule_prefix = NetV6 0x20010DB8000100000000000000000000 48, min_length = None, max_length = None\<rparr>]\<rparr>)]\<rparr>"

definition dual_neg :: negotiated where
  "dual_neg = example_neg\<lparr>neg_ipv6 := True\<rparr>"

definition dual_v4 :: ip_net where
  "dual_v4 = NetV4 0xC6336400 24"

definition dual_v6 :: ip_net where
  "dual_v6 = NetV6 0x20010DB8000100000000000000000000 48"

definition dual_start :: tstate where
  "dual_start = transmit_init 0 dual_peer dual_neg \<lparr>w_value = [(''export'', [dual_v4, dual_v6])], w_version = 1\<rparr>"

text \<open>
  The session synchronizes and takes up a refresh of both families; after the first batch of the
  replay both prefixes leave the exports, and after the first withdrawal one of them returns.
\<close>

definition outrun_before :: "script_event list" where
  "outrun_before = [Own, Own, Own, Own, Own, Own, Own, Own, Own, Own, Own, Own, Requests False, Requests True, Own, Own]"

definition outrun_after :: "script_event list" where
  "outrun_after = [Own, Own, Publishes [(''export'', [])], Tick 100, Own, Own, Own, Own,
     Publishes [(''export'', [dual_v6])], Tick 100, Own, Own, Own, Own]"

lemma dual_plans:
  "plan_next \<lparr>withdrawals = [], additions = []\<rparr> = None"
  "plan_next \<lparr>withdrawals = [], additions = [dual_v4, dual_v6]\<rparr> = Some ((False, [dual_v4]), \<lparr>withdrawals = [], additions = [dual_v6]\<rparr>)"
  "plan_next \<lparr>withdrawals = [], additions = [dual_v6]\<rparr> = Some ((False, [dual_v6]), \<lparr>withdrawals = [], additions = []\<rparr>)"
  "plan_next \<lparr>withdrawals = [dual_v4, dual_v6], additions = []\<rparr> = Some ((True, [dual_v4]), \<lparr>withdrawals = [dual_v6], additions = []\<rparr>)"
  by (simp_all add: plan_next_def MAX_UPDATE_PREFIXES_def dual_v4_def dual_v6_def is_v6_def)

lemma dual_nets:
  "\<not> is_v6 dual_v4" "is_v6 dual_v6" "dual_v4 \<noteq> dual_v6" "dual_v6 \<noteq> dual_v4"
  "neg_enabled dual_neg dual_v4" "neg_enabled dual_neg dual_v6" "clean_net dual_v4" "clean_net dual_v6"
  by (simp_all add: dual_v4_def dual_v6_def is_v6_def neg_enabled_def dual_neg_def example_neg_def clean_net_def net_wf_def
      net_mask_def mask_top_def)

lemma dual_peer_ok: "peer_ok dual_config dual_peer"
  by (simp add: peer_ok_def dual_config_def dual_peer_def example_defs valid_ip_def valid_v4_def is_multicast_v4_def broadcast_v4_def
      timeout_ok_def nh4_def nh6_def valid_v6_def is_multicast_v6_def is_unicast_link_local_def unwrap_or_def)

lemma dual_neg_wf: "neg_wf dual_config dual_peer dual_neg"
  by (simp add: neg_wf_def dual_neg_def example_neg_def dual_config_def dual_peer_def example_defs word_le_nat_alt)

lemma dual_permits:
  "permits ipnet_ref (the (map_of (acls dual_config) ''export'')) dual_v4"
  "permits ipnet_ref (the (map_of (acls dual_config) ''export'')) dual_v6"
  by (simp_all add: permits_def rule_matches_def dual_config_def dual_v4_def dual_v6_def ipnet_ref_def)

lemma dual_export_ok:
  assumes "distinct ps" and "set ps \<subseteq> {dual_v4, dual_v6}"
  shows "export_ok ipnet_ref dual_config [(''export'', ps)]"
  using assms dual_permits dual_nets(7,8) by (auto simp: export_ok_def clean_net_def split: if_splits)

lemma dual_update:
  assumes "q = dual_v4 \<or> q = dual_v6"
  shows "\<exists>pkt. update ipnet_ref dual_config dual_peer dual_neg [q] w = Ok pkt"
proof -
  have "good_batch [q]" by (simp add: good_batch_def MAX_UPDATE_PREFIXES_def)
  moreover have "clean_net q" "neg_enabled dual_neg q" using assms dual_nets by auto
  ultimately show ?thesis
    using batch_encodes [OF ref.ipnet_axioms dual_peer_ok dual_neg_wf, of "[q]" w] by auto
qed

lemma outrun:
  assumes "update ipnet_ref dual_config dual_peer dual_neg [dual_v4] False = Ok p1"
    and "update ipnet_ref dual_config dual_peer dual_neg [dual_v6] False = Ok p2"
    and "update ipnet_ref dual_config dual_peer dual_neg [dual_v4] True = Ok p3"
  shows "\<exists>s s'. drive ipnet_ref dual_config dual_peer dual_neg outrun_before dual_start = Some s \<and> takes_refresh dual_v6 s \<and>
    drive ipnet_ref dual_config dual_peer dual_neg outrun_after (transmit_refresh dual_neg s) = Some s' \<and>
    map fst (t_log s') = map fst (t_log s) @ [SentUpdate False [dual_v4], SentUpdate True [dual_v4], SentEor False, SentEor True] \<and>
    take (length (t_log s)) (t_log s') = t_log s \<and>
    dual_v6 \<in> set (t_target s) \<and> t_loc s' = AtWait \<and> w_value (t_exports s') = [(''export'', [dual_v6])]"
  using assms dual_nets
  by (simp add: outrun_before_def outrun_after_def dual_start_def transmit_init_def lap_simps dual_plans takes_refresh_def)
    (simp add: dual_peer_def example_peer_def dual_neg_def example_neg_def lap_simps dual_plans)


end
