(* ===== verification/Duplex.thy ===== *)
theory Duplex
  imports Receive Refresh
begin

unbundle bit_operations_syntax

text \<open>
  The two halves of an established session running together, as the \<open>select!\<close> of \<open>session\<close> in
  \<open>src/bgp.rs\<close> runs them: the reader takes messages off the stream, keeps the hold timer and sets
  the bits of the shared \<open>Refresh\<close>; the writer runs its loop; each may end the session.
\<close>

section \<open>Definitions\<close>

datatype session_end = ReaderEnds error | WriterEnds

record duplex =
  dx_reader :: rstate
  dx_input :: bytes
  dx_writer :: tstate
  dx_end :: "session_end option"

definition duplex_init :: "nat \<Rightarrow> peer \<Rightarrow> negotiated \<Rightarrow> bytes \<Rightarrow> exports watch \<Rightarrow> duplex" where
  "duplex_init now p n input ex = \<lparr>dx_reader = receive_init now n, dx_input = input,
     dx_writer = transmit_init now p n ex, dx_end = None\<rparr>"

text \<open>A message that the reader handles now; the requests it adds reach the writer.\<close>

definition deliver :: "rstate \<Rightarrow> bytes \<Rightarrow> duplex \<Rightarrow> duplex" where
  "deliver r rest d = d\<lparr>dx_reader := r, dx_input := rest,
     dx_writer := fold refresh_request (drop (length (r_requests (dx_reader d))) (r_requests r)) (dx_writer d)\<rparr>"

inductive dstep :: "ipnet_ops \<Rightarrow> config \<Rightarrow> peer \<Rightarrow> negotiated \<Rightarrow> (exports \<Rightarrow> bool) \<Rightarrow> duplex \<Rightarrow> duplex \<Rightarrow> bool"
  for N :: ipnet_ops and cfg :: config and p :: peer and n :: negotiated and publishes :: "exports \<Rightarrow> bool" where
  reads: "dx_end d = None \<Longrightarrow> ready \<le> t_clock (dx_writer d) \<Longrightarrow> \<not> (hold n \<noteq> 0 \<and> r_expires (dx_reader d) < ready) \<Longrightarrow>
    read_frame (dx_input d) = Ok (packet, rest) \<Longrightarrow>
    receive_packet N n (t_clock (dx_writer d)) packet (dx_reader d) = Ok r \<Longrightarrow> dstep N cfg p n publishes d (deliver r rest d)"
| bad_frame: "dx_end d = None \<Longrightarrow> read_frame (dx_input d) = Err e \<Longrightarrow>
    dstep N cfg p n publishes d (d\<lparr>dx_end := Some (ReaderEnds e)\<rparr>)"
| bad_message: "dx_end d = None \<Longrightarrow> read_frame (dx_input d) = Ok (packet, rest) \<Longrightarrow>
    receive_packet N n (t_clock (dx_writer d)) packet (dx_reader d) = Err e \<Longrightarrow>
    dstep N cfg p n publishes d (d\<lparr>dx_end := Some (ReaderEnds e)\<rparr>)"
| expires: "dx_end d = None \<Longrightarrow> hold n \<noteq> 0 \<Longrightarrow> r_expires (dx_reader d) < t_clock (dx_writer d) \<Longrightarrow>
    dstep N cfg p n publishes d (d\<lparr>dx_end := Some (ReaderEnds hold_expired)\<rparr>)"
| ticks: "dx_end d = None \<Longrightarrow> t_clock (dx_writer d) \<le> t \<Longrightarrow>
    dstep N cfg p n publishes d (d\<lparr>dx_writer := (dx_writer d)\<lparr>t_clock := t\<rparr>\<rparr>)"
| published: "dx_end d = None \<Longrightarrow> publishes ex \<Longrightarrow>
    dstep N cfg p n publishes d (d\<lparr>dx_writer := (dx_writer d)\<lparr>t_exports := send_replace ex (t_exports (dx_writer d))\<rparr>\<rparr>)"
| writes: "dx_end d = None \<Longrightarrow> transmit_own N cfg p n (dx_writer d) = Some (Ok w) \<Longrightarrow>
    dstep N cfg p n publishes d (d\<lparr>dx_writer := w\<rparr>)"
| notified: "dx_end d = None \<Longrightarrow> t_loc (dx_writer d) = AtWait \<Longrightarrow>
    dstep N cfg p n publishes d (d\<lparr>dx_writer := (dx_writer d)\<lparr>t_loc := AtReplan\<rparr>\<rparr>)"
| writer_ends: "dx_end d = None \<Longrightarrow>
    dstep N cfg p n publishes d (d\<lparr>dx_writer := (dx_writer d)\<lparr>t_loc := Closed\<rparr>, dx_end := Some WriterEnds\<rparr>)"

inductive_cases dstepE: "dstep N cfg p n publishes d d'"

section \<open>What the halves know of each other\<close>

text \<open>
  Bits are pending only for families the peer asked for, what the peer asked for is what its
  messages say, and the hold timer counts from the last sign of life.
\<close>

definition dinv :: "negotiated \<Rightarrow> nat \<Rightarrow> duplex \<Rightarrow> bool" where
  "dinv n start d =
    ((\<forall>v6. t_pending (dx_writer d) AND family_bit v6 \<noteq> 0 \<longrightarrow> v6 \<in> set (r_requests (dx_reader d))) \<and>
     r_requests (dx_reader d) = concat (map (refreshes n) (r_log (dx_reader d))) \<and>
     r_expires (dx_reader d) = last_alive start (r_log (dx_reader d)) + hold_ms n)"

lemma family_bit_and: "family_bit a AND family_bit b \<noteq> 0 \<longleftrightarrow> a = b"
  by (cases a; cases b) (simp_all add: family_bit_def)

lemma requests_pending:
  "t_pending (fold refresh_request fs w) AND family_bit v6 \<noteq> 0 \<longleftrightarrow>
    t_pending w AND family_bit v6 \<noteq> 0 \<or> v6 \<in> set fs"
proof (induction fs arbitrary: w)
  case (Cons f fs)
  have "(t_pending w OR family_bit f) AND family_bit v6 \<noteq> 0 \<longleftrightarrow> t_pending w AND family_bit v6 \<noteq> 0 \<or> f = v6"
    using family_bit_and [of f v6] by (auto simp: bit.conj_disj_distrib2 or_eq_0_iff)
  with Cons show ?case by (auto simp: refresh_request_def)
qed simp

lemma treach_requests: "treach N cfg p n P w \<Longrightarrow> treach N cfg p n P (fold refresh_request fs w)"
  by (induction fs arbitrary: w) (auto intro: treach.step tstep.requested)

lemma dstep_writer:
  assumes "dstep N cfg p n P d d'" and "treach N cfg p n P (dx_writer d)"
  shows "treach N cfg p n P (dx_writer d')"
  using assms(1)
proof cases
  case reads
  with assms(2) show ?thesis by (simp add: deliver_def treach_requests)
next
  case (writes w)
  with assms(2) show ?thesis by (auto intro: treach.step own_tstep)
qed (use assms(2) in \<open>auto intro: treach.step tstep.intros\<close>)

lemma refresh_family_negotiated: "refresh_family b n = Ok (Some v6) \<Longrightarrow> if v6 then neg_ipv6 n else neg_ipv4 n"
  by (cases v6) (auto simp: refresh_family_def bindr_eq_Ok split: if_splits)

lemma refreshes_negotiated:
  assumes "v6 \<in> set (refreshes n (now, kind, body))"
  shows "if v6 then neg_ipv6 n else neg_ipv4 n"
proof -
  have refresh: "kind = ROUTE_REFRESH" using assms by (cases "kind = ROUTE_REFRESH") (simp_all add: refreshes_def)
  show ?thesis
  proof (cases "refresh_family body n")
    case (Ok family)
    then have "family = Some v6" using assms refresh by (cases family) (simp_all add: refreshes_def)
    with Ok show ?thesis using refresh_family_negotiated by blast
  qed (use assms refresh in \<open>simp_all add: refreshes_def\<close>)
qed

lemma dinv_reads:
  assumes "dinv n start d" and "receive_packet N n now (kind, body) (dx_reader d) = Ok r"
  shows "dinv n start (deliver r rest d)"
proof -
  note r = receive_packet_Ok [OF assms(2)]
  then have "drop (length (r_requests (dx_reader d))) (r_requests r) = refreshes n (now, kind, body)" by simp
  with assms(1) r show ?thesis by (auto simp: dinv_def deliver_def requests_pending)
qed

lemma dinv_step:
  assumes "dstep N cfg p n P d d'" and "dinv n start d"
  shows "dinv n start d'"
  using assms(1)
proof cases
  case (reads ready packet rest r)
  with dinv_reads [OF assms(2)] show ?thesis by (cases packet) auto
next
  case (writes w)
  with own_pending [OF writes(3)] assms(2) show ?thesis by (auto simp: dinv_def)
qed (use assms(2) in \<open>auto simp: dinv_def\<close>)

text \<open>The messages handled are the front of the stream.\<close>

definition handled :: "rstate \<Rightarrow> bytes" where
  "handled r = concat (map (\<lambda>(_, m). frame_bytes m) (r_log r))"

lemma dstep_input:
  assumes "dstep N cfg p n P d d'"
  shows "handled (dx_reader d') @ dx_input d' = handled (dx_reader d) @ dx_input d"
  using assms
proof cases
  case (reads ready packet rest r)
  obtain kind body where pk: "packet = (kind, body)" by (cases packet)
  with reads(5) read_frame_inverse [of "dx_input d" kind body rest] have "dx_input d = frame_bytes (kind, body) @ rest"
    by (metis frame_bytes_Ok outcome.inject(1))
  with reads(1,6) pk receive_packet_Ok(1) [of N n "t_clock (dx_writer d)" kind body "dx_reader d" r] show ?thesis
    by (simp add: deliver_def handled_def)
qed auto

section \<open>Properties\<close>

text \<open>
  The two halves of a session fit together. In every state of a running session, with the
  reader and the writer interleaved in any order: the writer is in a state of its own machine, so
  that everything proved of it holds; the messages handled are exactly the front of the peer's
  byte stream; a replay is pending only for a negotiated family that one of these messages asked
  for; and the hold timer runs from the last KEEPALIVE or UPDATE among them.
\<close>

theorem session_halves:
  assumes "kernel_publishes N le cfg (w_value ex)"
    and "(dstep N cfg p n (kernel_publishes N le cfg))\<^sup>*\<^sup>* (duplex_init start p n input ex) d"
  shows "treach N cfg p n (kernel_publishes N le cfg) (dx_writer d) \<and>
    input = concat (map (\<lambda>(_, m). frame_bytes m) (r_log (dx_reader d))) @ dx_input d \<and>
    (\<forall>v6. t_pending (dx_writer d) AND family_bit v6 \<noteq> 0 \<longrightarrow>
      (\<exists>m \<in> set (r_log (dx_reader d)). v6 \<in> set (refreshes n m)) \<and> (if v6 then neg_ipv6 n else neg_ipv4 n)) \<and>
    r_expires (dx_reader d) = last_alive start (r_log (dx_reader d)) + hold_ms n"
proof -
  have "treach N cfg p n (kernel_publishes N le cfg) (dx_writer d) \<and> dinv n start d \<and> handled (dx_reader d) @ dx_input d = input"
    using assms(2)
  proof (induction rule: rtranclp_induct)
    case base
    show ?case
      using assms(1)
      by (auto simp: duplex_init_def dinv_def receive_init_def last_alive_def handled_def transmit_init_def Let_def
          intro: treach.start [unfolded transmit_init_def Let_def])
  next
    case (step d1 d2)
    then show ?case using dstep_writer dinv_step dstep_input by metis
  qed
  then show ?thesis using refreshes_negotiated by (fastforce simp: dinv_def handled_def)
qed

theorem session_halves_witness:
  "\<exists>d. (dstep ipnet_ref example_config example_peer example_neg (kernel_publishes ipnet_ref True example_config))\<^sup>*\<^sup>*
      (duplex_init 0 example_peer example_neg (frame_bytes (KEEPALIVE, [])) \<lparr>w_value = [], w_version = 0\<rparr>) d \<and>
    dx_input d = [] \<and> r_expires (dx_reader d) = hold_ms example_neg \<and> t_pending (dx_writer d) AND 1 = 0"
proof -
  let ?d = "duplex_init 0 example_peer example_neg (frame_bytes (KEEPALIVE, [])) \<lparr>w_value = [], w_version = 0\<rparr>"
  let ?r = "\<lparr>r_expires = hold_ms example_neg, r_requests = [], r_log = [(0, KEEPALIVE, [])]\<rparr>"
  have pub: "kernel_publishes ipnet_ref True example_config (w_value (\<lparr>w_value = [], w_version = 0\<rparr> :: exports watch))"
    using kexec.none by (auto simp: kernel_publishes_def kreach_def run_init_def intro!: exI)
  have "read_frame (frame_bytes (KEEPALIVE, []) @ []) = Ok ((KEEPALIVE, []), [])"
    by (rule read_frame_bytes) (simp add: body_ok_def valid_length_def KEEPALIVE_def MAX_MESSAGE_def)
  then have step: "dstep ipnet_ref example_config example_peer example_neg (kernel_publishes ipnet_ref True example_config) ?d (deliver ?r [] ?d)"
    by (intro dstep.reads [where ready = 0 and packet = "(KEEPALIVE, [])"])
      (simp_all add: duplex_init_def receive_init_def receive_packet_def transmit_init_def Let_def)
  then have steps: "(dstep ipnet_ref example_config example_peer example_neg (kernel_publishes ipnet_ref True example_config))\<^sup>*\<^sup>* ?d (deliver ?r [] ?d)"
    by (rule r_into_rtranclp)
  from session_halves [OF pub steps] steps show ?thesis
    by (intro exI [of _ "deliver ?r [] ?d"])
      (auto simp: deliver_def duplex_init_def refreshes_def receive_init_def transmit_init_def Let_def)
qed

end
