(* ===== verification/Peer_Loop.thy ===== *)
theory Peer_Loop
  imports Connection Duplex
begin

text \<open>
  \<open>peer_loop\<close> of \<open>src/bgp.rs\<close> as a state machine: the worker of one configured peer, from its first
  connection attempt through the choice of a connection, the confirmation, the running session
  and the back-off, with its queue of incoming connections and its status on the console.

  A step is taken at a time \<open>now\<close>, with \<open>ex\<close> the exports channel of the kernel side. The steps of the
  parts are those of the theories below: \<open>choose_step\<close>, \<open>session_confirm\<close> and the interleaved
  halves of a session, \<open>dstep\<close>.
\<close>

section \<open>Definitions\<close>

datatype conn_task = OutgoingTask | IncomingTask bytes

text \<open>Where the loop is; a session carries when it started and whether it follows a choice or was accepted in the back-off.\<close>

datatype loop_phase =
    AtTop
  | Choosing chooser "conn_task list"
  | Confirming candidate nat bool
  | Running candidate nat bool duplex
  | BackingOff nat
  | Greeting bytes
  | LoopEnded

record peer_machine =
  pm_phase :: loop_phase
  pm_state :: peer_state
  pm_queue :: "bytes list"
  pm_listener :: bool
  pm_notices :: "bytes list"

definition peer_init :: "nat \<Rightarrow> peer_machine" where
  "peer_init now = \<lparr>pm_phase = AtTop,
     pm_state = \<lparr>pl_failures = 0, pl_status = \<lparr>ps_state = ''Idle'', ps_since = now, ps_last_error = None\<rparr>\<rparr>,
     pm_queue = [], pm_listener = True, pm_notices = []\<rparr>"

text \<open>The queue of \<open>mpsc::channel(2)\<close>: \<open>try_send\<close> drops the stream when it is full.\<close>

definition enqueue :: "bytes \<Rightarrow> peer_machine \<Rightarrow> peer_machine" where
  "enqueue stream pm =
    (if pm_listener pm then pm\<lparr>pm_queue := try_send stream (pm_queue pm)\<rparr> else pm)"

definition show_status :: "(conn_error \<Rightarrow> string) \<Rightarrow> nat \<Rightarrow> string \<times> conn_error option \<Rightarrow> peer_machine \<Rightarrow> peer_machine" where
  "show_status fmt now u pm = pm\<lparr>pm_state := set_status fmt now u (pm_state pm)\<rparr>"

text \<open>A NOTIFICATION written on a connection that is being closed.\<close>

definition notice :: "(error, bytes option) outcome \<Rightarrow> peer_machine \<Rightarrow> peer_machine" where
  "notice r pm = (case r of Ok (Some pkt) \<Rightarrow> pm\<lparr>pm_notices := pm_notices pm @ [pkt]\<rparr> | _ \<Rightarrow> pm)"

text \<open>The Cease of a redundant connection.\<close>

definition cease :: "(error, bytes option) outcome" where
  "cease = bindr (notification 6 7 []) (\<lambda>pkt. Ok (Some pkt))"

text \<open>The tail of an attempt: one more failure, and the back-off until the next one.\<close>

definition back_off :: "(conn_error \<Rightarrow> string) \<Rightarrow> nat \<Rightarrow> nat \<Rightarrow> peer_machine \<Rightarrow> peer_machine" where
  "back_off fmt now jitter pm =
    (let pm = show_status fmt now (''Active'', None) pm;
         failures = saturating_inc (pl_failures (pm_state pm))
     in pm\<lparr>pm_state := (pm_state pm)\<lparr>pl_failures := failures\<rparr>, pm_phase := BackingOff (now + retry_ms failures jitter)\<rparr>)"

definition choice_failed :: "(conn_error \<Rightarrow> string) \<Rightarrow> nat \<Rightarrow> nat \<Rightarrow> conn_error \<Rightarrow> peer_machine \<Rightarrow> peer_machine" where
  "choice_failed fmt now jitter e pm = back_off fmt now jitter (show_status fmt now (''Active'', Some e) pm)"

definition connect_start :: "(conn_error \<Rightarrow> string) \<Rightarrow> peer \<Rightarrow> nat \<Rightarrow> nat \<Rightarrow> peer_machine \<Rightarrow> peer_machine" where
  "connect_start fmt p now jitter pm =
    (let pm = show_status fmt now (''Connect'', None) pm in
     case choose_init p now of
       Ok ch \<Rightarrow> pm\<lparr>pm_phase := Choosing ch [OutgoingTask]\<rparr>
     | Err e \<Rightarrow> choice_failed fmt now jitter e pm
     | Panic \<Rightarrow> pm)"

definition session_start :: "(conn_error \<Rightarrow> string) \<Rightarrow> nat \<Rightarrow> candidate \<Rightarrow> bool \<Rightarrow> peer_machine \<Rightarrow> peer_machine" where
  "session_start fmt now c primary pm =
    (show_status fmt now (''OpenConfirm'', None) pm)\<lparr>pm_phase := Confirming c now primary\<rparr>"

text \<open>What \<open>choose\<close> decided; a pending candidate that lost is closed with a Cease.\<close>

definition choose_next :: "(conn_error \<Rightarrow> string) \<Rightarrow> nat \<Rightarrow> nat \<Rightarrow> choose_result \<Rightarrow> conn_task list \<Rightarrow> peer_machine \<Rightarrow> peer_machine" where
  "choose_next fmt now jitter result tasks pm = (case result of
     Waiting ch \<Rightarrow> pm\<lparr>pm_phase := Choosing ch tasks\<rparr>
   | Chosen c old \<Rightarrow> session_start fmt now c True (if old = None then pm else notice cease pm)
   | GaveUp e \<Rightarrow> choice_failed fmt now jitter e pm)"

definition task_result :: "(string \<Rightarrow> u32) \<Rightarrow> bool \<Rightarrow> config \<Rightarrow> peer \<Rightarrow> open_env \<Rightarrow> conn_task \<Rightarrow>
    (conn_error, candidate) outcome \<times> (error, bytes option) outcome" where
  "task_result nametoindex late cfg p env t = (case t of
     OutgoingTask \<Rightarrow> outgoing nametoindex late cfg p env
   | IncomingTask stream \<Rightarrow> handshake cfg p True (env\<lparr>oe_input := stream\<rparr>))"

text \<open>The end of a session in the loop: after a choice, the back-off; after an accepted connection, the top.\<close>

definition session_over :: "(conn_error \<Rightarrow> string) \<Rightarrow> nat \<Rightarrow> nat \<Rightarrow> nat \<Rightarrow> bool \<Rightarrow> conn_error \<Rightarrow> peer_machine \<Rightarrow> peer_machine" where
  "session_over fmt now jitter started primary e pm =
    (let pm = show_status fmt now (''Active'', Some e) pm in
     if primary then
       back_off fmt now jitter (if 30000 \<le> now - started then pm\<lparr>pm_state := (pm_state pm)\<lparr>pl_failures := 0\<rparr>\<rparr> else pm)
     else pm\<lparr>pm_phase := AtTop\<rparr>)"

definition confirm_session :: "(conn_error \<Rightarrow> string) \<Rightarrow> peer \<Rightarrow> nat \<Rightarrow> exports watch \<Rightarrow> nat \<Rightarrow> confirm_env \<Rightarrow>
    candidate \<Rightarrow> nat \<Rightarrow> bool \<Rightarrow> peer_machine \<Rightarrow> peer_machine" where
  "confirm_session fmt p now ex jitter env c started primary pm =
    (let (result, answer) = session_confirm p c env; pm = notice answer pm in
     case result of
       Ok stream \<Rightarrow> (show_status fmt now (''Established'', None) pm)\<lparr>pm_phase :=
         Running c started primary (duplex_init now (session_peer p c) (cand_neg c) stream ex)\<rparr>
     | Err e \<Rightarrow> session_over fmt now jitter started primary e pm
     | Panic \<Rightarrow> pm)"

text \<open>How an established session ends: \<open>receive\<close> and \<open>transmit\<close> return only errors.\<close>

fun session_error :: "session_end \<Rightarrow> conn_error \<Rightarrow> conn_error" where
  "session_error (ReaderEnds e) w = WireError e"
| "session_error WriterEnds w = w"

definition session_closed :: "(conn_error \<Rightarrow> string) \<Rightarrow> nat \<Rightarrow> nat \<Rightarrow> nat \<Rightarrow> bool \<Rightarrow> conn_error \<Rightarrow> peer_machine \<Rightarrow> peer_machine" where
  "session_closed fmt now jitter started primary e pm =
     session_over fmt now jitter started primary e (show_status fmt now (''Active'', Some e) (notice (report_conn e) pm))"

text \<open>The handshake on a connection accepted in the back-off.\<close>

definition greeted :: "(conn_error \<Rightarrow> string) \<Rightarrow> config \<Rightarrow> peer \<Rightarrow> nat \<Rightarrow> open_env \<Rightarrow> bytes \<Rightarrow> peer_machine \<Rightarrow> peer_machine" where
  "greeted fmt cfg p now env stream pm =
    (let (result, answer) = handshake cfg p True (env\<lparr>oe_input := stream\<rparr>); pm = notice answer pm in
     case result of
       Ok c \<Rightarrow> session_start fmt now c False pm
     | Err e \<Rightarrow> (show_status fmt now (''Active'', Some e) pm)\<lparr>pm_phase := AtTop\<rparr>
     | Panic \<Rightarrow> pm)"

text \<open>Phases in which the loop itself waits on \<open>incoming.recv()\<close>, outside \<open>choose\<close>.\<close>

fun receives :: "loop_phase \<Rightarrow> bool" where
  "receives (Confirming c started primary) = primary"
| "receives (Running c started primary d) = primary"
| "receives (BackingOff t) = True"
| "receives _ = False"

inductive pstep :: "ipnet_ops \<Rightarrow> (string \<Rightarrow> u32) \<Rightarrow> (conn_error \<Rightarrow> string) \<Rightarrow> config \<Rightarrow> peer \<Rightarrow> nat \<Rightarrow> exports watch \<Rightarrow>
    peer_machine \<Rightarrow> peer_machine \<Rightarrow> bool"
  for N :: ipnet_ops and nametoindex :: "string \<Rightarrow> u32" and fmt :: "conn_error \<Rightarrow> string" and cfg :: config and p :: peer
    and now :: nat and ex :: "exports watch" where
  connects: "pm_phase pm = AtTop \<Longrightarrow> jitter < 1000 \<Longrightarrow> pstep N nametoindex fmt cfg p now ex pm (connect_start fmt p now jitter pm)"
| takes: "pm_phase pm = Choosing ch tasks \<Longrightarrow> choose_enabled Incoming ch \<Longrightarrow> pm_queue pm = stream # queue \<Longrightarrow> jitter < 1000 \<Longrightarrow>
    pstep N nametoindex fmt cfg p now ex pm
      (choose_next fmt now jitter (choose_step cfg p Incoming ch) (tasks @ [IncomingTask stream]) (pm\<lparr>pm_queue := queue\<rparr>))"
| taken_none: "pm_phase pm = Choosing ch tasks \<Longrightarrow> choose_enabled IncomingClosed ch \<Longrightarrow> pm_queue pm = [] \<Longrightarrow> \<not> pm_listener pm \<Longrightarrow>
    jitter < 1000 \<Longrightarrow>
    pstep N nametoindex fmt cfg p now ex pm (choose_next fmt now jitter (choose_step cfg p IncomingClosed ch) tasks pm)"
| joins: "pm_phase pm = Choosing ch tasks \<Longrightarrow> t \<in> set tasks \<Longrightarrow> task_result nametoindex late cfg p env t = (r, answer) \<Longrightarrow>
    choose_enabled (Joined r now) ch \<Longrightarrow> jitter < 1000 \<Longrightarrow>
    pstep N nametoindex fmt cfg p now ex pm
      (choose_next fmt now jitter (choose_step cfg p (Joined r now) ch) (remove1 t tasks) (notice answer pm))"
| deadline: "pm_phase pm = Choosing ch tasks \<Longrightarrow> choose_enabled (Deadline now) ch \<Longrightarrow> jitter < 1000 \<Longrightarrow>
    pstep N nametoindex fmt cfg p now ex pm (choose_next fmt now jitter (choose_step cfg p (Deadline now) ch) tasks pm)"
| confirms: "pm_phase pm = Confirming c started primary \<Longrightarrow> jitter < 1000 \<Longrightarrow>
    pstep N nametoindex fmt cfg p now ex pm (confirm_session fmt p now ex jitter env c started primary pm)"
| runs: "pm_phase pm = Running c started primary d \<Longrightarrow>
    dstep N cfg (session_peer p c) (cand_neg c) (\<lambda>_. False) d d' \<Longrightarrow> t_clock (dx_writer d') = t_clock (dx_writer d) \<Longrightarrow>
    pstep N nametoindex fmt cfg p now ex pm (pm\<lparr>pm_phase := Running c started primary d'\<rparr>)"
| ends: "pm_phase pm = Running c started primary d \<Longrightarrow> dx_end d = Some e \<Longrightarrow> w \<in> {SendFailed, SendDeadline, ExportsClosed} \<Longrightarrow>
    jitter < 1000 \<Longrightarrow>
    pstep N nametoindex fmt cfg p now ex pm (session_closed fmt now jitter started primary (session_error e w) pm)"
| rejects: "pm_phase pm = Confirming c started True \<or> pm_phase pm = Running c started True d \<Longrightarrow> pm_queue pm = stream # queue \<Longrightarrow>
    pstep N nametoindex fmt cfg p now ex pm (notice cease (pm\<lparr>pm_queue := queue\<rparr>))"
| retries: "pm_phase pm = BackingOff until \<Longrightarrow> until \<le> now \<Longrightarrow> pstep N nametoindex fmt cfg p now ex pm (pm\<lparr>pm_phase := AtTop\<rparr>)"
| greets: "pm_phase pm = BackingOff until \<Longrightarrow> pm_queue pm = stream # queue \<Longrightarrow>
    pstep N nametoindex fmt cfg p now ex pm (pm\<lparr>pm_queue := queue, pm_phase := Greeting stream\<rparr>)"
| greeted: "pm_phase pm = Greeting stream \<Longrightarrow> pstep N nametoindex fmt cfg p now ex pm (greeted fmt cfg p now env stream pm)"
| gives_up: "receives (pm_phase pm) \<Longrightarrow> pm_queue pm = [] \<Longrightarrow> \<not> pm_listener pm \<Longrightarrow>
    pstep N nametoindex fmt cfg p now ex pm (pm\<lparr>pm_phase := LoopEnded\<rparr>)"

text \<open>What a running session sees of the rest of the daemon: the time and the exports channel.\<close>

definition observe :: "nat \<Rightarrow> exports watch \<Rightarrow> peer_machine \<Rightarrow> peer_machine" where
  "observe now ex pm = (case pm_phase pm of
     Running c started primary d \<Rightarrow>
       if dx_end d = None
       then pm\<lparr>pm_phase := Running c started primary (d\<lparr>dx_writer := (dx_writer d)\<lparr>t_clock := now, t_exports := ex\<rparr>\<rparr>)\<rparr>
       else pm
   | _ \<Rightarrow> pm)"

inductive_cases pstepE: "pstep N nametoindex fmt cfg p now ex pm pm'"


section \<open>The invariant of a peer worker\<close>

lemmas loop_defs = show_status_def notice_def back_off_def choice_failed_def session_start_def session_over_def
  session_closed_def

lemma show_status_simps [simp]:
  "pm_phase (show_status fmt now u pm) = pm_phase pm" "pm_queue (show_status fmt now u pm) = pm_queue pm"
  "pl_failures (pm_state (show_status fmt now u pm)) = pl_failures (pm_state pm)"
  "ps_state (pl_status (pm_state (show_status fmt now u pm))) = fst u"
  "pm_notices (show_status fmt now u pm) = pm_notices pm" "pm_listener (show_status fmt now u pm) = pm_listener pm"
  by (simp_all add: show_status_def)

lemma notice_simps [simp]:
  "pm_phase (notice r pm) = pm_phase pm" "pm_queue (notice r pm) = pm_queue pm" "pm_state (notice r pm) = pm_state pm"
  "pm_listener (notice r pm) = pm_listener pm"
  by (simp_all add: notice_def split: outcome.split option.split)

lemma enqueue_simps [simp]:
  "pm_phase (enqueue stream pm) = pm_phase pm" "pm_state (enqueue stream pm) = pm_state pm"
  "length (pm_queue pm) \<le> 2 \<Longrightarrow> length (pm_queue (enqueue stream pm)) \<le> 2"
  by (simp_all add: enqueue_def try_send_def)

abbreviation shown :: "peer_machine \<Rightarrow> string" where
  "shown pm \<equiv> ps_state (pl_status (pm_state pm))"

text \<open>A candidate a session can be built on, and a session that is running.\<close>

definition sound_candidate :: "config \<Rightarrow> peer \<Rightarrow> candidate \<Rightarrow> bool" where
  "sound_candidate cfg p c = (peer_ok cfg (session_peer p c) \<and> neg_wf cfg (session_peer p c) (cand_neg c))"

definition running :: "ipnet_ops \<Rightarrow> bool \<Rightarrow> config \<Rightarrow> peer \<Rightarrow> negotiated \<Rightarrow> nat \<Rightarrow> exports watch \<Rightarrow> duplex \<Rightarrow> bool" where
  "running N le cfg p n now ex d =
    ((\<exists>start input ex0. kernel_publishes N le cfg (w_value ex0) \<and>
        (dstep N cfg p n (kernel_publishes N le cfg))\<^sup>*\<^sup>* (duplex_init start p n input ex0) d) \<and>
     (dx_end d = None \<longrightarrow> t_clock (dx_writer d) = now \<and> t_exports (dx_writer d) = ex))"

text \<open>A choice in progress: its history, in which every finished exchange gave a sound candidate.\<close>

definition choice_run :: "config \<Rightarrow> peer \<Rightarrow> chooser \<Rightarrow> bool" where
  "choice_run cfg p ch = (\<exists>es. choosing cfg p es ch \<and> (\<forall>c t. Joined (Ok c) t \<in> set es \<longrightarrow> sound_candidate cfg p c))"

definition pinv :: "ipnet_ops \<Rightarrow> bool \<Rightarrow> config \<Rightarrow> peer \<Rightarrow> nat \<Rightarrow> exports watch \<Rightarrow> peer_machine \<Rightarrow> bool" where
  "pinv N le cfg p now ex pm =
    (length (pm_queue pm) \<le> 2 \<and>
     (case pm_phase pm of
        AtTop \<Rightarrow> shown pm \<in> {''Idle'', ''Active''}
      | Choosing ch tasks \<Rightarrow> shown pm = ''Connect'' \<and> ch_tasks ch = length tasks \<and> choice_run cfg p ch \<and>
          ch_deadline ch \<le> now + 1000 * (unat (connect_timeout_secs p) + 2)
      | Confirming c started primary \<Rightarrow> shown pm = ''OpenConfirm'' \<and> sound_candidate cfg p c
      | Running c started primary d \<Rightarrow> shown pm = ''Established'' \<and> sound_candidate cfg p c \<and>
          running N le cfg (session_peer p c) (cand_neg c) now ex d
      | BackingOff t \<Rightarrow> shown pm = ''Active'' \<and> 1 \<le> unat (pl_failures (pm_state pm)) \<and> t < now + 31000
      | Greeting stream \<Rightarrow> shown pm = ''Active''
      | LoopEnded \<Rightarrow> True))"

lemma pinv_same:
  assumes "pinv N le cfg p now ex pm" and "pm_phase pm' = pm_phase pm" and "pm_state pm' = pm_state pm"
    and "length (pm_queue pm') \<le> 2"
  shows "pinv N le cfg p now ex pm'"
  using assms by (cases "pm_phase pm") (simp_all add: pinv_def)

lemma pinv_queue: "pinv N le cfg p now ex pm \<Longrightarrow> length (pm_queue pm) \<le> 2"
  by (simp add: pinv_def)

lemma pinv_init: "pinv N le cfg p now ex (peer_init now')"
  by (simp add: pinv_def peer_init_def)

lemma pinv_back_off:
  assumes "length (pm_queue pm) \<le> 2" and "jitter < 1000"
  shows "pinv N le cfg p now ex (back_off fmt now jitter pm)"
proof -
  let ?f = "saturating_inc (pl_failures (pm_state pm))"
  have one: "1 \<le> unat ?f" by (simp add: unat_saturating_inc)
  from backoff_secs_bounds [OF one] assms(2) have "retry_ms ?f jitter < 31000" by (simp add: retry_ms_def)
  with one assms(1) show ?thesis by (simp add: pinv_def back_off_def Let_def)
qed

lemma pinv_choice_failed:
  "length (pm_queue pm) \<le> 2 \<Longrightarrow> jitter < 1000 \<Longrightarrow> pinv N le cfg p now ex (choice_failed fmt now jitter e pm)"
  by (simp add: choice_failed_def pinv_back_off)

lemma pinv_session_start:
  "length (pm_queue pm) \<le> 2 \<Longrightarrow> sound_candidate cfg p c \<Longrightarrow> pinv N le cfg p now ex (session_start fmt now c primary pm)"
  by (simp add: session_start_def pinv_def)

lemma pinv_session_over:
  "length (pm_queue pm) \<le> 2 \<Longrightarrow> jitter < 1000 \<Longrightarrow> pinv N le cfg p now ex (session_over fmt now jitter started primary e pm)"
  by (simp add: session_over_def pinv_back_off Let_def) (simp add: pinv_def)

lemma pinv_connect:
  assumes "length (pm_queue pm) \<le> 2" and "jitter < 1000"
  shows "pinv N le cfg p now ex (connect_start fmt p now jitter pm)"
proof (cases "choose_init p now")
  case (Ok ch)
  then have "ch_tasks ch = 1" "ch_deadline ch = now + 1000 * (unat (connect_timeout_secs p) + 2)"
    by (auto simp: choose_init_def bindr_eq_Ok)
  moreover have "choice_run cfg p ch"
    unfolding choice_run_def using choosing.start [OF Ok, of cfg] by (intro exI [of _ "[]"]) simp
  ultimately show ?thesis using assms Ok by (simp add: connect_start_def Let_def pinv_def)
next
  case (Err e)
  with assms show ?thesis by (simp add: connect_start_def Let_def pinv_choice_failed)
qed (auto simp: choose_init_def bindr_eq_Panic)

lemma task_result_sound:
  assumes "peer_ok cfg p" and "task_result nametoindex late cfg p env t = (Ok c, answer)"
  shows "sound_candidate cfg p c"
proof -
  have "\<exists>incoming env'. fst (handshake cfg p incoming env') = Ok c"
    using assms(2) outgoing_Ok [of nametoindex late cfg p env c] by (cases t) (auto simp: task_result_def, metis fst_conv)
  with handshake_session [OF assms(1)] show ?thesis unfolding sound_candidate_def by blast
qed

lemma choose_deadline:
  "choose_step cfg p e ch = Waiting ch' \<Longrightarrow> ch_deadline ch' = ch_deadline ch \<or> (\<exists>r t. e = Joined r t \<and> ch_deadline ch' = t + 500)"
  by (cases "(cfg, p, e, ch)" rule: choose_step.cases) (auto simp: Let_def split: if_splits option.splits)

lemma pinv_choose_next:
  assumes "length (pm_queue pm) \<le> 2" and "jitter < 1000" and "shown pm = ''Connect''" and "choice_run cfg p ch"
    and "choose_enabled e ch" and "\<And>c t. e = Joined (Ok c) t \<Longrightarrow> sound_candidate cfg p c"
    and "\<And>ch'. choose_step cfg p e ch = Waiting ch' \<Longrightarrow> ch_tasks ch' = length tasks"
    and "ch_deadline ch \<le> now + 1000 * (unat (connect_timeout_secs p) + 2)" and "\<And>r t. e = Joined r t \<Longrightarrow> t = now"
  shows "pinv N le cfg p now ex (choose_next fmt now jitter (choose_step cfg p e ch) tasks pm)"
proof -
  from assms(4) obtain es where es: "choosing cfg p es ch" "\<And>c t. Joined (Ok c) t \<in> set es \<Longrightarrow> sound_candidate cfg p c"
    by (auto simp: choice_run_def)
  have sound: "sound_candidate cfg p c" if "Joined (Ok c) t \<in> set (es @ [e])" for c t
    using that es(2) assms(6) by auto
  show ?thesis
  proof (cases "choose_step cfg p e ch")
    case (Waiting ch')
    have "choice_run cfg p ch'"
      unfolding choice_run_def using choosing.step [OF es(1) assms(5) Waiting] sound by blast
    moreover have "ch_deadline ch' \<le> now + 1000 * (unat (connect_timeout_secs p) + 2)"
      using choose_deadline [OF Waiting] assms(8,9) by auto
    ultimately show ?thesis using Waiting assms(1,3,7) by (simp add: choose_next_def pinv_def)
  next
    case (Chosen c old)
    have "sound_candidate cfg p c"
      using chosen_spec [OF chosen.decide [OF es(1) assms(5) Chosen]] sound by blast
    with Chosen assms(1) show ?thesis by (simp add: choose_next_def pinv_session_start)
  qed (use assms(1,2) in \<open>simp add: choose_next_def pinv_choice_failed\<close>)
qed


lemma choose_tasks:
  assumes "ch_tasks ch = length tasks"
  shows "choose_step cfg p Incoming ch = Waiting ch' \<Longrightarrow> ch_tasks ch' = length (tasks @ [t])"
    and "t \<in> set tasks \<Longrightarrow> choose_step cfg p (Joined r now) ch = Waiting ch' \<Longrightarrow> ch_tasks ch' = length (remove1 t tasks)"
  using assms by (auto, cases r, auto simp: Let_def length_remove1 split: if_splits)

lemma choosing_tasks: "choosing cfg p es ch \<Longrightarrow> ch_tasks ch \<le> (if ch_started ch then 2 else 1)"
proof (induction rule: choosing.induct)
  case (start now ch)
  then show ?case by (auto simp: choose_init_def bindr_eq_Ok)
next
  case (step es ch e ch')
  from step.hyps(2,3) step.IH show ?case
    by (cases "(cfg, p, e, ch)" rule: choose_step.cases) (auto simp: Let_def split: if_splits option.splits)
qed

lemma dstep_mono: "dstep N cfg p n P d d' \<Longrightarrow> (\<And>ex. P ex \<Longrightarrow> Q ex) \<Longrightarrow> dstep N cfg p n Q d d'"
  by (induction rule: dstep.induct) (auto intro: dstep.intros)

lemma dstep_own_exports:
  assumes "dstep N cfg p n (\<lambda>_. False) d d'"
  shows "t_exports (dx_writer d') = t_exports (dx_writer d) \<and> dx_end d = None"
proof -
  have req: "t_exports (fold refresh_request fs w) = t_exports w" for fs w
    by (induction fs arbitrary: w) (simp_all add: refresh_request_def)
  from assms show ?thesis
    by cases (auto simp: deliver_def req dest: own_fields)
qed

lemma running_step:
  assumes "running N le cfg p n now ex d" and "dstep N cfg p n (\<lambda>_. False) d d'" and "t_clock (dx_writer d') = t_clock (dx_writer d)"
  shows "running N le cfg p n now ex d'"
proof -
  have "dstep N cfg p n (kernel_publishes N le cfg) d d'" by (rule dstep_mono [OF assms(2)]) simp
  with assms dstep_own_exports [OF assms(2)] show ?thesis
    unfolding running_def by (metis rtranclp.rtrancl_into_rtrancl)
qed

lemma running_init:
  "kernel_publishes N le cfg (w_value ex) \<Longrightarrow> running N le cfg p n now ex (duplex_init now p n input ex)"
  unfolding running_def by (auto simp: duplex_init_def transmit_init_def Let_def)

text \<open>The rest of the daemon moves: time passes, and at most one value is published.\<close>

definition moves :: "ipnet_ops \<Rightarrow> bool \<Rightarrow> config \<Rightarrow> exports watch \<Rightarrow> exports watch \<Rightarrow> bool" where
  "moves N le cfg ex ex' = (ex' = ex \<or> (\<exists>v. kernel_publishes N le cfg v \<and> ex' = send_replace v ex))"

lemma running_observe:
  assumes "running N le cfg p n now ex d" and "now \<le> now'" and "moves N le cfg ex ex'" and "dx_end d = None"
  shows "running N le cfg p n now' ex' (d\<lparr>dx_writer := (dx_writer d)\<lparr>t_clock := now', t_exports := ex'\<rparr>\<rparr>)"
proof -
  let ?d = "d\<lparr>dx_writer := (dx_writer d)\<lparr>t_clock := now'\<rparr>\<rparr>"
  have sync: "t_clock (dx_writer d) = now" "t_exports (dx_writer d) = ex"
    using assms(1,4) by (simp_all add: running_def)
  have tick: "dstep N cfg p n (kernel_publishes N le cfg) d ?d"
    using assms(2,4) sync by (intro dstep.ticks) simp_all
  have "(dstep N cfg p n (kernel_publishes N le cfg))\<^sup>*\<^sup>* d (d\<lparr>dx_writer := (dx_writer d)\<lparr>t_clock := now', t_exports := ex'\<rparr>\<rparr>)"
    using assms(3) unfolding moves_def
  proof (elim disjE exE conjE)
    assume "ex' = ex"
    then have "d\<lparr>dx_writer := (dx_writer d)\<lparr>t_clock := now', t_exports := ex'\<rparr>\<rparr> = ?d"
      using sync by (metis tstate.surjective tstate.update_convs(2,12))
    with tick show ?thesis by auto
  next
    fix v
    assume v: "kernel_publishes N le cfg v" "ex' = send_replace v ex"
    with dstep.published [of ?d "kernel_publishes N le cfg" v N cfg p n] assms(4) sync
    have "dstep N cfg p n (kernel_publishes N le cfg) ?d (d\<lparr>dx_writer := (dx_writer d)\<lparr>t_clock := now', t_exports := ex'\<rparr>\<rparr>)"
      by simp
    with tick show ?thesis by (meson converse_rtranclp_into_rtranclp r_into_rtranclp)
  qed
  with assms(1) show ?thesis unfolding running_def by (auto intro: rtranclp_trans)
qed

lemma pinv_observe:
  assumes "pinv N le cfg p now ex pm" and "now \<le> now'" and "moves N le cfg ex ex'"
  shows "pinv N le cfg p now' ex' (observe now' ex' pm)"
proof (cases "pm_phase pm")
  case (Running c started primary d)
  with assms(1) have run: "running N le cfg (session_peer p c) (cand_neg c) now ex d" by (simp add: pinv_def)
  show ?thesis
  proof (cases "dx_end d")
    case None
    with running_observe [OF run assms(2,3)] Running assms(1) show ?thesis by (simp add: pinv_def observe_def)
  next
    case (Some e)
    with run have "running N le cfg (session_peer p c) (cand_neg c) now' ex' d" by (simp add: running_def)
    with Some Running assms(1) show ?thesis by (simp add: pinv_def observe_def)
  qed
qed (use assms(1,2) in \<open>auto simp: pinv_def observe_def\<close>)

lemma pinv_confirm:
  assumes "pinv N le cfg p now ex pm" and "pm_phase pm = Confirming c started primary" and "jitter < 1000"
    and "kernel_publishes N le cfg (w_value ex)"
  shows "pinv N le cfg p now ex (confirm_session fmt p now ex jitter env c started primary pm)"
proof -
  have inv: "length (pm_queue pm) \<le> 2" "sound_candidate cfg p c" "pinv N le cfg p now ex (notice answer pm)" for answer
    using assms(1,2) by (simp_all add: pinv_def)
  obtain r answer where r: "session_confirm p c env = (r, answer)" by (cases "session_confirm p c env")
  show ?thesis
    using inv r running_init [OF assms(4)] pinv_session_over [OF _ assms(3)]
    by (cases r) (simp_all add: confirm_session_def Let_def, simp add: pinv_def)
qed

lemma pinv_greeted:
  assumes "peer_ok cfg p" and "pinv N le cfg p now ex pm" and "pm_phase pm = Greeting stream"
  shows "pinv N le cfg p now ex (greeted fmt cfg p now env stream pm)"
proof -
  obtain r answer where r: "handshake cfg p True (env\<lparr>oe_input := stream\<rparr>) = (r, answer)"
    by (cases "handshake cfg p True (env\<lparr>oe_input := stream\<rparr>)")
  have inv: "length (pm_queue (notice answer pm)) \<le> 2" using assms(2) by (simp add: pinv_def)
  show ?thesis
  proof (cases r)
    case (Ok c)
    with handshake_session [OF assms(1), of True "env\<lparr>oe_input := stream\<rparr>" c] r have "sound_candidate cfg p c"
      by (simp add: sound_candidate_def)
    from pinv_session_start [OF inv this] r Ok show ?thesis by (simp add: greeted_def)
  next
    case (Err e)
    with r inv show ?thesis by (simp add: greeted_def pinv_def)
  next
    case Panic
    with r assms(2,3) show ?thesis by (simp add: greeted_def pinv_def)
  qed
qed

lemma pinv_step:
  assumes "pstep N nametoindex fmt cfg p now ex pm pm'" and "pinv N le cfg p now ex pm"
    and "peer_ok cfg p" and "kernel_publishes N le cfg (w_value ex)"
  shows "pinv N le cfg p now ex pm'"
  using assms(1)
proof cases
  case (connects jitter)
  with pinv_queue [OF assms(2)] show ?thesis by (simp add: pinv_connect)
next
  case (takes ch tasks stream queue jitter)
  with assms(2) choose_tasks(1) show ?thesis
    by (simp only:, intro pinv_choose_next) (auto simp: pinv_def)
next
  case (taken_none ch tasks jitter)
  with assms(2) show ?thesis by (simp only:, intro pinv_choose_next) (auto simp: pinv_def)
next
  case (joins ch tasks t late env r answer jitter)
  with assms(2) choose_tasks(2) task_result_sound [OF assms(3)] show ?thesis
    by (simp only:, intro pinv_choose_next) (auto simp: pinv_def)
next
  case (deadline ch tasks jitter)
  with assms(2) show ?thesis
    by (simp only:, intro pinv_choose_next) (auto simp: pinv_def split: option.splits)
next
  case (confirms c started primary jitter env)
  with assms(2,4) show ?thesis by (simp add: pinv_confirm)
next
  case (runs c started primary d d')
  with assms(2) running_step [OF _ runs(3,4)] show ?thesis by (simp add: pinv_def)
next
  case (ends c started primary d e w jitter)
  with pinv_queue [OF assms(2)] show ?thesis by (simp add: session_closed_def pinv_session_over)
next
  case (rejects c started d stream queue)
  with assms(2) show ?thesis by (auto simp: pinv_def)
next
  case (greeted stream env)
  with assms(2,3) show ?thesis by (simp add: pinv_greeted)
qed (use assms(2) in \<open>auto simp: pinv_def\<close>)


text \<open>
  The states of a worker, with the clock and the exports channel: it takes its own steps, its
  listener hands it connections or ends, and the rest of the daemon moves.
\<close>

inductive preach :: "ipnet_ops \<Rightarrow> bool \<Rightarrow> (string \<Rightarrow> u32) \<Rightarrow> (conn_error \<Rightarrow> string) \<Rightarrow> config \<Rightarrow> peer \<Rightarrow>
    nat \<Rightarrow> exports watch \<Rightarrow> peer_machine \<Rightarrow> bool"
  for N :: ipnet_ops and le :: bool and nametoindex :: "string \<Rightarrow> u32" and fmt :: "conn_error \<Rightarrow> string"
    and cfg :: config and p :: peer where
  start: "kernel_publishes N le cfg (w_value ex) \<Longrightarrow> preach N le nametoindex fmt cfg p now ex (peer_init now)"
| own: "preach N le nametoindex fmt cfg p now ex pm \<Longrightarrow> pstep N nametoindex fmt cfg p now ex pm pm' \<Longrightarrow>
    preach N le nametoindex fmt cfg p now ex pm'"
| accepts: "preach N le nametoindex fmt cfg p now ex pm \<Longrightarrow> preach N le nametoindex fmt cfg p now ex (enqueue stream pm)"
| unlistens: "preach N le nametoindex fmt cfg p now ex pm \<Longrightarrow> preach N le nametoindex fmt cfg p now ex (pm\<lparr>pm_listener := False\<rparr>)"
| moves: "preach N le nametoindex fmt cfg p now ex pm \<Longrightarrow> now \<le> now' \<Longrightarrow> moves N le cfg ex ex' \<Longrightarrow>
    preach N le nametoindex fmt cfg p now' ex' (observe now' ex' pm)"

lemma moves_publishes: "moves N le cfg ex ex' \<Longrightarrow> kernel_publishes N le cfg (w_value ex) \<Longrightarrow> kernel_publishes N le cfg (w_value ex')"
  by (auto simp: moves_def send_replace_def)

lemma pinv_listener:
  assumes "pinv N le cfg p now ex pm"
  shows "pinv N le cfg p now ex (enqueue stream pm)" and "pinv N le cfg p now ex (pm\<lparr>pm_listener := False\<rparr>)"
  using pinv_queue [OF assms] by (auto intro: pinv_same [OF assms])

lemma preach_inv:
  "preach N le nametoindex fmt cfg p now ex pm \<Longrightarrow> peer_ok cfg p \<Longrightarrow>
    pinv N le cfg p now ex pm \<and> kernel_publishes N le cfg (w_value ex)"
  by (induction rule: preach.induct)
    (auto intro: pinv_init pinv_step pinv_listener pinv_observe moves_publishes)

text \<open>A session that has not ended has an open writer.\<close>

lemma dstep_open:
  assumes "(dstep N cfg p n P)\<^sup>*\<^sup>* (duplex_init start p n input ex) d" and "dx_end d = None"
  shows "t_loc (dx_writer d) \<noteq> Closed"
  using assms
proof (induction rule: rtranclp_induct)
  case base
  show ?case by (simp add: duplex_init_def transmit_init_def Let_def)
next
  case (step d1 d2)
  have req: "t_loc (fold refresh_request fs w) = t_loc w" for fs w
    by (induction fs arbitrary: w) (simp_all add: refresh_request_def)
  from step(2) have "dx_end d1 = None" by cases simp_all
  with step.IH have "t_loc (dx_writer d1) \<noteq> Closed" by simp
  with step(2,4) show ?case by cases (auto simp: deliver_def req dest: own_fields)
qed

lemma running_writer:
  assumes "running N le cfg p n now ex d"
  shows "treach N cfg p n (kernel_publishes N le cfg) (dx_writer d)" and "dx_end d = None \<Longrightarrow> t_loc (dx_writer d) \<noteq> Closed"
proof -
  from assms obtain start input ex0 where run: "kernel_publishes N le cfg (w_value ex0)"
      "(dstep N cfg p n (kernel_publishes N le cfg))\<^sup>*\<^sup>* (duplex_init start p n input ex0) d"
    by (auto simp: running_def)
  from run(2) show "treach N cfg p n (kernel_publishes N le cfg) (dx_writer d)"
  proof (induction rule: rtranclp_induct)
    case base
    show ?case unfolding duplex_init_def duplex.simps by (rule treach.start) (rule run(1))
  qed (rule dstep_writer)
  from dstep_open [OF run(2)] show "dx_end d = None \<Longrightarrow> t_loc (dx_writer d) \<noteq> Closed" by blast
qed

section \<open>Properties\<close>

text \<open>
  The status on the console is true. In every state of a worker that has not ended, the peer is
  shown as Established exactly while a session is running, as OpenConfirm exactly while a chosen
  or accepted connection waits for its KEEPALIVE, and as Connect exactly while a connection is
  being chosen; at most two incoming connections are queued, and at most two are being opened.
\<close>

theorem status_truthful:
  assumes "peer_ok cfg p" and "preach N le nametoindex fmt cfg p now ex pm" and "pm_phase pm \<noteq> LoopEnded"
  shows "(ps_state (pl_status (pm_state pm)) = ''Established'' \<longleftrightarrow> (\<exists>c started primary d. pm_phase pm = Running c started primary d)) \<and>
    (ps_state (pl_status (pm_state pm)) = ''OpenConfirm'' \<longleftrightarrow> (\<exists>c started primary. pm_phase pm = Confirming c started primary)) \<and>
    (ps_state (pl_status (pm_state pm)) = ''Connect'' \<longleftrightarrow> (\<exists>ch tasks. pm_phase pm = Choosing ch tasks)) \<and>
    length (pm_queue pm) \<le> 2 \<and> (\<forall>ch tasks. pm_phase pm = Choosing ch tasks \<longrightarrow> length tasks \<le> 2)"
proof -
  note inv = preach_inv [OF assms(2,1)]
  have "length tasks \<le> 2" if "pm_phase pm = Choosing ch tasks" for ch tasks
    using inv that choosing_tasks [of cfg p _ ch] by (fastforce simp: pinv_def choice_run_def split: if_splits)
  with inv assms(3) show ?thesis by (cases "pm_phase pm") (auto simp: pinv_def)
qed

text \<open>An incoming connection of the remote router of the example that becomes a session.\<close>

definition example_stream :: bytes where
  "example_stream = frame_bytes (1, open_body remote_config remote_peer) @ frame_bytes (KEEPALIVE, [])"

lemma example_incoming:
  "\<exists>c. handshake example_config example_peer incoming (example_env_open\<lparr>oe_input := example_stream, oe_sock := sk\<rparr>) = (Ok c, Ok None) \<and>
    cand_incoming c = incoming \<and> cand_stream c = frame_bytes (KEEPALIVE, []) \<and> prefer_incoming example_config example_peer (cand_neg c)"
proof -
  have "read_frame example_stream = Ok ((1, open_body remote_config remote_peer), frame_bytes (KEEPALIVE, []))"
    unfolding example_stream_def by (rule read_frame_bytes [OF body_ok_open])
  moreover have "\<exists>n. parse_open (open_body remote_config remote_peer) example_config example_peer = Ok n \<and>
      neg_router_id n = router_id remote_config"
    by (subst parse_open_body) (auto simp: negotiate_def Let_def remote_defs)
  moreover have "open_msg example_config example_peer = Ok (frame_bytes (1, open_body example_config example_peer))"
    using frame_bytes_Ok [OF body_ok_open] by (simp add: open_msg_def)
  moreover have "\<exists>ll. check_local_addresses example_peer (oe_ifaddrs example_env_open) = Ok ll"
    by (simp add: check_local_addresses_def example_env_open_def example_peer_def nh4_def is_some_and_def Let_def)
  ultimately show ?thesis
    by (auto simp: handshake_def open_exchange_def example_env_open_def example_peer_def configure_def send_def
        prefer_incoming_def remote_defs)
qed

lemma example_session:
  "\<exists>c pm. (pstep ipnet_ref nametoindex fmt example_config example_peer 0 ex)\<^sup>*\<^sup>* (enqueue example_stream (peer_init t)) pm \<and>
    pm_phase pm = Running c 0 True (duplex_init 0 (session_peer example_peer c) (cand_neg c) [] ex)"
proof -
  let ?step = "pstep ipnet_ref nametoindex fmt example_config example_peer 0 ex"
  let ?pm0 = "enqueue example_stream (peer_init t)"
  let ?pm1 = "connect_start fmt example_peer 0 0 ?pm0"
  let ?ch = "\<lparr>ch_tasks = 1, ch_errors = [], ch_pending = None, ch_started = False, ch_deadline = 12000\<rparr>"
  let ?ch' = "?ch\<lparr>ch_started := True, ch_tasks := 2\<rparr>"
  obtain c where c: "handshake example_config example_peer True (example_env_open\<lparr>oe_input := example_stream\<rparr>) = (Ok c, Ok None)"
      "cand_incoming c" "cand_stream c = frame_bytes (KEEPALIVE, [])" "prefer_incoming example_config example_peer (cand_neg c)"
    using example_incoming [of True "oe_sock example_env_open"] by auto
  let ?pm2 = "?pm1\<lparr>pm_queue := [], pm_phase := Choosing ?ch' [OutgoingTask, IncomingTask example_stream]\<rparr>"
  let ?pm3 = "session_start fmt 0 c True ?pm2"
  let ?pm4 = "(show_status fmt 0 (''Established'', None) ?pm3)\<lparr>pm_phase :=
    Running c 0 True (duplex_init 0 (session_peer example_peer c) (cand_neg c) [] ex)\<rparr>"
  have init: "choose_init example_peer 0 = Ok ?ch" by (simp add: choose_init_def remote_defs)
  have "pm_phase ?pm0 = AtTop" by (simp add: enqueue_def peer_init_def)
  then have s1: "?step ?pm0 ?pm1" by (rule pstep.connects) simp
  have p1: "pm_phase ?pm1 = Choosing ?ch [OutgoingTask]" "pm_queue ?pm1 = [example_stream]"
    by (simp_all add: connect_start_def init Let_def enqueue_def try_send_def peer_init_def)
  have s2: "?step ?pm1 ?pm2"
    using pstep.takes [OF p1(1) _ p1(2), of 0 ipnet_ref nametoindex fmt example_config example_peer 0 ex]
    by (simp add: choose_next_def numeral_2_eq_2)
  have s3: "?step ?pm2 ?pm3"
    using pstep.joins [of ?pm2 ?ch' "[OutgoingTask, IncomingTask example_stream]" "IncomingTask example_stream"
        nametoindex False example_config example_peer example_env_open "Ok c" "Ok None" 0 0 ipnet_ref fmt ex] c
    by (simp add: task_result_def choose_next_def notice_def)
  have "read_frame (frame_bytes (KEEPALIVE, []) @ []) = Ok ((KEEPALIVE, []), [])"
    by (rule read_frame_bytes) (simp add: body_ok_def valid_length_def KEEPALIVE_def MAX_MESSAGE_def)
  then have "session_confirm example_peer c \<lparr>ce_written = Some 0, ce_ready_ms = 0\<rparr> = (Ok [], Ok None)"
    using c(3) by (simp add: session_confirm_def send_def Let_def)
  then have s4: "?step ?pm3 ?pm4"
    using pstep.confirms [of ?pm3 c 0 True 0 ipnet_ref nametoindex fmt example_config example_peer 0 ex
        "\<lparr>ce_written = Some 0, ce_ready_ms = 0\<rparr>"]
    by (simp add: confirm_session_def notice_def session_start_def)
  from s1 s2 s3 s4 have "?step\<^sup>*\<^sup>* ?pm0 ?pm4" by (meson converse_rtranclp_into_rtranclp rtranclp.rtrancl_refl)
  then show ?thesis by (intro exI [of _ c] exI [of _ ?pm4]) simp
qed

lemma preach_steps:
  "(pstep N nametoindex fmt cfg p now ex)\<^sup>*\<^sup>* pm pm' \<Longrightarrow> preach N le nametoindex fmt cfg p now ex pm \<Longrightarrow>
    preach N le nametoindex fmt cfg p now ex pm'"
  by (induction rule: rtranclp_induct) (auto intro: preach.own)

theorem status_truthful_witness:
  "\<exists>pm. preach ipnet_ref True (\<lambda>_. 2) (\<lambda>_. ''error'') example_config example_peer 0 \<lparr>w_value = [], w_version = 0\<rparr> pm \<and>
    ps_state (pl_status (pm_state pm)) = ''Established''"
proof -
  let ?ex = "\<lparr>w_value = [], w_version = 0\<rparr> :: exports watch"
  have "kernel_publishes ipnet_ref True example_config (w_value ?ex)"
    using kreach_init [of ipnet_ref True example_config 0 0] by (auto simp: kernel_publishes_def run_init_def)
  then have "preach ipnet_ref True (\<lambda>_. 2) (\<lambda>_. ''error'') example_config example_peer 0 ?ex (enqueue example_stream (peer_init 0))"
    by (intro preach.accepts preach.start)
  with example_session [of "\<lambda>_. 2" "\<lambda>_. ''error''" ?ex 0] obtain c pm where
    pm: "preach ipnet_ref True (\<lambda>_. 2) (\<lambda>_. ''error'') example_config example_peer 0 ?ex pm"
      "pm_phase pm = Running c 0 True (duplex_init 0 (session_peer example_peer c) (cand_neg c) [] ?ex)"
    using preach_steps by blast
  with status_truthful [OF example_peer_ok pm(1)] show ?thesis by auto
qed

end
