(* ===== verification/System.thy ===== *)
theory System
  imports Peer_Loop
begin

text \<open>
  One generation of the daemon as one machine: the kernel side of \<open>src/netlink.rs\<close>, the workers of
  all configured peers and their listeners of \<open>src/bgp.rs\<close>, and what the console of
  \<open>src/management.rs\<close> shows of them. The kernel side and the workers share the watch channel of
  exports and the clock; the listeners hand connections to the workers.
\<close>

section \<open>Definitions\<close>

record system =
  sy_kernel :: kstate
  sy_peers :: "peer_machine list"

text \<open>The start of a generation: a channel with nothing to export, and every peer Idle.\<close>

definition system_init :: "nat \<Rightarrow> nat \<Rightarrow> config \<Rightarrow> system" where
  "system_init now version cfg = \<lparr>sy_kernel = run_init now \<lparr>w_value = [], w_version = version\<rparr>,
     sy_peers = map (\<lambda>_. peer_init now) (peers cfg)\<rparr>"

definition deliver_stream :: "config \<Rightarrow> listener_key \<Rightarrow> ip_addr \<Rightarrow> bytes \<Rightarrow> peer_machine list \<Rightarrow> peer_machine list" where
  "deliver_stream cfg key remote stream pms = (case dispatch cfg key remote of
     Some i \<Rightarrow> pms[i := enqueue stream (pms ! i)]
   | None \<Rightarrow> pms)"

text \<open>A listener that ends drops the senders of its peers.\<close>

definition close_listener :: "config \<Rightarrow> listener_key \<Rightarrow> peer_machine list \<Rightarrow> peer_machine list" where
  "close_listener cfg key pms =
     map (\<lambda>(p, pm). if (local_address p, interface p) = key then pm\<lparr>pm_listener := False\<rparr> else pm) (zip (peers cfg) pms)"

inductive system_step :: "ipnet_ops \<Rightarrow> bool \<Rightarrow> (string \<Rightarrow> u32) \<Rightarrow> (conn_error \<Rightarrow> string) \<Rightarrow> config \<Rightarrow> system \<Rightarrow> system \<Rightarrow> bool"
  for N :: ipnet_ops and le :: bool and nametoindex :: "string \<Rightarrow> u32" and fmt :: "conn_error \<Rightarrow> string" and cfg :: config where
  kernel: "kstep N le cfg l (sy_kernel s) k \<Longrightarrow>
    system_step N le nametoindex fmt cfg s \<lparr>sy_kernel = k, sy_peers = map (observe (k_clock k) (k_tx k)) (sy_peers s)\<rparr>"
| worker: "i < length (peers cfg) \<Longrightarrow>
    pstep N nametoindex fmt cfg (peers cfg ! i) (k_clock (sy_kernel s)) (k_tx (sy_kernel s)) (sy_peers s ! i) pm \<Longrightarrow>
    system_step N le nametoindex fmt cfg s (s\<lparr>sy_peers := (sy_peers s)[i := pm]\<rparr>)"
| accepts: "system_step N le nametoindex fmt cfg s (s\<lparr>sy_peers := deliver_stream cfg key remote stream (sy_peers s)\<rparr>)"
| unlistens: "system_step N le nametoindex fmt cfg s (s\<lparr>sy_peers := close_listener cfg key (sy_peers s)\<rparr>)"

definition system_reach :: "ipnet_ops \<Rightarrow> bool \<Rightarrow> (string \<Rightarrow> u32) \<Rightarrow> (conn_error \<Rightarrow> string) \<Rightarrow> config \<Rightarrow> system \<Rightarrow> bool" where
  "system_reach N le nametoindex fmt cfg s = (\<exists>now version. (system_step N le nametoindex fmt cfg)\<^sup>*\<^sup>* (system_init now version cfg) s)"

text \<open>What the console reads: the statuses the workers share with it, the exports channel and the clock.\<close>

definition view :: "system \<Rightarrow> console_view" where
  "view s = \<lparr>cv_statuses = map (\<lambda>pm. pl_status (pm_state pm)) (sy_peers s),
     cv_exports = w_value (k_tx (sy_kernel s)), cv_now = k_clock (sy_kernel s)\<rparr>"

section \<open>The invariant\<close>

definition system_inv :: "ipnet_ops \<Rightarrow> bool \<Rightarrow> config \<Rightarrow> system \<Rightarrow> bool" where
  "system_inv N le cfg s =
    (kreach N le cfg (sy_kernel s) \<and> length (sy_peers s) = length (peers cfg) \<and>
     (\<forall>i < length (peers cfg). pinv N le cfg (peers cfg ! i) (k_clock (sy_kernel s)) (k_tx (sy_kernel s)) (sy_peers s ! i)))"

lemma kernel_publishes_tx: "kreach N le cfg k \<Longrightarrow> kernel_publishes N le cfg (w_value (k_tx k))"
  by (auto simp: kernel_publishes_def)

text \<open>A step of the kernel side, seen from a session: time passes, and at most one value is published.\<close>

lemma kstep_moves:
  assumes "kreach N le cfg k" and "kstep N le cfg l k k'"
  shows "k_clock k \<le> k_clock k' \<and> moves N le cfg (k_tx k) (k_tx k')"
proof -
  have "k_tx k' = k_tx k \<or> (\<exists>v. k_tx k' = send_replace v (k_tx k))" "k_clock k \<le> k_clock k'"
    using assms(2)
    by (cases, auto simp: watchdog_tick_def expire_def run_top_def run_failed_def run_filtered_def publish_def Let_def)+
  with kernel_publishes_tx [OF kreach_step [OF assms]] show ?thesis by (auto simp: moves_def send_replace_def)
qed

lemma system_inv_init: "system_inv N le cfg (system_init now version cfg)"
  by (simp add: system_inv_def system_init_def kreach_init pinv_init)

lemma system_inv_step:
  assumes "config_ok N cfg" and "system_step N le nametoindex fmt cfg s s'" and "system_inv N le cfg s"
  shows "system_inv N le cfg s'"
  using assms(2)
proof cases
  case (kernel l k)
  with assms(3) kstep_moves [of N le cfg "sy_kernel s" l k] kreach_step show ?thesis
    by (auto simp: system_inv_def intro: pinv_observe)
next
  case (worker i pm)
  have "peer_ok cfg (peers cfg ! i)" using config_ok_peer [OF assms(1)] worker(2) by simp
  with pinv_step [OF worker(3) _ this, of le] assms(3) worker kernel_publishes_tx show ?thesis
    by (auto simp: system_inv_def nth_list_update)
next
  case (accepts key remote stream)
  with assms(3) pinv_listener(1) show ?thesis
    by (auto simp: system_inv_def deliver_stream_def split: option.split) (metis nth_list_update_eq nth_list_update_neq)
next
  case (unlistens key)
  with assms(3) pinv_listener(2) show ?thesis by (auto simp: system_inv_def close_listener_def)
qed

lemma system_reach_inv: "config_ok N cfg \<Longrightarrow> system_reach N le nametoindex fmt cfg s \<Longrightarrow> system_inv N le cfg s"
  unfolding system_reach_def
  by (elim exE, erule rtranclp_induct) (auto intro: system_inv_init system_inv_step)


text \<open>What is known of a session that runs in a reachable state of the daemon.\<close>

lemma system_session:
  assumes "config_ok N cfg" and "system_reach N le nametoindex fmt cfg s" and "i < length (peers cfg)"
    and "pm_phase (sy_peers s ! i) = Running c started primary d"
  shows "kreach N le cfg (sy_kernel s)" and "sound_candidate cfg (peers cfg ! i) c"
    and "running N le cfg (session_peer (peers cfg ! i) c) (cand_neg c) (k_clock (sy_kernel s)) (k_tx (sy_kernel s)) d"
  using system_reach_inv [OF assms(1,2)] assms(3,4) by (auto simp: system_inv_def pinv_def)

text \<open>The routes of a complete snapshot that a session may announce.\<close>

definition exportable :: "ipnet_ops \<Rightarrow> config \<Rightarrow> peer \<Rightarrow> negotiated \<Rightarrow> prefixes \<Rightarrow> ip_net set" where
  "exportable N cfg p n ps = {q \<in> set ps. permits N (the (map_of (acls cfg) (export_acl p))) q \<and> neg_enabled n q}"

lemma desired_exportable:
  assumes "kreach N le cfg k" and "p \<in> set (peers cfg)"
  shows "w_value (k_tx k) = [] \<and> desired (export_acl p) (w_value (k_tx k)) = [] \<or>
    (\<exists>ps. complete_snapshot N le cfg ps \<and>
      {q \<in> set (desired (export_acl p) (w_value (k_tx k))). neg_enabled n q} = exportable N cfg p n ps)"
proof (cases "w_value (k_tx k) = []")
  case False
  with kreach_inv [OF assms(1)] obtain ps where ps: "complete_snapshot N le cfg ps" "filter_exports N cfg ps = Ok (w_value (k_tx k))"
    by (auto simp: kinv_def exported_from_def)
  with filter_exports_lookup [OF ps(2)] assms(2) show ?thesis
    by (intro disjI2 exI [of _ ps]) (auto simp: desired_def exportable_def)
qed (simp add: desired_def)

text \<open>The writer's own steps are steps of the daemon that move one worker only.\<close>

lemma writes_steps:
  assumes "transmit_run N cfg (session_peer (peers cfg ! i) c) (cand_neg c) k w = Ok w'" and "i < length (peers cfg)"
    and "length (sy_peers s) = length (peers cfg)" and "pm_phase (sy_peers s ! i) = Running c started primary d"
    and "dx_end d = None" and "dx_writer d = w"
  shows "\<exists>s'. (system_step N le nametoindex fmt cfg)\<^sup>*\<^sup>* s s' \<and> sy_kernel s' = sy_kernel s \<and>
    (\<forall>j. j \<noteq> i \<longrightarrow> sy_peers s' ! j = sy_peers s ! j) \<and>
    pm_phase (sy_peers s' ! i) = Running c started primary (d\<lparr>dx_writer := w'\<rparr>)"
  using assms
proof (induction k arbitrary: w s d)
  case 0
  then have "d\<lparr>dx_writer := w'\<rparr> = d" by simp
  with 0 show ?case by (intro exI [of _ s]) simp
next
  case (Suc k)
  let ?p = "session_peer (peers cfg ! i) c" and ?n = "cand_neg c"
  show ?case
  proof (cases "transmit_own N cfg ?p ?n w")
    case None
    with Suc.prems have "d\<lparr>dx_writer := w'\<rparr> = d" by simp
    with Suc.prems show ?thesis by (intro exI [of _ s]) simp
  next
    case (Some r)
    with Suc.prems(1) obtain w1 where own: "transmit_own N cfg ?p ?n w = Some (Ok w1)" "transmit_run N cfg ?p ?n k w1 = Ok w'"
      by (cases r) auto
    let ?d = "d\<lparr>dx_writer := w1\<rparr>"
    let ?pm = "(sy_peers s ! i)\<lparr>pm_phase := Running c started primary ?d\<rparr>"
    let ?s = "s\<lparr>sy_peers := (sy_peers s)[i := ?pm]\<rparr>"
    have "dstep N cfg ?p ?n (\<lambda>_. False) d ?d" using own Suc.prems(5,6) by (intro dstep.writes) simp_all
    moreover have "t_clock w1 = t_clock w" using own_pending [OF own(1)] by blast
    ultimately have "pstep N nametoindex fmt cfg (peers cfg ! i) (k_clock (sy_kernel s)) (k_tx (sy_kernel s)) (sy_peers s ! i) ?pm"
      using Suc.prems(4,6) by (intro pstep.runs) auto
    then have step: "system_step N le nametoindex fmt cfg s ?s" by (rule system_step.worker [OF Suc.prems(2)])
    have "pm_phase (sy_peers ?s ! i) = Running c started primary ?d" using Suc.prems(2,3) by simp
    from Suc.IH [OF own(2) Suc.prems(2) _ this] Suc.prems(3,5) obtain s' where
      "(system_step N le nametoindex fmt cfg)\<^sup>*\<^sup>* ?s s'" "sy_kernel s' = sy_kernel s"
      "\<forall>j. j \<noteq> i \<longrightarrow> sy_peers s' ! j = sy_peers s ! j" "pm_phase (sy_peers s' ! i) = Running c started primary (d\<lparr>dx_writer := w'\<rparr>)"
      by auto
    with step show ?thesis by (meson converse_rtranclp_into_rtranclp)
  qed
qed


lemma writer_settles:
  assumes "ipnet N" and "config_ok N cfg" and "system_reach N le nametoindex fmt cfg s" and "i < length (peers cfg)"
    and "pm_phase (sy_peers s ! i) = Running c started primary d" and "dx_end d = None"
  shows "\<exists>s' d'. (system_step N le nametoindex fmt cfg)\<^sup>*\<^sup>* s s' \<and> sy_kernel s' = sy_kernel s \<and>
    (\<forall>j. j \<noteq> i \<longrightarrow> sy_peers s' ! j = sy_peers s ! j) \<and>
    pm_phase (sy_peers s' ! i) = Running c started primary d' \<and> dx_end d' = None \<and> t_loc (dx_writer d') = AtWait \<and>
    t_seen (dx_writer d') = w_version (k_tx (sy_kernel s)) \<and>
    peer_rib (t_log (dx_writer d')) =
      {q \<in> set (desired (export_acl (peers cfg ! i)) (w_value (k_tx (sy_kernel s)))). neg_enabled (cand_neg c) q}"
proof -
  let ?p = "session_peer (peers cfg ! i) c" and ?n = "cand_neg c"
  note run = system_session [OF assms(2-5)]
  have ok: "peer_ok cfg ?p" "neg_wf cfg ?p ?n" using run(2) by (simp_all add: sound_candidate_def)
  have ex: "t_exports (dx_writer d) = k_tx (sy_kernel s)" using run(3) assms(6) by (simp add: running_def)
  obtain k w where w: "transmit_run N cfg ?p ?n k (dx_writer d) = Ok w" "transmit_own N cfg ?p ?n w = None" "t_loc w \<noteq> Closed"
      "t_exports w = k_tx (sy_kernel s)" "tinv N cfg ?p ?n w"
    using run_converges [OF assms(1) ok running_writer(1) [OF run(3)] running_writer(2) [OF run(3) assms(6)]] ex by metis
  have "length (sy_peers s) = length (peers cfg)" using system_reach_inv [OF assms(2,3)] by (simp add: system_inv_def)
  from writes_steps [OF w(1) assms(4) this assms(5,6)] obtain s' where s': "(system_step N le nametoindex fmt cfg)\<^sup>*\<^sup>* s s'"
      "sy_kernel s' = sy_kernel s" "\<forall>j. j \<noteq> i \<longrightarrow> sy_peers s' ! j = sy_peers s ! j"
      "pm_phase (sy_peers s' ! i) = Running c started primary (d\<lparr>dx_writer := w\<rparr>)"
    by blast
  have "t_seen w = w_version (k_tx (sy_kernel s))"
    using w(2-4) by (auto simp: transmit_own_def transmit_wait_def split: location.splits if_splits)
  moreover have "t_loc w = AtWait" "peer_rib (t_log w) = {q \<in> set (desired (export_acl (peers cfg ! i)) (w_value (k_tx (sy_kernel s)))). neg_enabled ?n q}"
    using own_idle [OF w(2,3,5)] w(4) by (auto simp: wanted_def)
  ultimately show ?thesis using s' assms(6) by (intro exI [of _ s'] exI [of _ "d\<lparr>dx_writer := w\<rparr>"]) simp
qed

section \<open>An example run\<close>

lemma system_reach_steps:
  "system_reach N le nametoindex fmt cfg s \<Longrightarrow> (system_step N le nametoindex fmt cfg)\<^sup>*\<^sup>* s s' \<Longrightarrow> system_reach N le nametoindex fmt cfg s'"
  unfolding system_reach_def by (meson rtranclp_trans)

text \<open>The kernel side on its own, and one worker on its own, as runs of the daemon.\<close>

lemma kernel_alone:
  assumes "kreach N le cfg k"
  shows "\<exists>now. system_reach N le nametoindex fmt cfg \<lparr>sy_kernel = k, sy_peers = map (\<lambda>_. peer_init now) (peers cfg)\<rparr>"
proof -
  from assms obtain now version ls where "kexec N le cfg (run_init now \<lparr>w_value = [], w_version = version\<rparr>) ls k"
    by (auto simp: kreach_def)
  then have "system_reach N le nametoindex fmt cfg \<lparr>sy_kernel = k, sy_peers = map (\<lambda>_. peer_init now) (peers cfg)\<rparr>"
  proof (induction "run_init now \<lparr>w_value = [], w_version = version\<rparr>" ls k rule: kexec.induct)
    case none
    show ?case unfolding system_reach_def system_init_def by blast
  next
    case (step ls k l k')
    let ?s = "\<lparr>sy_kernel = k, sy_peers = map (\<lambda>_. peer_init now) (peers cfg)\<rparr>"
    have "observe (k_clock k') (k_tx k') (peer_init now) = peer_init now" by (simp add: observe_def peer_init_def)
    with system_step.kernel [of N le cfg l ?s k' nametoindex fmt] step(3)
    have "system_step N le nametoindex fmt cfg ?s \<lparr>sy_kernel = k', sy_peers = map (\<lambda>_. peer_init now) (peers cfg)\<rparr>"
      by (simp add: comp_def)
    with step(2) show ?case by (blast intro: system_reach_steps)
  qed
  then show ?thesis by blast
qed

lemma worker_alone:
  assumes "(pstep N nametoindex fmt cfg (peers cfg ! i) (k_clock (sy_kernel s)) (k_tx (sy_kernel s)))\<^sup>*\<^sup>* (sy_peers s ! i) pm"
    and "i < length (peers cfg)" and "length (sy_peers s) = length (peers cfg)"
  shows "(system_step N le nametoindex fmt cfg)\<^sup>*\<^sup>* s (s\<lparr>sy_peers := (sy_peers s)[i := pm]\<rparr>)"
  using assms(1)
proof (induction rule: rtranclp_induct)
  case (step pm1 pm2)
  have "system_step N le nametoindex fmt cfg (s\<lparr>sy_peers := (sy_peers s)[i := pm1]\<rparr>) (s\<lparr>sy_peers := (sy_peers s)[i := pm2]\<rparr>)"
    using system_step.worker [of i cfg N nametoindex fmt "s\<lparr>sy_peers := (sy_peers s)[i := pm1]\<rparr>" pm2 le] step(2) assms(2,3) by simp
  with step.IH show ?case by (rule rtranclp.rtrancl_into_rtrancl)
qed simp

lemma example_system:
  "\<exists>s c. system_reach ipnet_ref True (\<lambda>_. 2) (\<lambda>_. ''error'') example_config s \<and> sy_kernel s = published_example \<and>
    pm_phase (sy_peers s ! 0) = Running c 0 True (duplex_init 0 (session_peer example_peer c) (cand_neg c) [] (k_tx published_example))"
proof -
  let ?reach = "system_reach ipnet_ref True (\<lambda>_. 2) (\<lambda>_. ''error'') example_config"
  obtain now where "?reach \<lparr>sy_kernel = published_example, sy_peers = map (\<lambda>_. peer_init now) (peers example_config)\<rparr>"
    using kernel_alone [OF published_example_reach] by blast
  moreover have peers: "peers example_config = [example_peer]" by (simp add: example_config_def)
  ultimately have r0: "?reach \<lparr>sy_kernel = published_example, sy_peers = [peer_init now]\<rparr>" by simp
  have "dispatch example_config (local_address example_peer, interface example_peer) (address example_peer) = Some 0"
    by (simp add: dispatch_def listeners_def peers add_listener_def Let_def)
  then have "system_step ipnet_ref True (\<lambda>_. 2) (\<lambda>_. ''error'') example_config \<lparr>sy_kernel = published_example, sy_peers = [peer_init now]\<rparr>
      \<lparr>sy_kernel = published_example, sy_peers = [enqueue example_stream (peer_init now)]\<rparr>"
    using system_step.accepts [of ipnet_ref True "\<lambda>_. 2" "\<lambda>_. ''error''" example_config
        "\<lparr>sy_kernel = published_example, sy_peers = [peer_init now]\<rparr>" "(local_address example_peer, interface example_peer)"
        "address example_peer" example_stream]
    by (simp add: deliver_stream_def)
  with r0 have r1: "?reach \<lparr>sy_kernel = published_example, sy_peers = [enqueue example_stream (peer_init now)]\<rparr>"
    by (blast intro: system_reach_steps)
  have clock: "k_clock published_example = 0"
    by (simp add: published_example_def run_filtered_def run_init_def publish_def Let_def events_default_def)
  from example_session [of "\<lambda>_. 2" "\<lambda>_. ''error''" "k_tx published_example" now] obtain c pm where pm:
      "(pstep ipnet_ref (\<lambda>_. 2) (\<lambda>_. ''error'') example_config example_peer 0 (k_tx published_example))\<^sup>*\<^sup>* (enqueue example_stream (peer_init now)) pm"
      "pm_phase pm = Running c 0 True (duplex_init 0 (session_peer example_peer c) (cand_neg c) [] (k_tx published_example))"
    by blast
  from worker_alone [of ipnet_ref "\<lambda>_. 2" "\<lambda>_. ''error''" example_config 0
      "\<lparr>sy_kernel = published_example, sy_peers = [enqueue example_stream (peer_init now)]\<rparr>" pm True] pm(1)
  have "?reach \<lparr>sy_kernel = published_example, sy_peers = [pm]\<rparr>"
    using r1 by (auto simp: peers clock intro: system_reach_steps)
  with pm(2) show ?thesis by (intro exI [of _ "\<lparr>sy_kernel = published_example, sy_peers = [pm]\<rparr>"] exI [of _ c]) simp
qed

section \<open>Properties\<close>



text \<open>
  C2: The whole daemon catches up, and stale routes leave every peer. From every state of the daemon
  and for every session that runs in it, the daemon can go on by steps of that session's writer
  alone, without an error, until the writer is idle, and then the peer holds exactly the current
  exports of its ACL in the negotiated families; in particular, once the watchdog has withdrawn the
  exports, every peer whose session is open ends up holding no route.
\<close>

theorem daemon_catches_up:
  assumes "ipnet N" and "config_ok N cfg" and "system_reach N le nametoindex fmt cfg s" and "i < length (peers cfg)"
    and "pm_phase (sy_peers s ! i) = Running c started primary d" and "dx_end d = None"
  shows "\<exists>s' d'. (system_step N le nametoindex fmt cfg)\<^sup>*\<^sup>* s s' \<and> sy_kernel s' = sy_kernel s \<and>
    (\<forall>j. j \<noteq> i \<longrightarrow> sy_peers s' ! j = sy_peers s ! j) \<and>
    pm_phase (sy_peers s' ! i) = Running c started primary d' \<and> dx_end d' = None \<and> t_loc (dx_writer d') = AtWait \<and>
    peer_rib (t_log (dx_writer d')) =
      {q \<in> set (desired (export_acl (peers cfg ! i)) (w_value (k_tx (sy_kernel s)))). neg_enabled (cand_neg c) q} \<and>
    (withdrawn (k_fresh (sy_kernel s)) \<longrightarrow> peer_rib (t_log (dx_writer d')) = {})"
proof -
  have "w_value (k_tx (sy_kernel s)) = []" if "withdrawn (k_fresh (sy_kernel s))"
    using kreach_inv [OF system_session(1) [OF assms(2-5)]] that by (simp add: kinv_def)
  with writer_settles [OF assms] show ?thesis by (fastforce simp: desired_def)
qed


theorem daemon_catches_up_witness:
  "\<exists>s c d. system_reach ipnet_ref True (\<lambda>_. 2) (\<lambda>_. ''error'') example_config s \<and>
    pm_phase (sy_peers s ! 0) = Running c 0 True d \<and> t_loc (dx_writer d) = AtWait"
proof -
  obtain s c where s: "system_reach ipnet_ref True (\<lambda>_. 2) (\<lambda>_. ''error'') example_config s"
      "pm_phase (sy_peers s ! 0) = Running c 0 True (duplex_init 0 (session_peer example_peer c) (cand_neg c) [] (k_tx published_example))"
    using example_system by blast
  have "dx_end (duplex_init 0 (session_peer example_peer c) (cand_neg c) [] (k_tx published_example)) = None"
    by (simp add: duplex_init_def)
  moreover have "0 < length (peers example_config)" by (simp add: example_config_def)
  ultimately show ?thesis
    using daemon_catches_up [OF ref.ipnet_axioms example_config_ok s(1) _ s(2)] s(1) by (blast intro: system_reach_steps)
qed



end
