(* ===== verification/Program.thy ===== *)
theory Program
  imports Supervisor System
begin

text \<open>
  The whole program as one machine: the supervisor of \<open>src/main.rs\<close> and the generation of the daemon it
  runs, across reloads. A generation starts with a channel of its own and with every peer Idle; at
  its end its sessions are closed with it.
\<close>

section \<open>Definitions\<close>

record program =
  pr_supervisor :: supervisor
  pr_daemon :: "system option"

text \<open>The workers the head of the outer loop starts, when the console could be bound.\<close>

definition generation :: "nat \<Rightarrow> nat \<Rightarrow> supervisor \<Rightarrow> system option" where
  "generation now version sv = (if su_result sv = None then Some (system_init now version (su_config sv)) else None)"

definition program_init :: "nat \<Rightarrow> nat \<Rightarrow> supervisor \<Rightarrow> program" where
  "program_init now version sv = \<lparr>pr_supervisor = sv, pr_daemon = generation now version sv\<rparr>"

text \<open>
  A step of the workers, a rejected reload, which the workers do not notice, and the arms that end
  the inner loop: they end the generation, and an accepted reload starts the next.
\<close>

inductive program_step :: "ipnet_ops \<Rightarrow> bool \<Rightarrow> (string \<Rightarrow> u32) \<Rightarrow> (conn_error \<Rightarrow> string) \<Rightarrow> (string \<Rightarrow> nat option + config) \<Rightarrow> string \<Rightarrow>
    program \<Rightarrow> program \<Rightarrow> bool"
  for N :: ipnet_ops and le :: bool and nametoindex :: "string \<Rightarrow> u32" and fmt :: "conn_error \<Rightarrow> string"
    and toml :: "string \<Rightarrow> nat option + config" and path :: string where
  works: "pr_daemon g = Some s \<Longrightarrow> su_result (pr_supervisor g) = None \<Longrightarrow>
    system_step N le nametoindex fmt (su_config (pr_supervisor g)) s s' \<Longrightarrow>
    program_step N le nametoindex fmt toml path g
      \<lparr>pr_supervisor = (pr_supervisor g)\<lparr>su_exports := w_value (k_tx (sy_kernel s'))\<rparr>, pr_daemon = Some s'\<rparr>"
| rejected: "sstep N toml path ReloadRejected (pr_supervisor g) sv \<Longrightarrow>
    program_step N le nametoindex fmt toml path g (g\<lparr>pr_supervisor := sv\<rparr>)"
| renews: "sstep N toml path l (pr_supervisor g) sv \<Longrightarrow> l \<in> {WorkerEnds, Reload, Terminate} \<Longrightarrow>
    (\<And>s. pr_daemon g = Some s \<Longrightarrow> k_clock (sy_kernel s) \<le> now) \<Longrightarrow>
    program_step N le nametoindex fmt toml path g (program_init now version sv)"

text \<open>The states of a program that was started with some arguments.\<close>

definition program_reach :: "ipnet_ops \<Rightarrow> bool \<Rightarrow> (string \<Rightarrow> u32) \<Rightarrow> (conn_error \<Rightarrow> string) \<Rightarrow> (string \<Rightarrow> string option) \<Rightarrow>
    (string \<Rightarrow> nat option + config) \<Rightarrow> (string \<Rightarrow> string option) \<Rightarrow> string list \<Rightarrow> program \<Rightarrow> bool" where
  "program_reach N le nametoindex fmt read toml absolute args g = (\<exists>path daemon debug cfg tcp now version.
     main_start N read toml absolute args = Ok (StartDaemon path daemon debug cfg) \<and>
     (program_step N le nametoindex fmt toml path)\<^sup>*\<^sup>* (program_init now version (spawn tcp cfg)) g)"

inductive_cases program_stepE: "program_step N le nametoindex fmt toml path g g'"

section \<open>The invariant, and the supervisor as a specification\<close>

text \<open>The generation runs the supervisor's configuration, and the supervisor's exports are those of its channel.\<close>

definition program_inv :: "ipnet_ops \<Rightarrow> bool \<Rightarrow> (string \<Rightarrow> u32) \<Rightarrow> (conn_error \<Rightarrow> string) \<Rightarrow> program \<Rightarrow> bool" where
  "program_inv N le nametoindex fmt g = (sinv N (pr_supervisor g) \<and> (case pr_daemon g of
     None \<Rightarrow> su_result (pr_supervisor g) \<noteq> None
   | Some s \<Rightarrow> su_result (pr_supervisor g) = None \<and> system_reach N le nametoindex fmt (su_config (pr_supervisor g)) s \<and>
       su_exports (pr_supervisor g) = w_value (k_tx (sy_kernel s))))"

lemma spawn_fields: "su_config (spawn tcp cfg) = cfg" "su_exports (spawn tcp cfg) = []"
  by (simp_all add: spawn_def split: outcome.split)

lemma spawn_runs: "su_result (spawn (\<lambda>_. True) cfg) = None"
  by (simp add: spawn_def bind_def)

lemma program_inv_init:
  assumes "sinv N sv" and "su_result sv = None \<Longrightarrow> su_exports sv = []"
  shows "program_inv N le nametoindex fmt (program_init now version sv)"
proof -
  have "system_reach N le nametoindex fmt cfg (system_init now version cfg)" for cfg
    unfolding system_reach_def by blast
  with assms show ?thesis by (simp add: program_inv_def program_init_def generation_def system_init_def run_init_def)
qed

lemma renewed:
  assumes "sstep N toml path l sv sv'" and "l \<in> {WorkerEnds, Reload, Terminate}" and "su_result sv' = None"
  shows "l = Reload \<and> (\<exists>read tcp. load N read toml path = Ok (su_config sv') \<and> sv' = spawn tcp (su_config sv'))"
  using assms
  by (cases rule: sstep.cases) (auto simp: worker_exit_def finish_def Let_def spawn_fields split: option.splits if_splits)

lemma program_inv_step:
  assumes "program_inv N le nametoindex fmt g" and "program_step N le nametoindex fmt toml path g g'"
  shows "program_inv N le nametoindex fmt g'"
  using assms(2)
proof cases
  case (works s s')
  have "sinv N ((pr_supervisor g)\<lparr>su_exports := w_value (k_tx (sy_kernel s'))\<rparr>)"
    using sinv_step [OF sstep.exports [OF works(3)]] assms(1) by (simp add: program_inv_def)
  with works assms(1) system_reach_steps [of N le nametoindex fmt "su_config (pr_supervisor g)" s s'] show ?thesis
    by (auto simp: program_inv_def)
next
  case (rejected sv)
  from rejected(2) have "sv = pr_supervisor g" by cases
  with rejected(1) assms(1) show ?thesis by simp
next
  case (renews l sv now version)
  have "sinv N sv" using sinv_step [OF renews(2)] assms(1) by (simp add: program_inv_def)
  moreover have "su_exports sv = []" if "su_result sv = None"
    using renewed [OF renews(2,3) that] by (metis spawn_fields(2))
  ultimately show ?thesis unfolding renews(1) by (rule program_inv_init)
qed

lemma program_simulates:
  assumes "program_step N le nametoindex fmt toml path g g'"
  shows "\<exists>l. sstep N toml path l (pr_supervisor g) (pr_supervisor g')"
  using assms by cases (auto simp: program_init_def intro: sstep.exports)

interpretation supervised: simulation "program_step N le nametoindex fmt toml path" "program_inv N le nametoindex fmt" pr_supervisor
  "\<lambda>s s'. \<exists>l. sstep N toml path l s s'" for N le nametoindex fmt toml path
  by unfold_locales (auto intro: program_inv_step program_simulates)

lemma sreach_steps:
  assumes "(\<lambda>s s'. \<exists>l. sstep N toml path l s s')\<^sup>*\<^sup>* s s'" and "sreach N read toml absolute args ls s"
    and "main_start N read toml absolute args = Ok (StartDaemon path daemon debug cfg)"
  shows "\<exists>ls'. sreach N read toml absolute args ls' s'"
  using assms by (induction rule: rtranclp_induct) (auto intro: sreach.step)

lemma program_reach_inv:
  assumes "program_reach N le nametoindex fmt read toml absolute args g"
  shows "program_inv N le nametoindex fmt g \<and> (\<exists>ls. sreach N read toml absolute args ls (pr_supervisor g))"
proof -
  obtain path daemon debug cfg tcp now version where start: "main_start N read toml absolute args = Ok (StartDaemon path daemon debug cfg)"
      and run: "(program_step N le nametoindex fmt toml path)\<^sup>*\<^sup>* (program_init now version (spawn tcp cfg)) g"
    using assms by (auto simp: program_reach_def)
  have "program_inv N le nametoindex fmt (program_init now version (spawn tcp cfg))"
    by (rule program_inv_init [OF sinv_spawn [OF main_start_config [OF start]]]) (simp add: spawn_fields)
  from supervised.refines [OF run this] sreach_steps [OF _ sreach.start [OF start, of tcp] start] show ?thesis
    by (auto simp: program_init_def)
qed

text \<open>A run of one generation is a run of the program.\<close>

lemma works_steps:
  assumes "(system_step N le nametoindex fmt cfg)\<^sup>*\<^sup>* s s'" and "pr_daemon g = Some s" and "su_result (pr_supervisor g) = None"
    and "su_config (pr_supervisor g) = cfg"
  shows "\<exists>g'. (program_step N le nametoindex fmt toml path)\<^sup>*\<^sup>* g g' \<and> pr_daemon g' = Some s' \<and>
    su_result (pr_supervisor g') = None \<and> su_config (pr_supervisor g') = cfg"
  using assms
proof (induction rule: rtranclp_induct)
  case (step s1 s2)
  then obtain g' where g': "(program_step N le nametoindex fmt toml path)\<^sup>*\<^sup>* g g'" "pr_daemon g' = Some s1"
      "su_result (pr_supervisor g') = None" "su_config (pr_supervisor g') = cfg"
    by blast
  from program_step.works [OF g'(2,3), of N le nametoindex fmt s2] step.hyps(2) g' show ?case
    by (intro exI [of _ "\<lparr>pr_supervisor = (pr_supervisor g')\<lparr>su_exports := w_value (k_tx (sy_kernel s2))\<rparr>, pr_daemon = Some s2\<rparr>"])
      (auto intro: rtranclp.rtrancl_into_rtrancl)
qed blast

lemma example_program:
  assumes "main_start N read toml absolute args = Ok (StartDaemon path daemon debug cfg)" and "system_reach N le nametoindex fmt cfg s"
  shows "\<exists>g. program_reach N le nametoindex fmt read toml absolute args g \<and> pr_daemon g = Some s \<and> su_config (pr_supervisor g) = cfg"
proof -
  obtain now version where run: "(system_step N le nametoindex fmt cfg)\<^sup>*\<^sup>* (system_init now version cfg) s"
    using assms(2) by (auto simp: system_reach_def)
  let ?tcp = "\<lambda>_. True"
  have "pr_daemon (program_init now version (spawn ?tcp cfg)) = Some (system_init now version cfg)"
    "su_config (pr_supervisor (program_init now version (spawn ?tcp cfg))) = cfg"
    "su_result (pr_supervisor (program_init now version (spawn ?tcp cfg))) = None"
    by (simp_all add: program_init_def generation_def spawn_fields spawn_runs)
  with works_steps [OF run] assms(1) show ?thesis unfolding program_reach_def by metis
qed

section \<open>Properties\<close>

text \<open>
  C3: The policy in force is the one of the configuration that was loaded last. In every state of the
  program, through any number of accepted and rejected reloads, take any session that runs. The
  configuration is one the validator accepts, every route the session ever announced is permitted by
  the peer's export ACL of that configuration and belongs to a negotiated family, and the exports
  are those of the current generation's channel.
\<close>

theorem program_policy:
  assumes "ipnet N" and "program_reach N le nametoindex fmt read toml absolute args g" and "pr_daemon g = Some s"
    and "i < length (peers (su_config (pr_supervisor g)))" and "pm_phase (sy_peers s ! i) = Running c started primary d"
  shows "validate N (su_config (pr_supervisor g)) = Ok () \<and> su_exports (pr_supervisor g) = w_value (k_tx (sy_kernel s)) \<and>
    (\<forall>batch pkt q. (SentUpdate False batch, pkt) \<in> set (t_log (dx_writer d)) \<and> q \<in> set batch \<longrightarrow>
      permits N (the (map_of (acls (su_config (pr_supervisor g))) (export_acl (peers (su_config (pr_supervisor g)) ! i)))) q \<and>
      neg_enabled (cand_neg c) q)"
proof -
  let ?cfg = "su_config (pr_supervisor g)"
  have inv: "config_ok N ?cfg" "system_reach N le nametoindex fmt ?cfg s" "su_exports (pr_supervisor g) = w_value (k_tx (sy_kernel s))"
    using program_reach_inv [OF assms(2)] assms(3) by (auto simp: program_inv_def sinv_def)
  have "tinv N ?cfg (session_peer (peers ?cfg ! i) c) (cand_neg c) (dx_writer d)"
    by (rule session_inv [OF assms(1) running_writer(1) [OF system_session(3) [OF inv(1,2) assms(4,5)]]])
  then have "entry_ok N ?cfg (session_peer (peers ?cfg ! i) c) (cand_neg c) (SentUpdate False batch, pkt)"
    if "(SentUpdate False batch, pkt) \<in> set (t_log (dx_writer d))" for batch pkt
    using that by (auto simp: tinv_def list_all_iff)
  then show ?thesis using inv by (fastforce simp: validate_ok_iff entry_ok_def permitted_def)
qed

theorem program_policy_witness:
  "\<exists>g s c d. program_reach ipnet_ref True (\<lambda>_. 2) (\<lambda>_. ''error'') (\<lambda>_. Some ''ok'') example_toml Some [] g \<and> pr_daemon g = Some s \<and>
    pm_phase (sy_peers s ! 0) = Running c 0 True d \<and> su_exports (pr_supervisor g) = [(''export'', [NetV4 0xC6336400 24])]"
proof -
  obtain s c where s: "system_reach ipnet_ref True (\<lambda>_. 2) (\<lambda>_. ''error'') example_config s" "sy_kernel s = published_example"
      "pm_phase (sy_peers s ! 0) = Running c 0 True (duplex_init 0 (session_peer example_peer c) (cand_neg c) [] (k_tx published_example))"
    using example_system by blast
  obtain g where g: "program_reach ipnet_ref True (\<lambda>_. 2) (\<lambda>_. ''error'') (\<lambda>_. Some ''ok'') example_toml Some [] g"
      "pr_daemon g = Some s" "su_config (pr_supervisor g) = example_config"
    using example_program [OF example_main_start s(1)] by blast
  have "0 < length (peers (su_config (pr_supervisor g)))" using g(3) by (simp add: example_config_def)
  from program_policy [OF ref.ipnet_axioms g(1,2) this s(3)] g s(2,3) published_example_value show ?thesis by auto
qed


text \<open>A reload to a policy that denies every route.\<close>

definition silent_config :: config where
  "silent_config = example_config\<lparr>acls := [(''export'', \<lparr>rules = []\<rparr>)]\<rparr>"

lemma silent_config_ok: "config_ok ipnet_ref silent_config"
  using example_config_ok by (auto simp: config_ok_def silent_config_def global_ok_def peer_ok_def example_config_def)

definition reload_toml :: "string \<Rightarrow> nat option + config" where
  "reload_toml text = Inr (if text = ''ok'' then example_config else silent_config)"


end
