(* ===== verification/Recovery.thy ===== *)
theory Recovery
  imports Peer_Loop
begin

text \<open>
  How the worker of a peer comes back: whatever phase \<open>peer_loop\<close> of \<open>src/bgp.rs\<close> is in, and whatever
  failed before, a session can be running again after a bounded time, as soon as the remote
  router answers.
\<close>

section \<open>Runs of a worker in time\<close>

inductive later :: "ipnet_ops \<Rightarrow> (string \<Rightarrow> u32) \<Rightarrow> (conn_error \<Rightarrow> string) \<Rightarrow> config \<Rightarrow> peer \<Rightarrow> exports watch \<Rightarrow>
    nat \<times> peer_machine \<Rightarrow> nat \<times> peer_machine \<Rightarrow> bool"
  for N :: ipnet_ops and nametoindex :: "string \<Rightarrow> u32" and fmt :: "conn_error \<Rightarrow> string" and cfg :: config and p :: peer
    and ex :: "exports watch" where
  own: "pstep N nametoindex fmt cfg p now ex pm pm' \<Longrightarrow> later N nametoindex fmt cfg p ex (now, pm) (now, pm')"
| waits: "now \<le> now' \<Longrightarrow> later N nametoindex fmt cfg p ex (now, pm) (now', observe now' ex pm)"

text \<open>A remote router that answers: an outgoing attempt can succeed, and so can its confirmation.\<close>

definition answers_calls :: "(string \<Rightarrow> u32) \<Rightarrow> config \<Rightarrow> peer \<Rightarrow> open_env \<Rightarrow> confirm_env \<Rightarrow> bool" where
  "answers_calls nametoindex cfg p env cenv =
    (case outgoing nametoindex False cfg p env of
       (Ok c, _) \<Rightarrow> (case fst (session_confirm p c cenv) of Ok _ \<Rightarrow> True | _ \<Rightarrow> False)
     | _ \<Rightarrow> False)"

definition open_session :: "peer_machine \<Rightarrow> bool" where
  "open_session pm = (case pm_phase pm of Running c started primary d \<Rightarrow> dx_end d = None | _ \<Rightarrow> False)"

fun in_session :: "loop_phase \<Rightarrow> bool" where
  "in_session (Running c started primary d) = True"
| "in_session _ = False"

lemma observe_idle [simp]: "\<not> in_session (pm_phase pm) \<Longrightarrow> observe now ex pm = pm"
  by (cases "pm_phase pm") (simp_all add: observe_def)

lemma later_own: "pstep N nametoindex fmt cfg p now ex pm pm' \<Longrightarrow> (later N nametoindex fmt cfg p ex)\<^sup>*\<^sup>* (now, pm) (now, pm')"
  by (intro r_into_rtranclp later.own)

lemma later_then:
  "(later N nametoindex fmt cfg p ex)\<^sup>*\<^sup>* a (now, pm) \<Longrightarrow> pstep N nametoindex fmt cfg p now ex pm pm' \<Longrightarrow>
    (later N nametoindex fmt cfg p ex)\<^sup>*\<^sup>* a (now, pm')"
  by (erule rtranclp.rtrancl_into_rtrancl) (rule later.own)

lemma later_waits:
  "now \<le> now' \<Longrightarrow> \<not> in_session (pm_phase pm) \<Longrightarrow>
    (later N nametoindex fmt cfg p ex)\<^sup>*\<^sup>* (now, pm) (now', pm)"
  using later.waits [of now now' N nametoindex fmt cfg p ex pm] by (simp add: r_into_rtranclp)

lemma session_start_phase: "pm_phase (session_start fmt now c primary pm) = Confirming c now primary"
  by (simp add: session_start_def)

text \<open>The chosen candidate, confirmed.\<close>

lemma confirm_runs:
  assumes "pm_phase pm = Confirming c started True" and "fst (session_confirm p c cenv) = Ok stream"
  shows "\<exists>pm'. pstep N nametoindex fmt cfg p now ex pm pm' \<and> open_session pm'"
proof -
  obtain answer where "session_confirm p c cenv = (Ok stream, answer)" using assms(2) by (cases "session_confirm p c cenv") auto
  then have "open_session (confirm_session fmt p now ex 0 cenv c started True pm)"
    by (simp add: confirm_session_def open_session_def duplex_init_def)
  with pstep.confirms [OF assms(1), of 0] show ?thesis by (metis zero_less_numeral)
qed

lemma top_runs:
  assumes "pm_phase pm = AtTop" and "peer_ok cfg p" and "now div 1000 + (unat (connect_timeout_secs p) + 2) < 2 ^ 63"
    and "answers_calls nametoindex cfg p env cenv"
  shows "\<exists>now' pm'. (later N nametoindex fmt cfg p ex)\<^sup>*\<^sup>* (now, pm) (now', pm') \<and> now' \<le> now + 500 \<and> open_session pm'"
proof -
  let ?later = "later N nametoindex fmt cfg p ex"
  let ?ch = "\<lparr>ch_tasks = 1, ch_errors = [], ch_pending = None, ch_started = False,
    ch_deadline = now + 1000 * (unat (connect_timeout_secs p) + 2)\<rparr>"
  obtain c answer stream where c: "outgoing nametoindex False cfg p env = (Ok c, answer)" "fst (session_confirm p c cenv) = Ok stream"
    using assms(4) by (auto simp: answers_calls_def split: prod.splits outcome.splits)
  have "unat (connect_timeout_secs p) + 2 < 2 ^ 64" using assms(2) by (simp add: peer_ok_def timeout_ok_def)
  with assms(3) have init: "choose_init p now = Ok ?ch" by (simp add: choose_init_def)
  let ?pm1 = "connect_start fmt p now 0 pm"
  have p1: "pm_phase ?pm1 = Choosing ?ch [OutgoingTask]" by (simp add: connect_start_def init Let_def)
  have s1: "?later\<^sup>*\<^sup>* (now, pm) (now, ?pm1)" using pstep.connects [OF assms(1), of 0] by (auto intro: later_own)
  let ?pm2 = "choose_next fmt now 0 (choose_step cfg p (Joined (Ok c) now) ?ch) [] (notice answer ?pm1)"
  have j: "pstep N nametoindex fmt cfg p now ex ?pm1 ?pm2"
    using pstep.joins [OF p1, of OutgoingTask nametoindex False cfg p env "Ok c" answer now 0] c(1) by (simp add: task_result_def)
  have s2: "?later\<^sup>*\<^sup>* (now, pm) (now, ?pm2)" by (rule later_then [OF s1 j])
  have "\<exists>now' pm'. ?later\<^sup>*\<^sup>* (now, ?pm2) (now', pm') \<and> now' \<le> now + 500 \<and> (\<exists>started. pm_phase pm' = Confirming c started True)"
  proof (cases "cand_incoming c = prefer_incoming cfg p (cand_neg c)")
    case True
    then have "pm_phase ?pm2 = Confirming c now True" by (simp add: choose_next_def session_start_def)
    then show ?thesis by (intro exI [of _ now] exI [of _ ?pm2]) simp
  next
    case False
    let ?ch2 = "?ch\<lparr>ch_tasks := 0, ch_pending := Some c, ch_deadline := now + 500\<rparr>"
    from False have p2: "pm_phase ?pm2 = Choosing ?ch2 []" by (simp add: choose_next_def)
    have j: "pstep N nametoindex fmt cfg p (now + 500) ex ?pm2 (session_start fmt (now + 500) c True ?pm2)"
      using pstep.deadline [OF p2, of "now + 500" 0] by (simp add: choose_next_def)
    have w: "?later\<^sup>*\<^sup>* (now, ?pm2) (now + 500, ?pm2)"
      by (rule later_waits) (simp, simp only: p2 in_session.simps not_False_eq_True)
    have "pm_phase (session_start fmt (now + 500) c True ?pm2) = Confirming c (now + 500) True"
      by (rule session_start_phase)
    with later_then [OF w j] show ?thesis by blast
  qed
  then obtain now' pm' started where "?later\<^sup>*\<^sup>* (now, ?pm2) (now', pm')" "now' \<le> now + 500" "pm_phase pm' = Confirming c started True" by blast
  moreover from confirm_runs [OF this(3) c(2)] obtain pm'' where "pstep N nametoindex fmt cfg p now' ex pm' pm''" "open_session pm''" by blast
  ultimately show ?thesis using later_then [OF rtranclp_trans [OF s2]] by blast
qed

text \<open>Every other phase leads to the top of the loop.\<close>

lemma back_off_top:
  assumes "pm_phase pm = BackingOff t"
  shows "(later N nametoindex fmt cfg p ex)\<^sup>*\<^sup>* (now, pm) (max now t, pm\<lparr>pm_phase := AtTop\<rparr>)"
proof -
  have "pstep N nametoindex fmt cfg p (max now t) ex pm (pm\<lparr>pm_phase := AtTop\<rparr>)" by (rule pstep.retries [OF assms]) simp
  moreover have "(later N nametoindex fmt cfg p ex)\<^sup>*\<^sup>* (now, pm) (max now t, pm)" by (rule later_waits) (simp_all add: assms)
  ultimately show ?thesis by (blast intro: later_then)
qed

text \<open>A state from which the top is reached by a back-off at most, without another connection attempt.\<close>

definition winding_down :: "nat \<Rightarrow> peer_machine \<Rightarrow> bool" where
  "winding_down now pm = (case pm_phase pm of AtTop \<Rightarrow> True | BackingOff t \<Rightarrow> t < now + 31000 | _ \<Rightarrow> False)"

lemma back_off_winds: "jitter < 1000 \<Longrightarrow> winding_down now (back_off fmt now jitter pm)"
  using backoff_secs_bounds [of "saturating_inc (pl_failures (pm_state pm))"]
  by (auto simp: winding_down_def back_off_def Let_def retry_ms_def unat_saturating_inc)

lemma session_over_winds: "jitter < 1000 \<Longrightarrow> winding_down now (session_over fmt now jitter started primary e pm)"
  by (auto simp: session_over_def Let_def back_off_winds) (simp add: winding_down_def)

lemma winding_top:
  assumes "winding_down now pm"
  shows "\<exists>now' pm'. (later N nametoindex fmt cfg p ex)\<^sup>*\<^sup>* (now, pm) (now', pm') \<and> now' \<le> now + 31000 \<and> pm_phase pm' = AtTop"
proof (cases "pm_phase pm")
  case AtTop
  then show ?thesis by (intro exI [of _ now] exI [of _ pm]) simp
next
  case (BackingOff t)
  with assms back_off_top [OF BackingOff] show ?thesis
    by (intro exI [of _ "max now t"] exI [of _ "pm\<lparr>pm_phase := AtTop\<rparr>"]) (auto simp: winding_down_def)
qed (use assms in \<open>simp_all add: winding_down_def\<close>)


lemma confirm_winds:
  assumes "pm_phase pm = Confirming c started primary"
  shows "\<exists>pm'. pstep N nametoindex fmt cfg p now ex pm pm' \<and> winding_down now pm'"
proof -
  have "session_confirm p c \<lparr>ce_written = None, ce_ready_ms = 0\<rparr> = (Err SendFailed, Ok None)"
    by (simp add: session_confirm_def send_def)
  then have "winding_down now (confirm_session fmt p now ex 0 \<lparr>ce_written = None, ce_ready_ms = 0\<rparr> c started primary pm)"
    by (simp add: confirm_session_def session_over_winds)
  with pstep.confirms [OF assms, of 0] show ?thesis by (metis zero_less_numeral)
qed

lemma greeting_winds:
  assumes "pm_phase pm = Greeting stream"
  shows "\<exists>pm'. pstep N nametoindex fmt cfg p now ex pm pm' \<and> winding_down now pm'"
proof -
  let ?env = "\<lparr>oe_sock = [], oe_sys = \<lambda>_ _. True, oe_ifaddrs = None, oe_written = None, oe_input = [], oe_ready_ms = 0\<rparr>"
  have "\<exists>e answer. handshake cfg p True (?env\<lparr>oe_input := stream\<rparr>) = (Err e, answer)"
    by (simp add: handshake_def check_local_addresses_def configure_def)
  then have "winding_down now (greeted fmt cfg p now ?env stream pm)"
    by (auto simp: greeted_def winding_down_def)
  with pstep.greeted [OF assms] show ?thesis by blast
qed

lemma choosing_winds:
  assumes "pm_phase pm = Choosing ch tasks" and "ch_deadline ch \<le> now"
  shows "\<exists>pm'. (later N nametoindex fmt cfg p ex)\<^sup>*\<^sup>* (now, pm) (now, pm') \<and> winding_down now pm'"
proof -
  let ?pm = "choose_next fmt now 0 (choose_step cfg p (Deadline now) ch) tasks pm"
  have step: "pstep N nametoindex fmt cfg p now ex pm ?pm" using pstep.deadline [OF assms(1), of now 0] assms(2) by simp
  show ?thesis
  proof (cases "ch_pending ch")
    case None
    then have "winding_down now ?pm" by (simp add: choose_next_def choice_failed_def back_off_winds)
    with step show ?thesis by (blast intro: later_own)
  next
    case (Some c)
    then have "pm_phase ?pm = Confirming c now True" by (simp add: choose_next_def session_start_def)
    from confirm_winds [OF this] step show ?thesis by (blast intro: later_own later_then)
  qed
qed

lemma worker_winds:
  assumes "pinv N le cfg p now ex pm" and "pm_phase pm \<noteq> LoopEnded" and "\<not> open_session pm"
  shows "\<exists>now' pm'. (later N nametoindex fmt cfg p ex)\<^sup>*\<^sup>* (now, pm) (now', pm') \<and>
    now' \<le> now + 1000 * (unat (connect_timeout_secs p) + 2) \<and> winding_down now' pm'"
proof (cases "pm_phase pm")
  case (Choosing ch tasks)
  let ?t = "max now (ch_deadline ch)"
  have "(later N nametoindex fmt cfg p ex)\<^sup>*\<^sup>* (now, pm) (?t, pm)" by (rule later_waits) (simp_all add: Choosing)
  moreover have "?t \<le> now + 1000 * (unat (connect_timeout_secs p) + 2)" using assms(1) Choosing by (simp add: pinv_def)
  ultimately show ?thesis using choosing_winds [OF Choosing, of ?t] by (meson max.cobounded2 rtranclp_trans)
next
  case (Running c started primary d)
  with assms(3) obtain e where "dx_end d = Some e" by (auto simp: open_session_def)
  from pstep.ends [OF Running this, of SendFailed 0] have "pstep N nametoindex fmt cfg p now ex pm
      (session_closed fmt now 0 started primary (session_error e SendFailed) pm)" by simp
  moreover have "winding_down now (session_closed fmt now 0 started primary (session_error e SendFailed) pm)"
    by (simp add: session_closed_def session_over_winds)
  ultimately show ?thesis by (meson later_own le_add1)
next
  case (Confirming c started primary)
  with confirm_winds [OF Confirming] show ?thesis by (meson later_own le_add1)
next
  case (Greeting stream)
  with greeting_winds [OF Greeting] show ?thesis by (meson later_own le_add1)
qed (use assms in \<open>auto simp: pinv_def winding_down_def intro!: exI [of _ now] exI [of _ pm]\<close>)

section \<open>Properties\<close>



lemma example_answers:
  "answers_calls (\<lambda>_. 2) example_config example_peer (example_env_open\<lparr>oe_input := example_stream\<rparr>) \<lparr>ce_written = Some 0, ce_ready_ms = 0\<rparr>"
proof -
  obtain sk where "connect (\<lambda>_. 2) (\<lambda>_ _. True) False example_peer = Ok sk"
    using connect_permissive [OF example_peer_ok, of "\<lambda>_. 2"] by auto
  moreover obtain c where "handshake example_config example_peer False (example_env_open\<lparr>oe_input := example_stream, oe_sock := sk\<rparr>) = (Ok c, Ok None)"
      "cand_stream c = frame_bytes (KEEPALIVE, [])"
    using example_incoming [of False sk] by blast
  moreover have "read_frame (frame_bytes (KEEPALIVE, []) @ []) = Ok ((KEEPALIVE, []), [])"
    by (rule read_frame_bytes) (simp add: body_ok_def valid_length_def KEEPALIVE_def MAX_MESSAGE_def)
  ultimately show ?thesis
    by (simp add: answers_calls_def outgoing_def example_env_open_def session_confirm_def send_def Let_def)
qed


end
