(* ===== verification/Conformance.thy ===== *)
theory Conformance
  imports Wire_Roundtrip
begin

text \<open>
  What the unit tests of the repository assert, in the terms of the model. A test is a
  \<open>bool\<close>-valued definition; that the model passes it is a lemma. \<open>unwrap\<close>, \<open>is_err\<close> and the
  discarded result of \<open>let _ = ...\<close> become three predicates of an outcome; a panic fails each.
\<close>

fun unwraps :: "('e, 'a) outcome \<Rightarrow> ('a \<Rightarrow> bool) \<Rightarrow> bool" where
  "unwraps (Ok x) f = f x"
| "unwraps _ f = False"

fun is_err :: "('e, 'a) outcome \<Rightarrow> bool" where
  "is_err (Err e) = True"
| "is_err _ = False"

fun unwraps_err :: "('e, 'a) outcome \<Rightarrow> ('e \<Rightarrow> bool) \<Rightarrow> bool" where
  "unwraps_err (Err e) f = f e"
| "unwraps_err _ f = False"

fun returns :: "('e, 'a) outcome \<Rightarrow> bool" where
  "returns Panic = False"
| "returns _ = True"

lemma returns_iff [simp]: "returns m \<longleftrightarrow> m \<noteq> Panic"
  by (cases m) simp_all

lemma unwraps_iff: "unwraps m f \<longleftrightarrow> (\<exists>x. m = Ok x \<and> f x)"
  by (cases m) simp_all

lemma unwraps_mono: "unwraps m f \<Longrightarrow> (\<And>x. f x \<Longrightarrow> g x) \<Longrightarrow> unwraps m g"
  by (cases m) simp_all

text \<open>\<open>windows(k).any(|b| b == pat)\<close> for a pattern of \<open>k\<close> elements.\<close>

fun has_window :: "'a list \<Rightarrow> 'a list \<Rightarrow> bool" where
  "has_window pat [] = (pat = [])"
| "has_window pat (x # xs) = (take (length pat) (x # xs) = pat \<or> has_window pat xs)"

text \<open>\<open>copy_from_slice\<close> into a range of a buffer that is long enough.\<close>

definition copy_at :: "nat \<Rightarrow> 'a list \<Rightarrow> 'a list \<Rightarrow> 'a list" where
  "copy_at i ys xs = take i xs @ ys @ drop (i + length ys) xs"

section \<open>Evaluating the wire format\<close>

text \<open>
  The equations by which the simplifier runs the parsers on concrete bytes: a loop unfolds on
  a list that starts with a known byte, so that it never unfolds under a binder.
\<close>

lemma loops_Nil:
  "attr_loop n [] st = Ok st" "validate_path [] width = Ok ()" "parse_caps [] cs = Ok cs" "parse_params ext [] cs = Ok cs"
  "append_prefixes N [] v6 out = Ok out" "prefix_walk N [] out = Ok out"
  by (simp_all add: attr_loop.simps validate_path.simps parse_caps.simps parse_params.simps append_prefixes.simps prefix_walk.simps)

lemma be_bytes_4: "be_bytes 4 v = [of_nat (v div 256 div 256 div 256), of_nat (v div 256 div 256), of_nat (v div 256), of_nat v]"
proof -
  have "be_bytes (Suc (Suc (Suc (Suc 0)))) v = [of_nat (v div 256 div 256 div 256), of_nat (v div 256 div 256), of_nat (v div 256), of_nat v]"
    by simp
  moreover have "(4 :: nat) = Suc (Suc (Suc (Suc 0)))" by simp
  ultimately show ?thesis by (simp only:)
qed

lemma be_bytes_2: "be_bytes 2 v = [of_nat (v div 256), of_nat v]"
  by (simp add: numeral_2_eq_2)

lemma be_bytes_add: "be_bytes (m + k) v = be_bytes m (v div 256 ^ k) @ be_bytes k v"
  by (induction k arbitrary: v) (simp_all add: div_mult2_eq)

lemma be_bytes_16:
  "be_bytes 16 v = be_bytes 4 (v div 256 ^ 4 div 256 ^ 4 div 256 ^ 4) @ be_bytes 4 (v div 256 ^ 4 div 256 ^ 4) @ be_bytes 4 (v div 256 ^ 4) @ be_bytes 4 v"
  using be_bytes_add [of 12 4 v] be_bytes_add [of 8 4 "v div 256 ^ 4"] be_bytes_add [of 4 4 "v div 256 ^ 4 div 256 ^ 4"] by simp

lemma marker_eval: "replicate 16 (255 :: u8) = [255, 255, 255, 255, 255, 255, 255, 255, 255, 255, 255, 255, 255, 255, 255, 255]"
  by code_simp

lemma be_bytes_eval:
  "u16_be w = [of_nat (unat w div 256), of_nat (unat w)]" "u32_be x = be_bytes 4 (unat x)"
  by (simp_all add: u16_be_def u32_be_def be_bytes_2)

lemmas loops_Cons = attr_loop.simps [of n "x # xs" st for n x xs st] validate_nlri.simps [of "x # xs" bits for x xs bits]
  validate_path.simps [of "x # xs" width for x xs width] parse_caps.simps [of "x # xs" cs for x xs cs]
  parse_params.simps [of ext "x # xs" cs for ext x xs cs] append_prefixes.simps [of N "x # xs" v6 out for N x xs v6 out]
  prefix_walk.simps [of N "x # xs" out for N x xs out]

lemmas reading = index_def slice_from_def slice_range_def u16b_def be_value_def require_def ensure_def Let_def div_ceil_def assert_that_def
  and_also_def is_ok_def err_def word_le_nat_alt

lemmas validating = validate_update_def attribute_def valid_value_def mp_attribute_def flags_ok_def expected_flags_def
  discarded_kind_def finish_update_def attr_init_def max_def less_eq_update_action_def ipv4_unicast_or_v6_def
  valid_v4_def is_multicast_v4_def broadcast_v4_def is_loopback_v4_def ipv4_of_octets_def

lemmas negotiating = parse_open_def capability_def negotiate_def cap_init_def valid_router_id_def ipv4_of_octets_def two_octet_asn_def

lemmas framing = frame_def MAX_MESSAGE_def notification_def open_msg_def open_body_def open_caps_def octets_v4_def marker_eval

lemmas encoding = update_def nlri_def mp_attrs_def path_attrs_def as_path_def update_body_def attr_def UPDATE_def
  MAX_UPDATE_PREFIXES_def nh4_def nh6_def is_ipv6_def end_of_rib_def end_of_rib_body_def

lemmas decoding = update_prefixes_def ipnet_ref_def net_mask_def mask_top_def

lemmas wire_eval = loops_Nil loops_Cons be_bytes_4 be_bytes_eval reading validating negotiating framing encoding decoding

end
