(* ===== verification/Wire_Tests.thy ===== *)
theory Wire_Tests
  imports Conformance
begin

unbundle bit_operations_syntax

text \<open>The unit tests of \<open>src/wire.rs\<close>, translated, and that the model passes them.\<close>

section \<open>The tests\<close>

text \<open>The configuration is the one of \<open>examples/ubgp.toml\<close>.\<close>

definition fixture_neg :: negotiated where
  "fixture_neg = \<lparr>neg_router_id = 0xC0000202, hold = 90, asn4 = True, internal = False, neg_ipv4 = True, neg_ipv6 = True\<rparr>"

definition encode_ipv4_ipv6_announce_withdraw_and_eor :: bool where
  "encode_ipv4_ipv6_announce_withdraw_and_eor =
    (let p = example_peer\<lparr>next_hop_v6 := Some 0x20010DB8000000000000000000000001\<rparr> in
     list_all (\<lambda>prefix. list_all (\<lambda>withdraw.
         unwraps (update ipnet_ref example_config p fixture_neg [prefix] withdraw) (\<lambda>msg.
           unwraps (u16b (drop 16 msg)) (\<lambda>l. unat l = length msg) \<and>
           unwraps (validate_update (drop 19 msg) fixture_neg) (\<lambda>_. True))) [False, True])
       [NetV4 0 0, NetV4 0xCB007100 24, NetV6 0x20010DB8000000000000000000000000 32, NetV6 0 0] \<and>
     list_all (\<lambda>v6. unwraps (end_of_rib v6) (\<lambda>msg. unwraps (validate_update (drop 19 msg) fixture_neg) (\<lambda>_. True))) [False, True])"

definition legacy_as4_and_internal_aspath :: bool where
  "legacy_as4_and_internal_aspath =
    (let c = example_config\<lparr>asn := 4200000001\<rparr>; n = fixture_neg\<lparr>asn4 := False\<rparr> in
     unwraps (update ipnet_ref c example_peer n [NetV4 0x0A000000 8] False) (\<lambda>packet.
       unwraps (validate_update (drop 19 packet) n) (\<lambda>_. True) \<and> has_window [0xC0, 17, 6] packet) \<and>
     (let c = c\<lparr>asn := remote_asn example_peer\<rparr> in
      unwraps (update ipnet_ref c example_peer n [NetV4 0x0A000000 8] False) (\<lambda>packet.
        has_window [0x40, 2, 0] packet \<and> has_window [0x40, 5, 4] packet)))"

definition open_negotiation_checks_asn_hold_and_family :: bool where
  "open_negotiation_checks_asn_hold_and_family =
    (let remote = example_config\<lparr>asn := remote_asn example_peer, router_id := 0xC0000202\<rparr> in
     unwraps (open_msg remote example_peer) (\<lambda>msg.
       unwraps (parse_open (drop 19 msg) example_config example_peer) (\<lambda>n. neg_ipv4 n \<and> asn4 n \<and> \<not> neg_ipv6 n) \<and>
       is_err (parse_open (drop 19 (copy_at 22 (u16_be 1) msg)) example_config example_peer)))"

text \<open>The stream of the model is the concatenation of its fragments.\<close>

definition framing_handles_fragmentation_and_rejects_oversize :: bool where
  "framing_handles_fragmentation_and_rejects_oversize =
    (unwraps (frame 4 []) (\<lambda>msg.
       unwraps (read_frame (concat (map (\<lambda>byte. [byte]) msg))) (\<lambda>(packet, rest). packet = (4, [])) \<and>
       is_err (read_frame (copy_at 16 (u16_be 4097) msg))))"

definition maximum_ipv6_batch_fits_standard_message_size :: bool where
  "maximum_ipv6_batch_fits_standard_message_size =
    (let p = example_peer\<lparr>next_hop_v6 := Some 0x20010DB8000000000000000000000001,
           next_hop_v6_link_local := Some 0xFE800000000000000000000000000001\<rparr>;
         prefixes = replicate MAX_UPDATE_PREFIXES (NetV6 0x20010DB80000000000000000000000FF 128) in
     list_all (\<lambda>withdraw.
       unwraps (update ipnet_ref example_config p fixture_neg prefixes withdraw) (\<lambda>msg.
         length msg \<le> MAX_MESSAGE \<and> unwraps (validate_update (drop 19 msg) fixture_neg) (\<lambda>_. True))) [False, True])"

text \<open>The generator of the fuzz test: \<open>len\<close> bytes for every length, from one running state.\<close>

definition xorshift :: "u64 \<Rightarrow> u64" where
  "xorshift s = (let s = s XOR push_bit 13 s; s = s XOR drop_bit 7 s in s XOR push_bit 17 s)"

fun random_bytes :: "nat \<Rightarrow> u64 \<Rightarrow> bytes \<times> u64" where
  "random_bytes 0 s = ([], s)"
| "random_bytes (Suc len) s = (let s = xorshift s; (bs, t) = random_bytes len s in (ucast s # bs, t))"

fun random_inputs :: "nat list \<Rightarrow> u64 \<Rightarrow> bytes list" where
  "random_inputs [] s = []"
| "random_inputs (len # lens) s = (let (bs, s) = random_bytes len s in bs # random_inputs lens s)"

definition arbitrary_protocol_input_does_not_panic :: bool where
  "arbitrary_protocol_input_does_not_panic =
     list_all (\<lambda>bs. returns (parse_open bs example_config example_peer) \<and> returns (validate_update bs fixture_neg) \<and>
       returns (update_prefixes ipnet_ref bs)) (random_inputs [0..<4096] 0x123456789ABCDEF)"

definition parsers_never_panic_on_truncated_input :: bool where
  "parsers_never_panic_on_truncated_input =
    (unwraps (open_msg example_config example_peer) (\<lambda>msg.
       list_all (\<lambda>l. is_err (parse_open (take l (drop 19 msg)) example_config example_peer)) [0..<length msg - 19]) \<and>
     unwraps (update ipnet_ref example_config example_peer fixture_neg [NetV4 0x0A000000 8] False) (\<lambda>msg.
       list_all (\<lambda>l. returns (validate_update (take l (drop 19 msg)) fixture_neg)) [0..<length msg - 20]) \<and>
     list_all (\<lambda>l. returns (validate_update (replicate l 255) fixture_neg)) [0..<512])"

definition received_update :: "bool \<Rightarrow> bytes \<Rightarrow> bytes" where
  "received_update four extra =
    (let attrs = [0x40, 1, 1, 2] @ (if four then [0x40, 2, 6, 2, 1, 0, 0, 252, 1] else [0x40, 2, 4, 2, 1, 252, 1]) @
       [0x40, 3, 4, 192, 0, 2, 2] @ extra
     in [0, 0] @ u16_be (of_nat (length attrs)) @ attrs @ [24, 10, 1, 0])"

definition acts :: "bytes \<Rightarrow> negotiated \<Rightarrow> update_action \<Rightarrow> bool" where
  "acts body n action = unwraps (validate_update body n) (\<lambda>a. a = action)"

definition update_recovery_and_fatal_boundaries :: bool where
  "update_recovery_and_fatal_boundaries =
    (let n = fixture_neg; bad_origin = list_update (received_update True []) 7 3 in
     acts bad_origin n TreatAsWithdraw \<and>
     unwraps (update_prefixes ipnet_ref bad_origin) (\<lambda>ps. ps = [NetV4 0x0A010000 24]) \<and>
     acts (received_update True [0x40, 1, 1, 3]) n AttributeDiscard \<and>
     list_all (\<lambda>extra. acts (received_update True extra) n TreatAsWithdraw)
       [[0xC0, 8, 0], [0xC0, 16, 1, 0], [0xC0, 32, 0], [0x80, 4, 1, 0], [0x40, 8, 4, 0, 0, 0, 1], [0x80], [0x80, 8, 255]] \<and>
     list_all (\<lambda>extra. acts (received_update True extra) n AttributeDiscard) [[0x40, 6, 1, 0], [0xC0, 7, 1, 0], [0x80, 6, 0]] \<and>
     acts [0, 0, 0, 0, 24, 10, 1, 0] n TreatAsWithdraw \<and>
     acts [0, 0, 0, 0] n Valid \<and>
     is_err (validate_update (take (length bad_origin - 4) bad_origin) n) \<and>
     (let bad_nlri = list_update bad_origin (length bad_origin - 1) 0 in
      is_err (validate_update (list_update bad_nlri (length bad_nlri - 4) 33) n)) \<and>
     list_all (\<lambda>extra. is_err (validate_update (received_update True extra) n))
       [[0x80, 14, 3, 0, 2, 1], [0x80, 15, 4, 0, 2, 1, 129], [0x80, 15, 3, 0, 2, 1, 0x80, 15, 3, 0, 2, 1], [0x40, 99, 1, 0]] \<and>
     is_err (validate_update (list_update (received_update True [0x80, 14, 3, 0, 2, 1]) 7 3) n))"

definition as4_attributes_and_external_only_discards_preserve_updates :: bool where
  "as4_attributes_and_external_only_discards_preserve_updates =
    (list_all (\<lambda>four. list_all (\<lambda>extra. acts (received_update four extra) (fixture_neg\<lparr>asn4 := four\<rparr>) AttributeDiscard)
       [[0xC0, 17, 1, 0], [0xC0, 18, 1, 0]]) [False, True] \<and>
     (let n = fixture_neg\<lparr>asn4 := True\<rparr> in
      list_all (\<lambda>kind. acts (received_update True [0x80, kind, 1, 0]) n AttributeDiscard \<and>
        acts (received_update True [0x80, kind, 1, 0]) (n\<lparr>internal := True\<rparr>) TreatAsWithdraw) [5, 9, 10] \<and>
      acts (received_update True []) (n\<lparr>internal := True\<rparr>) TreatAsWithdraw \<and>
      acts (received_update True [0x40, 5, 4, 0, 0, 0, 100]) (n\<lparr>internal := True\<rparr>) Valid))"

definition open_accepts_integer_ids_and_equal_external_ids_only :: bool where
  "open_accepts_integer_ids_and_equal_external_ids_only =
     list_all (\<lambda>internal.
       let p = (if internal then example_peer\<lparr>remote_asn := asn example_config\<rparr> else example_peer) in
       list_all (\<lambda>id.
         let remote = example_config\<lparr>asn := remote_asn p, router_id := id\<rparr>;
             rejected = (id = 0 \<or> internal \<and> router_id remote = router_id example_config) in
         unwraps (open_msg remote p) (\<lambda>packet.
           let result = parse_open (drop 19 packet) example_config p in
           is_err result = rejected \<and> returns result \<and>
           (rejected \<longrightarrow> unwraps_err result (\<lambda>e. case e of Protocol pe \<Rightarrow> (pe_code pe, pe_subcode pe) = (2, 3) | _ \<Rightarrow> False))))
         [0, 0xE0000001, 0xFFFFFFFF, 0xC0000201]) [False, True]"

definition extended_open :: "config \<Rightarrow> peer \<Rightarrow> bytes \<Rightarrow> bytes" where
  "extended_open c p params =
     [4] @ u16_be (ucast (remote_asn p)) @ u16_be 90 @ [192, 0, 2, 2] @ [255, 255] @ u16_be (of_nat (length params)) @ params"

definition extended_open_accepts_short_long_and_multiple_parameters :: bool where
  "extended_open_accepts_short_long_and_multiple_parameters =
    (octets_v4 (router_id example_config) \<noteq> [192, 0, 2, 2] \<and>
     (let params = [2, 0, 6, 65, 4] @ u32_be (remote_asn example_peer) @ [2, 0, 6, 1, 4, 0, 1, 0, 1] in
      list_all (\<lambda>legacy_length.
        unwraps (parse_open (list_update (extended_open example_config example_peer params) 9 legacy_length) example_config example_peer)
          (\<lambda>n. asn4 n \<and> neg_ipv4 n)) [1, 254, 255]) \<and>
     (let caps = [65, 4] @ u32_be (remote_asn example_peer) @ [1, 4, 0, 1, 0, 1, 200, 250] @ replicate 250 0;
          params = [2] @ u16_be (of_nat (length caps)) @ caps;
          b = extended_open example_config example_peer params in
      255 < length b \<and> unwraps (parse_open b example_config example_peer) (\<lambda>n. asn4 n \<and> neg_ipv4 n)) \<and>
     unwraps (parse_open (extended_open example_config example_peer []) example_config example_peer) (\<lambda>n. neg_ipv4 n \<and> \<not> asn4 n))"

definition extended_open_rejects_truncation_and_inconsistent_nested_lengths :: bool where
  "extended_open_rejects_truncation_and_inconsistent_nested_lengths =
    (let b = extended_open example_config example_peer [2, 0, 6, 1, 4, 0, 1, 0, 1] in
     list_all (\<lambda>l. is_err (parse_open (take l b) example_config example_peer)) [0..<length b] \<and>
     list_all (\<lambda>(position, v). is_err (parse_open (list_update b position v) example_config example_peer))
       [(9, 0), (12, 8), (12, 10), (15, 5), (15, 7), (17, 5)])"

definition mp_order :: "bool \<Rightarrow> bool \<Rightarrow> bool" where
  "mp_order same_as withdraw =
    (let p = example_peer\<lparr>next_hop_v6 := Some 0x20010DB8000000000000000000000001,
           next_hop_v6_link_local := Some 0xFE800000000000000000000000000001\<rparr>;
         c = (if same_as then example_config\<lparr>asn := remote_asn p\<rparr> else example_config); n = fixture_neg\<lparr>internal := same_as\<rparr> in
     unwraps (update ipnet_ref c p n [NetV6 0x20010DB8010000000000000000000000 48] withdraw) (\<lambda>packet.
       let body = drop 19 packet; attrs = drop 4 body in
       take 2 body = [0, 0] \<and> unwraps (u16b (drop 2 body)) (\<lambda>len. length body = unat len + 4) \<and>
       attrs ! 0 = 0x80 \<and> attrs ! 1 = (if withdraw then 15 else 14) \<and> take 3 (drop 3 attrs) = [0, 2, 1] \<and>
       (if withdraw then True else
          attrs ! 6 = 32 \<and>
          (let first_len = 3 + unat (attrs ! 2) in
           take 4 (drop first_len attrs) = [0x40, 1, 1, 2] \<and>
           acts (take 4 body @ drop first_len attrs @ take first_len attrs) n Valid)) \<and>
       acts body n Valid))"

definition multiprotocol_nlri_is_first_on_wire_but_legacy_order_is_accepted :: bool where
  "multiprotocol_nlri_is_first_on_wire_but_legacy_order_is_accepted =
    (list_all (\<lambda>same_as. list_all (mp_order same_as) [False, True]) [False, True] \<and>
     unwraps (end_of_rib True) (\<lambda>packet. drop 19 packet = [0, 0, 0, 6, 0x80, 15, 3, 0, 2, 1]))"

definition notification_data :: "error \<Rightarrow> bytes \<Rightarrow> bool" where
  "notification_data e expected = (case e of
     Protocol pe \<Rightarrow> unwraps (notification (pe_code pe) (pe_subcode pe) (pe_data pe)) (\<lambda>packet.
       take 16 packet = replicate 16 255 \<and> unwraps (u16b (drop 16 packet)) (\<lambda>l. unat l = 19 + length expected) \<and>
       packet ! 18 = 3 \<and> drop 19 packet = expected)
   | _ \<Rightarrow> False)"

definition notifications_include_capabilities_and_offending_attributes :: bool where
  "notifications_include_capabilities_and_offending_attributes =
    (let c = example_config; remote = c\<lparr>asn := remote_asn example_peer, router_id := 0xC0000202\<rparr>;
         p = example_peer\<lparr>peer_ipv4 := False, peer_ipv6 := True\<rparr> in
     unwraps (open_msg remote example_peer) (\<lambda>packet.
       unwraps_err (parse_open (drop 19 packet) c p) (\<lambda>e. notification_data e [2, 7, 1, 4, 0, 2, 0, 1]) \<and>
       (let remote_peer = p\<lparr>peer_ipv4 := False, peer_ipv6 := False\<rparr> in
        unwraps (open_msg remote remote_peer) (\<lambda>packet.
          let u = drop 19 packet; u = list_update u 9 (u ! 9 + 6); u = list_update u 11 (u ! 11 + 6);
              unsupported = u @ [1, 4, 0, 25, 0, 70] in
          unwraps_err (parse_open unsupported c (p\<lparr>peer_ipv4 := True\<rparr>))
            (\<lambda>e. notification_data e [2, 7, 1, 4, 0, 1, 0, 1, 1, 4, 0, 2, 0, 1]))) \<and>
       list_all (\<lambda>attr. unwraps_err (validate_update (received_update True attr) fixture_neg)
         (\<lambda>e. notification_data e ([3, 2] @ attr))) [[0x40, 99, 1, 42], [0x50, 99, 0, 1, 42]] \<and>
       (let optional = list_update (take 10 (drop 19 packet)) 9 3 @ [99, 1, 42] in
        unwraps_err (parse_open optional c (p\<lparr>peer_ipv4 := True\<rparr>)) (\<lambda>e. notification_data e [2, 4, 99, 1, 42]))))"

definition fsm_notifications_identify_state_and_unexpected_message :: bool where
  "fsm_notifications_identify_state_and_unexpected_message =
     list_all (\<lambda>(state, subcode, kind). notification_data (unexpected state kind []) [5, subcode, kind] \<and>
       (case unexpected state 3 [6, 0] of Protocol pe \<Rightarrow> False | _ \<Rightarrow> True))
       [(OpenSent, 1, 4), (OpenConfirm, 2, 2), (Established, 3, 1)]"

section \<open>The model passes\<close>

text \<open>Packets that the encoder makes: their length field, and what the validator says.\<close>

lemma own_packet:
  assumes "batch_ok p v6 withdraw ps" and "internal n = (asn cfg = remote_asn p)" and "\<not> withdraw \<Longrightarrow> next_hop_ok p v6"
  shows "unwraps (update ipnet_ref cfg p n ps withdraw) (\<lambda>msg.
    length msg \<le> MAX_MESSAGE \<and> unwraps (u16b (drop 16 msg)) (\<lambda>l. unat l = length msg) \<and>
    unwraps (validate_update (drop 19 msg) n) (\<lambda>a. a = Valid))"
proof -
  obtain pkt body where pkt: "update ipnet_ref cfg p n ps withdraw = Ok pkt" "length pkt \<le> 4096"
      "read_frame (pkt @ []) = Ok ((UPDATE, body), [])" "validate_update body n = Ok Valid"
    using ref.own_update [OF assms, of "[]"] by blast
  from read_frame_inverse [OF pkt(3)] have "frame UPDATE body = Ok pkt" by auto
  then have len: "length pkt = length body + 19" and eq: "pkt = replicate 16 255 @ u16_be (of_nat (length body + 19)) @ [UPDATE] @ body"
    by (auto simp: frame_def bindr_eq_Ok)
  from eq have "drop 16 pkt = u16_be (of_nat (length body + 19)) @ [UPDATE] @ body" "drop 19 pkt = body" by simp_all
  moreover have "u16b (u16_be l @ xs) = Ok l" for l xs
    using u16_be_Cons [of l] of_nat_be_value_u16_be [of l] by (auto simp: u16b_def index_def simp del: of_nat_be_value_u16_be)
  moreover have "unat (of_nat (length body + 19) :: u16) = length pkt" unfolding len [symmetric] using pkt(2) by (simp add: unat_of_nat)
  ultimately show ?thesis using pkt by (simp add: MAX_MESSAGE_def)
qed

lemma legacy_paths: legacy_as4_and_internal_aspath
  by (simp add: legacy_as4_and_internal_aspath_def wire_eval fixture_neg_def example_defs)
lemma open_negotiation: open_negotiation_checks_asn_hold_and_family
  by (simp add: open_negotiation_checks_asn_hold_and_family_def wire_eval example_defs copy_at_def)
lemma fragments: framing_handles_fragmentation_and_rejects_oversize
  by (simp add: framing_handles_fragmentation_and_rejects_oversize_def wire_eval copy_at_def read_frame_def read_exact_def valid_length_def)
lemma encodings: encode_ipv4_ipv6_announce_withdraw_and_eor
proof -
  let ?p = "example_peer\<lparr>next_hop_v6 := Some 0x20010DB8000000000000000000000001\<rparr>"
  have "unwraps (update ipnet_ref example_config ?p fixture_neg [q] w) (\<lambda>msg. unwraps (u16b (drop 16 msg)) (\<lambda>l. unat l = length msg) \<and>
      unwraps (validate_update (drop 19 msg) fixture_neg) (\<lambda>_. True))"
    if "net_wf q" for q w
  proof -
    have "batch_ok ?p (is_ipv6 (net_addr q)) w [q]"
      using that by (simp add: batch_ok_def MAX_UPDATE_PREFIXES_def nh4_def nh6_def example_peer_def)
    moreover have "next_hop_ok ?p (is_ipv6 (net_addr q))"
      by (simp add: next_hop_ok_def nh4_def nh6_def example_peer_def valid_v4_def is_multicast_v4_def broadcast_v4_def is_loopback_v4_def)
    ultimately have "unwraps (update ipnet_ref example_config ?p fixture_neg [q] w) (\<lambda>msg.
        length msg \<le> MAX_MESSAGE \<and> unwraps (u16b (drop 16 msg)) (\<lambda>l. unat l = length msg) \<and>
        unwraps (validate_update (drop 19 msg) fixture_neg) (\<lambda>a. a = Valid))"
      by (intro own_packet) (simp_all add: fixture_neg_def example_defs)
    then show ?thesis by (rule unwraps_mono) (auto elim: unwraps_mono)
  qed
  moreover have "list_all (\<lambda>v6. unwraps (end_of_rib v6) (\<lambda>msg. unwraps (validate_update (drop 19 msg) fixture_neg) (\<lambda>_. True))) [False, True]"
    by code_simp
  ultimately show ?thesis
    by (simp add: encode_ipv4_ipv6_announce_withdraw_and_eor_def Let_def net_wf_def)
qed

lemma largest_batch: maximum_ipv6_batch_fits_standard_message_size
proof -
  let ?p = "example_peer\<lparr>next_hop_v6 := Some 0x20010DB8000000000000000000000001,
    next_hop_v6_link_local := Some 0xFE800000000000000000000000000001\<rparr>"
  let ?ps = "replicate MAX_UPDATE_PREFIXES (NetV6 0x20010DB80000000000000000000000FF 128)"
  have "batch_ok ?p True w ?ps" for w
    by (simp add: batch_ok_def list_all_iff net_wf_def nh6_def is_ipv6_def MAX_UPDATE_PREFIXES_def)
  moreover have "next_hop_ok ?p True" by (simp add: next_hop_ok_def nh6_def)
  ultimately have "unwraps (update ipnet_ref example_config ?p fixture_neg ?ps w) (\<lambda>msg.
      length msg \<le> MAX_MESSAGE \<and> unwraps (u16b (drop 16 msg)) (\<lambda>l. unat l = length msg) \<and>
      unwraps (validate_update (drop 19 msg) fixture_neg) (\<lambda>a. a = Valid))" for w
    by (intro own_packet) (simp_all add: fixture_neg_def example_defs)
  then have "unwraps (update ipnet_ref example_config ?p fixture_neg ?ps w) (\<lambda>msg.
      length msg \<le> MAX_MESSAGE \<and> unwraps (validate_update (drop 19 msg) fixture_neg) (\<lambda>_. True))" for w
    by (rule unwraps_mono) (auto elim: unwraps_mono)
  then show ?thesis by (simp add: maximum_ipv6_batch_fits_standard_message_size_def Let_def)
qed

lemma fuzzing: arbitrary_protocol_input_does_not_panic
proof -
  have "update_prefixes ipnet_ref bs \<noteq> Panic" for bs using ref.update_prefixes_Ok [of bs] by auto
  then show ?thesis
    by (simp add: arbitrary_protocol_input_does_not_panic_def list_all_iff parse_open_no_panic validate_update_no_panic)
qed

lemmas test_eval = wire_eval acts_def received_update_def fixture_neg_def

lemma recovery: update_recovery_and_fatal_boundaries
  by (simp add: update_recovery_and_fatal_boundaries_def test_eval)
lemma external_only: as4_attributes_and_external_only_discards_preserve_updates
  by (simp add: as4_attributes_and_external_only_discards_preserve_updates_def test_eval)
lemma identifiers: open_accepts_integer_ids_and_equal_external_ids_only
  by (simp add: open_accepts_integer_ids_and_equal_external_ids_only_def test_eval example_defs)
lemma extended_accepted: extended_open_accepts_short_long_and_multiple_parameters
  by (simp add: extended_open_accepts_short_long_and_multiple_parameters_def extended_open_def test_eval example_defs)
lemma extended_rejected: extended_open_rejects_truncation_and_inconsistent_nested_lengths
  by (simp add: extended_open_rejects_truncation_and_inconsistent_nested_lengths_def extended_open_def test_eval example_defs)
lemma notifications: notifications_include_capabilities_and_offending_attributes
  by (simp add: notifications_include_capabilities_and_offending_attributes_def notification_data_def test_eval example_defs)
lemma unexpected_messages: fsm_notifications_identify_state_and_unexpected_message
  by (simp add: fsm_notifications_identify_state_and_unexpected_message_def notification_data_def test_eval unexpected_def)
lemma truncated_opens:
  "unwraps (open_msg example_config example_peer) (\<lambda>msg.
     list_all (\<lambda>l. is_err (parse_open (take l (drop 19 msg)) example_config example_peer)) [0..<length msg - 19])"
  by (simp add: test_eval example_defs)

lemma truncation: parsers_never_panic_on_truncated_input
proof -
  have "unwraps (update ipnet_ref example_config example_peer fixture_neg [NetV4 0x0A000000 8] False) (\<lambda>msg.
      list_all (\<lambda>l. returns (validate_update (take l (drop 19 msg)) fixture_neg)) [0..<length msg - 20])"
    using own_packet [of example_peer False False "[NetV4 0x0A000000 8]" fixture_neg example_config]
    by (rule unwraps_mono) (simp_all add: list_all_iff validate_update_no_panic batch_ok_def net_wf_def next_hop_ok_def encoding
        fixture_neg_def example_defs valid_v4_def is_multicast_v4_def broadcast_v4_def is_loopback_v4_def)
  then show ?thesis using truncated_opens
    by (simp add: parsers_never_panic_on_truncated_input_def list_all_iff validate_update_no_panic)
qed

lemma mp_orders: "mp_order False True" "mp_order True True" "mp_order False False" "mp_order True False"
  by (simp_all add: mp_order_def test_eval example_defs)


lemma multiprotocol_order: multiprotocol_nlri_is_first_on_wire_but_legacy_order_is_accepted
  using mp_orders
  by (simp add: multiprotocol_nlri_is_first_on_wire_but_legacy_order_is_accepted_def end_of_rib_def end_of_rib_body_def framing Let_def assert_that_def)

lemmas wire_tests = encodings legacy_paths open_negotiation fragments largest_batch fuzzing truncation recovery external_only
  identifiers extended_accepted extended_rejected multiprotocol_order notifications unexpected_messages

end
