(* ===== verification/Config_Tests.thy ===== *)
theory Config_Tests
  imports Conformance Cli
begin

text \<open>
  The unit tests of \<open>src/config.rs\<close> and \<open>src/cli.rs\<close>, translated, and that the model passes them. What
  the tests ask of the TOML parser and of the derived debug output is not part of the model; where a
  test reads a text into a configuration, the configuration stands for it.
\<close>

section \<open>The tests of the configuration\<close>

definition map_peer :: "(peer \<Rightarrow> peer) \<Rightarrow> config \<Rightarrow> config" where
  "map_peer f c = c\<lparr>peers := map f (peers c)\<rparr>"

definition map_kernel :: "(kernel \<Rightarrow> kernel) \<Rightarrow> config \<Rightarrow> config" where
  "map_kernel f c = c\<lparr>cfg_kernel := f (cfg_kernel c)\<rparr>"

abbreviation accepted :: "config \<Rightarrow> bool" where
  "accepted c \<equiv> unwraps (validate ipnet_ref c) (\<lambda>_. True)"

abbreviation refused :: "config \<Rightarrow> bool" where
  "refused c \<equiv> is_err (validate ipnet_ref c)"

text \<open>The two bytes of the letter e with acute accent.\<close>

definition e_acute :: string where
  "e_acute = [CHR 0xC3, CHR 0xA9]"

definition md5_keys_are_optional_bounded_by_bytes :: bool where
  "md5_keys_are_optional_bounded_by_bytes =
    (let with_key = (\<lambda>key. map_peer (\<lambda>p. p\<lparr>md5_password := Some key\<rparr>) example_config) in
     accepted example_config \<and>
     list_all (\<lambda>key. accepted (with_key key)) [''x'', replicate 80 (CHR ''x''), concat (replicate 40 e_acute)] \<and>
     list_all (\<lambda>key. refused (with_key key)) [[], replicate 81 (CHR ''x''), concat (replicate 41 e_acute)])"

definition test_acl :: acl where
  "test_acl = \<lparr>rules = [
     \<lparr>rule_action = Deny, rule_prefix = NetV4 0x0A010000 16, min_length = Some 16, max_length = Some 32\<rparr>,
     \<lparr>rule_action = Permit, rule_prefix = NetV4 0x0A000000 8, min_length = Some 24, max_length = Some 28\<rparr>,
     \<lparr>rule_action = Permit, rule_prefix = NetV6 0x20010DB8000000000000000000000000 32, min_length = None, max_length = None\<rparr>]\<rparr>"

definition acl_order_ranges_and_default_deny :: bool where
  "acl_order_ranges_and_default_deny =
    (list_all (permits ipnet_ref test_acl)
       [NetV4 0x0A020000 24, NetV4 0x0A020000 28, NetV6 0x20010DB8000000000000000000000000 32] \<and>
     list_all (\<lambda>p. \<not> permits ipnet_ref test_acl p)
       [NetV4 0x0A010000 24, NetV4 0x0A020000 29, NetV4 0x0A000000 8, NetV4 0 0, NetV6 0x20010DB8000000000000000000000000 48])"

definition mandatory_acl_and_ipv6_gate :: bool where
  "mandatory_acl_and_ipv6_gate =
    (accepted example_config \<and>
     refused (map_peer (\<lambda>p. p\<lparr>export_acl := ''missing''\<rparr>) example_config) \<and>
     refused (map_peer (\<lambda>p. p\<lparr>export_acl := ''export'', peer_ipv6 := True\<rparr>) example_config))"

definition router_ids_are_nonzero_integers_without_relaxing_addresses :: bool where
  "router_ids_are_nonzero_integers_without_relaxing_addresses =
    (list_all (\<lambda>id. accepted (example_config\<lparr>router_id := id\<rparr>)) [0x00000001, 0xE0000001, 0xFFFFFFFF] \<and>
     refused (example_config\<lparr>router_id := 0\<rparr>) \<and> \<not> valid_v4 0xE0000001 \<and> \<not> valid_v4 0xFFFFFFFF)"

definition timeout_bounds_reject_overflowing_toml_and_keep_valid_limits :: bool where
  "timeout_bounds_reject_overflowing_toml_and_keep_valid_limits =
    (unwraps_err (validate ipnet_ref (map_peer (\<lambda>p. p\<lparr>connect_timeout_secs := 9223372036854775807\<rparr>) example_config))
       (\<lambda>e. e = PeerTimeout (address example_peer) ''connect_timeout_secs'') \<and>
     list_all (\<lambda>v. refused (map_peer (\<lambda>p. p\<lparr>connect_timeout_secs := v\<rparr>) example_config) \<and>
         refused (map_peer (\<lambda>p. p\<lparr>write_timeout_secs := v\<rparr>) example_config) \<and>
         refused (map_kernel (\<lambda>k. k\<lparr>reconcile_interval_secs := v\<rparr>) example_config) \<and>
         refused (map_kernel (\<lambda>k. k\<lparr>stale_timeout_secs := v\<rparr>) example_config) \<and>
         refused (map_kernel (\<lambda>k. k\<lparr>dump_timeout_secs := v\<rparr>) example_config))
       [0, MAX_TIMEOUT_SECS + 1, 9223372036854775807, 18446744073709551615] \<and>
     list_all (\<lambda>v. accepted (map_kernel (\<lambda>k. k\<lparr>reconcile_interval_secs := v\<rparr>)
         (map_peer (\<lambda>p. p\<lparr>connect_timeout_secs := v, write_timeout_secs := v\<rparr>) example_config))) [1, MAX_TIMEOUT_SECS] \<and>
     (let c = map_kernel (\<lambda>k. k\<lparr>stale_timeout_secs := MAX_TIMEOUT_SECS, dump_timeout_secs := MAX_TIMEOUT_SECS - 1\<rparr>) example_config in
      accepted c \<and> refused (map_kernel (\<lambda>k. k\<lparr>dump_timeout_secs := MAX_TIMEOUT_SECS\<rparr>) c)))"

section \<open>The tests of the command line\<close>

definition defaults_and_aliases :: bool where
  "defaults_and_aliases =
    (unwraps (parse_command []) (\<lambda>c. c = Run ''/etc/ubgp.toml'' False False False) \<and>
     list_all (\<lambda>vs. unwraps (parse_command vs) (\<lambda>c. c = Run ''custom.toml'' True False False))
       [[''-c'', ''custom.toml'', ''-d''], [''--daemon'', ''--config=custom.toml'']] \<and>
     unwraps (parse_command [''--daemon'', ''--debug'']) (\<lambda>c. case c of Run path daemon debug check \<Rightarrow> daemon \<and> debug | _ \<Rightarrow> False) \<and>
     unwraps (parse_command [''--help'']) (\<lambda>c. c = Help) \<and> unwraps (parse_command [''--version'']) (\<lambda>c. c = Version))"

definition reject_missing_values_and_unknown_flags :: bool where
  "reject_missing_values_and_unknown_flags =
     list_all (\<lambda>vs. is_err (parse_command vs)) [[''--config''], [''-c'', ''--daemon''], [''--config=''], [''--bogus'']]"

definition paths_need_not_be_utf8 :: bool where
  "paths_need_not_be_utf8 =
    (let path = ''config-'' @ [CHR 0xFF] @ ''.toml'' in
     unwraps (parse_command [''-c'', path]) (\<lambda>c. c = Run path False False False))"

section \<open>The model passes\<close>

lemmas config_eval = validate_def global_checks_def acl_checks_def rule_checks_def peer_checks_def endpoint_key_def valid_ip_def
  is_some_and_def is_none_or_def example_defs kernel_default_def management_default_def map_peer_def map_kernel_def
  MAX_TIMEOUT_SECS_def TCP_MD5SIG_MAXKEYLEN_def IFNAMSIZ_def valid_router_id_def valid_v4_def is_multicast_v4_def broadcast_v4_def
  is_loopback_v4_def nh4_def nh6_def ipnet_ref_def net_mask_def mask_top_def unwrap_or_def word_le_nat_alt word_less_nat_alt Let_def

lemma keys_bounded: md5_keys_are_optional_bounded_by_bytes
  by (simp add: md5_keys_are_optional_bounded_by_bytes_def e_acute_def config_eval length_concat sum_list_replicate)

lemma acl_order: acl_order_ranges_and_default_deny
  by (simp add: acl_order_ranges_and_default_deny_def test_acl_def permits_def rule_matches_def config_eval)

lemma acl_mandatory: mandatory_acl_and_ipv6_gate
  by (simp add: mandatory_acl_and_ipv6_gate_def config_eval)

lemma router_ids: router_ids_are_nonzero_integers_without_relaxing_addresses
  by (simp add: router_ids_are_nonzero_integers_without_relaxing_addresses_def config_eval)

lemma timeout_bounds: timeout_bounds_reject_overflowing_toml_and_keep_valid_limits
  by (simp add: timeout_bounds_reject_overflowing_toml_and_keep_valid_limits_def config_eval)

lemma command_lines: defaults_and_aliases reject_missing_values_and_unknown_flags paths_need_not_be_utf8
  by (simp_all add: defaults_and_aliases_def reject_missing_values_and_unknown_flags_def paths_need_not_be_utf8_def
      parse_command_def arg_defaults_def strip_prefix_def path_value_def)

lemmas config_tests = keys_bounded acl_order acl_mandatory router_ids timeout_bounds command_lines

end
