(* ===== verification/Kernel_Tests.thy ===== *)
theory Kernel_Tests
  imports Conformance Freshness
begin

text \<open>
  The unit tests of \<open>src/netlink.rs\<close>, translated, and that the model passes them: in both byte orders,
  and from any instant. The scale benchmark is among them, without its timing.
\<close>

section \<open>The tests\<close>

text \<open>\<open>i32::to_ne_bytes\<close>, and the code of \<open>EINVAL\<close>.\<close>

definition i32_bytes :: "bool \<Rightarrow> int \<Rightarrow> bytes" where
  "i32_bytes le i = ne_bytes le 4 (unat (word_of_int i :: u32))"

definition EINVAL :: int where
  "EINVAL = 22"

definition empty_table_status_is_distinct_from_failed_partial_dump :: "bool \<Rightarrow> bool" where
  "empty_table_status_is_distinct_from_failed_partial_dump le =
    (unwraps (dump_status le [] False) (\<lambda>_. True) \<and>
     unwraps (dump_status le (i32_bytes le 0) True) (\<lambda>_. True) \<and>
     unwraps (dump_status le (i32_bytes le (- ENOENT)) False) (\<lambda>_. True) \<and>
     is_err (dump_status le (i32_bytes le (- ENOENT)) True) \<and>
     is_err (dump_status le (i32_bytes le (- EINVAL)) False) \<and>
     is_err (dump_status le [0] False))"

definition failed_refreshes_do_not_extend_stale_deadline :: "nat \<Rightarrow> bool" where
  "failed_refreshes_do_not_extend_stale_deadline now =
    (let ex = [(''export'', [NetV4 0x0A000000 24])];
         tx = \<lparr>w_value = ex, w_version = 0\<rparr>;
         health = \<lparr>dirty_since = None, withdrawn = False\<rparr>;
         health = invalidate now health;
         (health, tx) = expire (now + 2000) 3000 health tx in
     w_value tx = ex \<and>
     (let health = invalidate (now + 2000) health;
          (health, tx) = expire (now + 3000) 3000 health tx in
      w_value tx = [] \<and>
      (let (health, tx) = publish (now + 4000) False ex health tx;
           (health, tx) = expire (now + 100000) 3000 health tx in
       w_value tx = ex)))"

definition rt :: "bool \<Rightarrow> u32 \<Rightarrow> ip_net \<Rightarrow> bytes" where
  "rt le table net =
    (let ip = octets (net_addr net);
         b = ((replicate 12 0)[0 := if length ip = 4 then 2 else 10, 1 := net_prefix_len net, 7 := 1])
     in b @ ne_bytes le 2 8 @ ne_bytes le 2 15 @ ne_bytes le 4 (unat table) @
       ne_bytes le 2 (length ip + 4) @ ne_bytes le 2 1 @ ip)"

definition selected_tables_families_defaults_and_route_types :: "bool \<Rightarrow> bool" where
  "selected_tables_families_defaults_and_route_types le =
     list_all (\<lambda>p. let b = rt le 1000 p in
       unwraps (route ipnet_ref le b [1000]) (\<lambda>r. r = Some p) \<and> unwraps (route ipnet_ref le b [254]) (\<lambda>r. r = None) \<and>
       unwraps (route ipnet_ref le (b[7 := 6]) [1000]) (\<lambda>r. r = None))
     [NetV4 0 0, NetV4 0x0A010000 16, NetV6 0 0, NetV6 0x20010DB8000000000000000000000000 32]"

text \<open>\<open>filter_map\<close> over the decoded rows, into a set.\<close>

definition decoded :: "bool \<Rightarrow> u32 list \<Rightarrow> bytes list \<Rightarrow> ip_net set" where
  "decoded le tbls rows = set (List.map_filter (\<lambda>b. case route ipnet_ref le b tbls of Ok r \<Rightarrow> r | _ \<Rightarrow> None) rows)"

definition duplicates_across_tables_do_not_withdraw_remaining_route :: "bool \<Rightarrow> bool" where
  "duplicates_across_tables_do_not_withdraw_remaining_route le =
    (let rows = [rt le 100 (NetV4 0x0A000000 24), rt le 200 (NetV4 0x0A000000 24)] in
     list_all (\<lambda>b. unwraps (route ipnet_ref le b [100, 200]) (\<lambda>_. True)) rows \<and>
     decoded le [100, 200] rows = decoded le [100, 200] (drop 1 rows))"

definition malformed_datagrams_and_attributes_are_errors :: "bool \<Rightarrow> bool" where
  "malformed_datagrams_and_attributes_are_errors le =
    (list_all (\<lambda>n. is_err (snd (messages le (\<lambda>_ _. ((), Ok ())) (replicate n 0) ()))) [1..<16] \<and>
     is_err (route ipnet_ref le ((rt le 254 (NetV4 0x0A000000 8))[12 := 255]) [254]))"

definition million_route_snapshot :: "bool \<Rightarrow> bool" where
  "million_route_snapshot le =
    (let nets = map (\<lambda>n. NetV4 (0x0A000000 + of_nat n) 32) [0..<1000000] in
     (\<forall>p \<in> set nets. route ipnet_ref le (rt le 254 p) [254] = Ok (Some p)) \<and> card (set nets) = 1000000)"

section \<open>The model passes\<close>

lemma zeros: "replicate 4 (0 :: u8) = [0, 0, 0, 0]"
  by (simp add: numeral_eq_Suc)

lemma rt_rtmsg:
  "rt le table q = rtmsg le q 0 1 ([] @ [(15, ne_bytes le 4 (unat table))] @ [] @ [(1, octets (net_addr q))] @ [])"
proof -
  have "length (octets (net_addr q)) = (if is_ipv6 (net_addr q) then 16 else 4)" by (cases q) simp_all
  moreover have "(replicate 12 (0 :: u8))[0 := f, 1 := l, 7 := 1] = [f, l, 0, 0, 0, 0, 0, 1, 0, 0, 0, 0]" for f l
    by (simp add: numeral_eq_Suc)
  ultimately show ?thesis
    by (simp add: zeros rt_def Let_def rtmsg_def rta_def padding_def align_def AF_INET_def AF_INET6_def)
qed

lemma route_rt: "net_wf q \<Longrightarrow> net_mask q = q \<Longrightarrow> route ipnet_ref le (rt le table q) tbls = Ok (if table \<in> set tbls then Some q else None)"
  unfolding rt_rtmsg by (rule ref.route_rtmsg) simp_all


lemma dump_statuses: "empty_table_status_is_distinct_from_failed_partial_dump le"
proof -
  have "ne_value le (i32_bytes le i) = unat (word_of_int i :: u32)" "length (i32_bytes le i) = 4" for i
    using unat_u32_less [of "word_of_int i"] by (simp_all add: i32_bytes_def ne_value_ne_bytes)
  then have "i32n le (i32_bytes le i) = Ok (sint (word_of_int i :: u32))" for i
    by (simp add: i32n_def u32n_def slice_range_def)
  then show ?thesis
    using \<open>\<And>i. length (i32_bytes le i) = 4\<close>
    by (auto simp: empty_table_status_is_distinct_from_failed_partial_dump_def dump_status_def ensure_def ENOENT_def EINVAL_def
        dest: arg_cong [of _ _ length])
qed

lemma stale_deadline: "failed_refreshes_do_not_extend_stale_deadline now"
  by (simp add: failed_refreshes_do_not_extend_stale_deadline_def invalidate_def expire_def publish_def send_replace_def
      exports_eq_def is_some_and_def unwrap_or_def Let_def)

lemma other_kinds:
  assumes "12 \<le> length b" and "b ! 0 = 2 \<or> b ! 0 = 10" and "b ! 7 \<noteq> 1"
  shows "route N le b tbls = Ok None"
  using assms by (auto simp: route_def index_def slice_from_def u32n_def slice_range_def AF_INET_def AF_INET6_def ensure_def)

lemma route_types: "selected_tables_families_defaults_and_route_types le"
proof -
  have "route ipnet_ref le ((rt le 1000 q)[7 := 6]) [1000] = Ok None" for q
    by (rule other_kinds) (cases q; simp add: rt_def Let_def nth_append)+
  moreover have "net_wf q \<and> net_mask q = q"
    if "q \<in> set [NetV4 0 0, NetV4 0x0A010000 16, NetV6 0 0, NetV6 0x20010DB8000000000000000000000000 32]" for q
    using that by (auto simp: net_wf_def net_mask_def mask_top_def)
  ultimately show ?thesis
    by (simp add: selected_tables_families_defaults_and_route_types_def Let_def route_rt)
qed

lemma duplicates: "duplicates_across_tables_do_not_withdraw_remaining_route le"
proof -
  have "net_wf (NetV4 0x0A000000 24)" "net_mask (NetV4 0x0A000000 24) = NetV4 0x0A000000 24"
    by (simp_all add: net_wf_def net_mask_def mask_top_def)
  then show ?thesis
    by (auto simp: duplicates_across_tables_do_not_withdraw_remaining_route_def Let_def route_rt decoded_def List.map_filter_simps)
qed

lemma short_datagrams: "1 \<le> n \<Longrightarrow> n < 16 \<Longrightarrow> is_err (snd (messages le f (replicate n 0) st))"
  by (subst messages.simps) (simp add: ensure_def HEADER_def)

lemma malformed: "malformed_datagrams_and_attributes_are_errors le"
proof -
  let ?b = "(rt le 254 (NetV4 0x0A000000 8))[12 := 255]"
  have "is_err (route ipnet_ref le ?b [254])"
    unfolding rt_rtmsg
    by (cases le) (simp_all add: rtmsg_def rta_def padding_def align_def ne_bytes_def be_bytes_2 be_bytes_4 zeros reading route_def u16n_def
        u32n_def ne_value_def AF_INET_def AF_INET6_def octets_v4_def route_attrs.simps [of le w "x # xs" v for le w x xs v])
  then show ?thesis
    by (simp add: malformed_datagrams_and_attributes_are_errors_def list_all_iff short_datagrams)
qed

lemma million: "million_route_snapshot le"
proof -
  let ?net = "\<lambda>n :: nat. NetV4 (0x0A000000 + of_nat n) 32"
  have "net_wf (?net n) \<and> net_mask (?net n) = ?net n" for n
    by (simp add: net_wf_def net_mask_def mask_top_def)
  then have "route ipnet_ref le (rt le 254 (?net n)) [254] = Ok (Some (?net n))" for n
    by (simp add: route_rt)
  moreover have "inj_on ?net {0..<1000000}"
    by (rule inj_onI) (simp add: word_of_nat_eq_iff take_bit_nat_eq_self)
  then have "card (?net ` {0..<1000000}) = 1000000" by (simp add: card_image)
  ultimately show ?thesis by (simp add: million_route_snapshot_def Let_def)
qed

lemmas kernel_tests = dump_statuses stale_deadline route_types duplicates malformed million

end
