(* ===== verification/Bgp_Tests.thy ===== *)
theory Bgp_Tests
  imports Conformance Duplex Connection
begin

text \<open>
  The unit tests of \<open>src/bgp.rs\<close>, translated, and that the model passes them. The in-memory pipe between a
  writer and the test is the log of the packets written; the paused clock of the tests advances by ticks.
\<close>

section \<open>The tests\<close>

text \<open>The interfaces of the machine a test runs on.\<close>

definition test_interfaces :: "string \<Rightarrow> u32" where
  "test_interfaces name = (if name = ''eth0'' then 2 else 0)"

definition selection_preserves_outgoing_failure_when_no_peer_connects :: "open_env \<Rightarrow> bool" where
  "selection_preserves_outgoing_failure_when_no_peer_connects env =
    (let p = example_peer\<lparr>interface := ''ubgp-missing'', connect_timeout_secs := 0\<rparr> in
     unwraps (choose_init p 0) (\<lambda>ch.
       case choose_step example_config p (Joined (fst (outgoing test_interfaces False example_config p env)) 0) ch of
         Waiting ch \<Rightarrow> choose_enabled (Deadline 2000) ch \<and>
           choose_step example_config p (Deadline 2000) ch = GaveUp (NoUsable [SetupError NoInterface] False)
       | _ \<Rightarrow> False))"

definition n_fixture :: negotiated where
  "n_fixture = \<lparr>neg_router_id = 0xC0000202, hold = 3, asn4 = True, internal = False, neg_ipv4 = True, neg_ipv6 = False\<rparr>"

definition changing_snapshot_preserves_withdrawals_and_family_gate :: bool where
  "changing_snapshot_preserves_withdrawals_and_family_gate =
    (let a = NetV4 0x0A000000 24; b = NetV4 0x0A010000 24; c = NetV4 0x0A020000 24;
         advertised = [a, b];
         desired = [b, c, NetV6 0x20010DB8000000000000000000000000 32];
         plan = plan_new advertised desired n_fixture [];
         refresh = plan_new advertised desired n_fixture desired in
     (case plan_next plan of
        Some (batch, plan) \<Rightarrow> batch = (True, [a]) \<and>
          (case plan_next plan of
             Some (batch, plan) \<Rightarrow> batch = (False, [c]) \<and> plan_next plan = None
           | None \<Rightarrow> False)
      | None \<Rightarrow> False) \<and>
     length (withdrawals refresh) = 1 \<and> length (additions refresh) = 2)"

text \<open>The pipe of 64 bytes does not take the packet before the deadline, however late that is observed.\<close>

definition slow_writer_has_a_deadline :: "nat \<Rightarrow> bool" where
  "slow_writer_has_a_deadline late = unwraps_err (send (Some (1001 + late)) 1) (\<lambda>e. e = SendDeadline)"

definition hold_timer_expires_with_partial_frame :: "nat \<Rightarrow> bool" where
  "hold_timer_expires_with_partial_frame late =
     unwraps_err (receive ipnet_ref n_fixture [(3001 + late, 3001 + late)] [] (receive_init 0 n_fixture))
       (\<lambda>e. case e of Protocol pe \<Rightarrow> pe_code pe = 4 | _ \<Rightarrow> False)"

text \<open>The writer runs until it waits for an event; what is read is what it wrote since the state \<open>s\<close>.\<close>

definition settles :: "config \<Rightarrow> peer \<Rightarrow> negotiated \<Rightarrow> tstate \<Rightarrow> (tstate \<Rightarrow> bool) \<Rightarrow> bool" where
  "settles c p neg s f =
     unwraps (transmit_run ipnet_ref c p neg 40 s) (\<lambda>s. transmit_own ipnet_ref c p neg s = None \<and> f s)"

definition unread :: "tstate \<Rightarrow> tstate \<Rightarrow> bytes list" where
  "unread s s' = map snd (drop (length (t_log s)) (t_log s'))"

definition sleeps :: "nat \<Rightarrow> tstate \<Rightarrow> tstate" where
  "sleeps ms s = s\<lparr>t_clock := t_clock s + ms\<rparr>"

definition writer_sends_initial_routes_and_later_withdrawal :: bool where
  "writer_sends_initial_routes_and_later_withdrawal =
    (let c = example_config; p = example_peer;
         s0 = transmit_init 0 p n_fixture \<lparr>w_value = [(export_acl p, [NetV4 0xC6336400 24])], w_version = 0\<rparr> in
     settles c p n_fixture s0 (\<lambda>s1.
       list_all2 (\<lambda>packet check. unwraps (read_frame packet) (\<lambda>((kind, body), _). check kind body)) (unread s0 s1)
         [\<lambda>kind body. kind = 2 \<and> take 2 body = [0, 0], \<lambda>kind body. body = [0, 0, 0, 0]] \<and>
       settles c p n_fixture (s1\<lparr>t_exports := send_replace [] (t_exports s1)\<rparr>) (\<lambda>s2.
         list_all2 (\<lambda>packet check. unwraps (read_frame packet) (\<lambda>((kind, body), _). check kind body)) (unread s1 s2)
           [\<lambda>kind body. take 2 body = [0, 4]])))"

definition recoverable_update_does_not_stop_receive_loop :: bool where
  "recoverable_update_does_not_stop_receive_loop =
    unwraps (frame UPDATE [0, 0, 0, 0, 24, 10, 1, 0]) (\<lambda>update.
    unwraps (frame KEEPALIVE []) (\<lambda>keepalive.
    unwraps (notification 6 0 []) (\<lambda>notify.
      unwraps_err (receive ipnet_ref n_fixture [(0, 0), (0, 0), (0, 0)] (update @ keepalive @ notify) (receive_init 0 n_fixture))
        (\<lambda>e. e = PeerNotification 6 0))))"

text \<open>Read a complete family export and return the reachable prefixes it carried, and what is not read yet.\<close>

fun exported :: "bool \<Rightarrow> bytes list \<Rightarrow> ip_net set \<Rightarrow> (error, ip_net set \<times> bytes list) outcome" where
  "exported v6 [] prefixes = Panic"
| "exported v6 (packet # reader) prefixes =
     bindr (read_frame packet) (\<lambda>((kind, body), _).
     bindr (end_of_rib v6) (\<lambda>eor.
     if kind \<noteq> UPDATE then Panic
     else if body = drop 19 eor then Ok (prefixes, reader)
     else bindr (update_prefixes ipnet_ref body) (\<lambda>ps. exported v6 reader (prefixes \<union> set ps))))"

definition refresh_during_cooldown_is_delayed_and_replayed :: bool where
  "refresh_during_cooldown_is_delayed_and_replayed =
    (let c = example_config; p = example_peer; neg = n_fixture\<lparr>hold := 0\<rparr>; prefixes = [NetV4 0x0A010000 24];
         s0 = transmit_init 0 p neg \<lparr>w_value = [(export_acl p, prefixes)], w_version = 0\<rparr>;
         whole = (\<lambda>s s'. exported False (unread s s') {} = Ok (set prefixes, [])) in
     settles c p neg s0 (\<lambda>s1. whole s0 s1 \<and>
       settles c p neg (refresh_request False s1) (\<lambda>s2. whole s1 s2 \<and>
         settles c p neg (refresh_request False (refresh_request False s2)) (\<lambda>s3. unread s2 s3 = [] \<and>
           settles c p neg (sleeps 999 s3) (\<lambda>s4. unread s3 s4 = [] \<and>
             settles c p neg (sleeps 1 s4) (\<lambda>s5. whole s4 s5 \<and>
               settles c p neg (sleeps 2000 s5) (\<lambda>s6. unread s5 s6 = [])))))))"

definition refresh_replays_only_requested_family :: bool where
  "refresh_replays_only_requested_family =
    (let c = example_config; p = example_peer\<lparr>next_hop_v6 := Some 0x20010DB8000000000000000000000001\<rparr>;
         neg = n_fixture\<lparr>hold := 0, neg_ipv6 := True\<rparr>;
         v6 = NetV6 0x20010DB8000000000000000000000000 32;
         s0 = transmit_init 0 p neg \<lparr>w_value = [(export_acl p, [NetV4 0x0A010000 24, v6])], w_version = 0\<rparr> in
     settles c p neg s0 (\<lambda>s1. unwraps (exported True (unread s0 s1) {}) (\<lambda>_. True) \<and>
       unwraps (frame ROUTE_REFRESH [0, 2, 0, 1]) (\<lambda>request.
       unwraps (notification 6 0 []) (\<lambda>notify.
       unwraps (receive ipnet_ref (n_fixture\<lparr>neg_ipv6 := True\<rparr>) [(0, 0)] (request @ notify) (receive_init 0 n_fixture)) (\<lambda>(st, rest).
         receive ipnet_ref (n_fixture\<lparr>neg_ipv6 := True\<rparr>) [(0, 0)] rest st = Err (PeerNotification 6 0) \<and>
         settles c p neg (fold refresh_request (r_requests st) s1) (\<lambda>s2.
           exported True (unread s1 s2) {} = Ok ({v6}, []) \<and>
           settles c p neg (sleeps 2000 s2) (\<lambda>s3. unread s2 s3 = [])))))))"

definition snapshot_change_preserves_unfinished_refresh :: bool where
  "snapshot_change_preserves_unfinished_refresh =
    (let c = example_config; p = example_peer; neg = n_fixture\<lparr>hold := 0\<rparr>;
         prefixes = map (\<lambda>i. NetV4 (0x0A000000 + of_nat i) 32) [0..<600];
         changed = prefixes @ [NetV4 0x0A630001 32];
         s0 = transmit_init 0 p neg \<lparr>w_value = [(export_acl p, prefixes)], w_version = 0\<rparr> in
     settles c p neg s0 (\<lambda>s1. exported False (unread s0 s1) {} = Ok (set prefixes, []) \<and>
       (case drive ipnet_ref c p neg [Requests False, Own, Own, Own, Own, Own] s1 of
          None \<Rightarrow> False
        | Some s2 \<Rightarrow> list_all2 (\<lambda>packet check. check packet) (unread s1 s2) [\<lambda>first.
            unwraps (read_frame first) (\<lambda>((_, body), _).
            unwraps (update_prefixes ipnet_ref body) (\<lambda>replayed.
              card (set replayed) = MAX_UPDATE_PREFIXES \<and>
              settles c p neg (sleeps 150 (s2\<lparr>t_exports := send_replace [(export_acl p, changed)] (t_exports s2)\<rparr>)) (\<lambda>s3.
                unwraps (exported False (unread s2 s3) {}) (\<lambda>(more, _). set replayed \<union> more = set changed))))])))"

definition collision_uses_full_asn_only_when_identifiers_match :: bool where
  "collision_uses_full_asn_only_when_identifiers_match =
    (let c = example_config\<lparr>asn := 4200000001\<rparr>; p = example_peer\<lparr>remote_asn := 4200000002\<rparr>;
         negotiated = n_fixture\<lparr>neg_router_id := router_id c\<rparr> in
     prefer_incoming c p negotiated \<and>
     (let c = c\<lparr>asn := remote_asn p\<rparr>; p = p\<lparr>remote_asn := 4200000001\<rparr> in
      \<not> prefer_incoming c p negotiated \<and>
      prefer_incoming c p (negotiated\<lparr>neg_router_id := 0xFFFFFFFF\<rparr>) \<and>
      \<not> prefer_incoming c p (negotiated\<lparr>neg_router_id := 0x00000001\<rparr>)))"

definition unchecked_timeout_returns_error_instead_of_panicking :: "nat \<Rightarrow> bool" where
  "unchecked_timeout_returns_error_instead_of_panicking now =
     list_all (\<lambda>seconds. unwraps_err (choose_init (example_peer\<lparr>connect_timeout_secs := seconds\<rparr>) now)
       (\<lambda>e. e = SelectionOverflow \<or> e = SelectionRange)) [0x7FFFFFFFFFFFFFFF, 0xFFFFFFFFFFFFFFFF]"

definition established_state_reports_unexpected_open_on_wire :: bool where
  "established_state_reports_unexpected_open_on_wire =
    unwraps (open_msg example_config example_peer) (\<lambda>input.
    unwraps_err (receive ipnet_ref n_fixture [(0, 0)] input (receive_init 0 n_fixture)) (\<lambda>e.
    unwraps (report e) (\<lambda>sent. case sent of
      Some packet \<Rightarrow> unwraps (read_frame packet) (\<lambda>(packet, _). packet = (3, [5, 3, 1]))
    | None \<Rightarrow> False)))"

section \<open>The model passes\<close>

lemma transmit_run_numeral:
  "transmit_run N cfg p neg (numeral k) s = (case transmit_own N cfg p neg s of
     None \<Rightarrow> Ok s | Some r \<Rightarrow> bindr r (transmit_run N cfg p neg (pred_numeral k)))"
  by (simp add: numeral_eq_Suc)

lemmas reading_eval = wire_eval read_frame_def read_exact_def valid_length_def n_fixture_def KEEPALIVE_def ROUTE_REFRESH_def

lemma selection: "selection_preserves_outgoing_failure_when_no_peer_connects env"
  by (simp add: selection_preserves_outgoing_failure_when_no_peer_connects_def test_interfaces_def choose_init_def outgoing_def connect_def
      if_index_def ensure_def Let_def)

lemma changing_snapshot: changing_snapshot_preserves_withdrawals_and_family_gate
  by (simp add: changing_snapshot_preserves_withdrawals_and_family_gate_def n_fixture_def plan_new_def plan_next_def neg_enabled_def is_v6_def
      MAX_UPDATE_PREFIXES_def Let_def)

lemma slow_writer: "slow_writer_has_a_deadline late"
  by (simp add: slow_writer_has_a_deadline_def send_def ensure_def)

lemma hold_timer: "hold_timer_expires_with_partial_frame late"
  by (simp add: hold_timer_expires_with_partial_frame_def receive_init_def hold_ms_def hold_expired_def n_fixture_def)

lemma recoverable: recoverable_update_does_not_stop_receive_loop
  by (simp add: recoverable_update_does_not_stop_receive_loop_def reading_eval receive_packet_def receive_init_def hold_ms_def
      warn_fields_def unexpected_def)

lemma collisions: collision_uses_full_asn_only_when_identifiers_match
  by (simp add: collision_uses_full_asn_only_when_identifiers_match_def prefer_incoming_def n_fixture_def example_defs)

lemma unchecked_timeouts: "unchecked_timeout_returns_error_instead_of_panicking now"
  by (simp add: unchecked_timeout_returns_error_instead_of_panicking_def choose_init_def ensure_def)

lemma unexpected_open: established_state_reports_unexpected_open_on_wire
  by (simp add: established_state_reports_unexpected_open_on_wire_def reading_eval receive_packet_def receive_init_def hold_ms_def
      unexpected_def report_def example_defs)


lemmas writer_eval = settles_def transmit_run_numeral unread_def sleeps_def lap_simps transmit_init_def transmit_changed_def
  plan_next_def neg_enabled_def is_v6_def reading_eval frame_bytes_def example_defs

lemma initial_routes: writer_sends_initial_routes_and_later_withdrawal
  by (simp add: writer_sends_initial_routes_and_later_withdrawal_def writer_eval)

lemma cooldown: refresh_during_cooldown_is_delayed_and_replayed
  by (simp add: refresh_during_cooldown_is_delayed_and_replayed_def writer_eval)

lemma zeros_12: "replicate 12 (0 :: u8) = [0, 0, 0, 0, 0, 0, 0, 0, 0, 0, 0, 0]"
  by code_simp

lemma documentation_v6:
  "ipv6_of_octets (take 4 (octets_v6 0x20010DB8000000000000000000000000) @ replicate 12 0) = 0x20010DB8000000000000000000000000"
  by (simp add: octets_v6_def ipv6_of_octets_def be_value_def be_bytes_16 be_bytes_4 zeros_12)

lemma requested_family: refresh_replays_only_requested_family
  by (simp add: refresh_replays_only_requested_family_def writer_eval receive_packet_def receive_init_def hold_ms_def refresh_family_def
      unexpected_def documentation_v6)

text \<open>Batches of routes of one family, and the packets for them.\<close>

lemma fill_batch_v4:
  assumes "\<forall>q \<in> set queue. \<not> is_v6 q"
  shows "fill_batch False batch queue =
    (batch @ take (MAX_UPDATE_PREFIXES - length batch) queue, drop (MAX_UPDATE_PREFIXES - length batch) queue)"
  using assms by (induction queue arbitrary: batch) (auto simp: take_Cons' drop_Cons')

lemma plan_next_v4:
  assumes "\<forall>q \<in> set (b @ queue). \<not> is_v6 q" and "b \<noteq> []" and "length b = MAX_UPDATE_PREFIXES \<or> length b \<le> MAX_UPDATE_PREFIXES \<and> queue = []"
  shows "plan_next \<lparr>withdrawals = [], additions = b @ queue\<rparr> = Some ((False, b), \<lparr>withdrawals = [], additions = queue\<rparr>)"
proof -
  obtain q qs where "b @ queue = q # qs" "\<not> is_v6 q" using assms(1,2) by (cases b) auto
  moreover have "fill_batch False [] (b @ queue) = (b, queue)" using assms(3) by (auto simp: fill_batch_v4 [OF assms(1)])
  ultimately show ?thesis by (auto simp: plan_next_def Let_def)
qed

lemma record_announced:
  "distinct (adv @ b) \<Longrightarrow> record_batch False b adv = rev b @ adv" "set b \<subseteq> set adv \<Longrightarrow> record_batch False b adv = adv"
  by (induction b arbitrary: adv) (auto simp: record_batch_def List.insert_def)

lemma replay_rest: "distinct (b @ r) \<Longrightarrow> forget_replay b (b @ r) = r" "forget_replay b [] = []"
  by (induction b) (auto simp: forget_replay_def removeAll_id)

lemma one_family: "\<forall>q \<in> set qs. \<not> is_v6 q \<Longrightarrow> sort_key is_v6 qs = qs"
  by (induction qs) (auto simp: insort_is_Cons)

lemma plan_new_v4:
  assumes "\<forall>q \<in> set target. \<not> is_v6 q" and "neg_ipv4 neg" and "set adv \<subseteq> set target"
  shows "plan_new adv target neg replay = \<lparr>withdrawals = [], additions = filter (\<lambda>q. q \<in> set replay \<or> q \<notin> set adv) target\<rparr>"
proof -
  have "neg_enabled neg q" if "q \<in> set target" for q
    using assms(1,2) that by (cases q) (auto simp: neg_enabled_def is_v6_def)
  then have "filter (\<lambda>q. q \<notin> set target \<or> \<not> neg_enabled neg q) adv = []"
      "filter (\<lambda>q. neg_enabled neg q \<and> (q \<in> set replay \<or> q \<notin> set adv)) target = filter (\<lambda>q. q \<in> set replay \<or> q \<notin> set adv) target"
    using assms(3) by (auto simp: filter_empty_conv intro: filter_cong)
  then show ?thesis using assms(1) by (simp add: plan_new_def one_family)
qed

text \<open>
  A writer that has three full batches to announce, replays them, and is told of one more route after
  the first batch of the replay.
\<close>

definition batch_packets :: "negotiated \<Rightarrow> (ip_net list \<Rightarrow> bytes) \<Rightarrow> ip_net list \<Rightarrow> bool" where
  "batch_packets neg pkt b = (update ipnet_ref example_config example_peer neg b False = Ok (pkt b) \<and>
     (\<exists>body. read_frame (pkt b) = Ok ((UPDATE, body), []) \<and> update_prefixes ipnet_ref body = Ok b \<and> body \<noteq> [0, 0, 0, 0]))"

lemma exported_batch: "batch_packets neg pkt b \<Longrightarrow> exported False (pkt b # rs) acc = exported False rs (acc \<union> set b)"
  by (auto simp: batch_packets_def end_of_rib_def end_of_rib_body_def framing assert_that_def)

lemma exported_end: "exported False (frame_bytes (UPDATE, end_of_rib_body False) # rs) acc = Ok (acc, rs)"
  by (simp add: frame_bytes_def reading_eval)

lemma plan_continued:
  assumes "distinct (A @ B @ C @ [x])" and "\<forall>q \<in> set (A @ B @ C @ [x]). \<not> is_v6 q" and "neg_ipv4 neg"
  shows "plan_new (rev C @ rev B @ rev A) (A @ B @ C @ [x]) neg (B @ C) = \<lparr>withdrawals = [], additions = B @ C @ [x]\<rparr>"
proof -
  let ?P = "\<lambda>q. q \<in> set (B @ C) \<or> q \<notin> set (rev C @ rev B @ rev A)"
  have "set (rev C @ rev B @ rev A) \<subseteq> set (A @ B @ C @ [x])" by auto
  note plan_new_v4 [OF assms(2,3) this, of "B @ C"]
  moreover have "filter ?P A = []" using assms(1) by (auto simp: filter_empty_conv)
  moreover have "filter ?P (B @ C @ [x]) = B @ C @ [x]" using assms(1) by (intro filter_True) auto
  ultimately show ?thesis by (simp only: filter_append [of ?P A] append_Nil)
qed

lemma unfinished:
  fixes neg :: negotiated
  defines "neg \<equiv> n_fixture\<lparr>hold := 0\<rparr>"
  assumes dist: "distinct (A @ B @ C @ [x])" and v4: "\<forall>q \<in> set (A @ B @ C @ [x]). \<not> is_v6 q"
    and len: "length A = MAX_UPDATE_PREFIXES" "length B = MAX_UPDATE_PREFIXES" "length C = MAX_UPDATE_PREFIXES"
    and pkts: "batch_packets neg pkt A" "batch_packets neg pkt B" "batch_packets neg pkt C" "batch_packets neg pkt [x]"
  shows "settles example_config example_peer neg
      (transmit_init 0 example_peer neg \<lparr>w_value = [(export_acl example_peer, A @ B @ C)], w_version = 0\<rparr>) (\<lambda>s1.
    map snd (t_log s1) = [pkt A, pkt B, pkt C, frame_bytes (UPDATE, end_of_rib_body False)] \<and>
    (case drive ipnet_ref example_config example_peer neg [Requests False, Own, Own, Own, Own, Own] s1 of
       None \<Rightarrow> False
     | Some s2 \<Rightarrow> unread s1 s2 = [pkt A] \<and>
         settles example_config example_peer neg
           (sleeps 150 (s2\<lparr>t_exports := send_replace [(export_acl example_peer, A @ B @ C @ [x])] (t_exports s2)\<rparr>)) (\<lambda>s3.
             unread s2 s3 = [pkt B, pkt C, pkt [x], frame_bytes (UPDATE, end_of_rib_body False)])))"
proof -
  have ne: "A \<noteq> []" "B \<noteq> []" "C \<noteq> []" using len by (auto simp: MAX_UPDATE_PREFIXES_def)
  note nexts = plan_next_v4 [of A "B @ C"] plan_next_v4 [of B C] plan_next_v4 [of C "[]"]
    plan_next_v4 [of B "C @ [x]"] plan_next_v4 [of C "[x]"] plan_next_v4 [of "[x]" "[]"]
  have "plan_next \<lparr>withdrawals = [], additions = []\<rparr> = None" by (simp add: plan_next_None)
  moreover have "neg_ipv4 neg" "\<not> neg_ipv6 neg" "hold neg = 0" by (simp_all add: neg_def n_fixture_def)
  moreover have "MAX_UPDATE_PREFIXES \<ge> 1" by (simp add: MAX_UPDATE_PREFIXES_def)
  moreover have "plan_new (rev C @ rev B @ rev A) (A @ B @ C) neg (A @ B @ C) = \<lparr>withdrawals = [], additions = A @ B @ C\<rparr>"
    using v4 calculation(2) by (subst plan_new_v4) auto
  moreover have "plan_new (rev C @ rev B @ rev A) (A @ B @ C @ [x]) neg (B @ C) = \<lparr>withdrawals = [], additions = B @ C @ [x]\<rparr>"
    by (rule plan_continued [OF dist v4]) (simp add: neg_def n_fixture_def)
  moreover have "record_batch False b (rev C @ rev B @ rev A) = rev C @ rev B @ rev A" if "b \<in> {A, B, C}" for b
    using that by (intro record_announced(2)) auto
  ultimately show ?thesis
    using nexts ne dist v4 len pkts [unfolded batch_packets_def, THEN conjunct1]
    by (simp add: settles_def transmit_run_numeral lap_simps transmit_init_def plan_new_v4 record_announced replay_rest
        Int_Un_distrib Int_commute filter_True unread_def sleeps_def
        del: plan_new_def record_batch_def forget_replay_def)
qed

lemma host_packets:
  assumes "b \<noteq> []" and "length b \<le> MAX_UPDATE_PREFIXES" and "\<forall>q \<in> set b. \<exists>a. q = NetV4 a 32"
  shows "batch_packets (n_fixture\<lparr>hold := 0\<rparr>)
    (\<lambda>b. case update ipnet_ref example_config example_peer (n_fixture\<lparr>hold := 0\<rparr>) b False of Ok pkt \<Rightarrow> pkt | _ \<Rightarrow> []) b"
proof -
  have "batch_ok example_peer False False b"
    using assms by (auto simp: batch_ok_def list_all_iff net_wf_def nh4_def example_peer_def)
  moreover have "next_hop_ok example_peer False"
    by (simp add: next_hop_ok_def nh4_def example_peer_def valid_v4_def is_multicast_v4_def broadcast_v4_def is_loopback_v4_def)
  ultimately obtain pkt body where pkt: "update ipnet_ref example_config example_peer (n_fixture\<lparr>hold := 0\<rparr>) b False = Ok pkt"
      "read_frame (pkt @ []) = Ok ((UPDATE, body), [])" "update_prefixes ipnet_ref body = Ok (map (net_trunc ipnet_ref) b)"
    using ref.own_update [of example_peer False False b "n_fixture\<lparr>hold := 0\<rparr>" example_config "[]"]
    by (auto simp: n_fixture_def example_defs)
  moreover have "map (net_trunc ipnet_ref) b = b"
    using assms(3) by (intro map_idI) (force simp: ipnet_ref_def net_mask_def mask_top_def)
  moreover have "update_prefixes ipnet_ref [0, 0, 0, 0] = Ok []" by (simp add: wire_eval)
  ultimately show ?thesis using assms(1) by (auto simp: batch_packets_def)
qed

lemma unfinished_hosts:
  assumes "length P = 600" and "distinct (P @ [x])" and hosts: "\<forall>q \<in> set (P @ [x]). \<exists>a. q = NetV4 a 32"
  obtains A B C pkt where "P = A @ B @ C" "distinct (A @ B @ C @ [x])" "\<forall>q \<in> set (A @ B @ C @ [x]). \<not> is_v6 q"
    "length A = MAX_UPDATE_PREFIXES" "length B = MAX_UPDATE_PREFIXES" "length C = MAX_UPDATE_PREFIXES"
    "\<forall>b \<in> {A, B, C, [x]}. batch_packets (n_fixture\<lparr>hold := 0\<rparr>) pkt b"
proof -
  let ?A = "take 200 P" and ?B = "take 200 (drop 200 P)" and ?C = "drop 400 P"
  have P: "P = ?A @ ?B @ ?C" by (metis append_take_drop_id drop_drop numeral_Bit0)
  have len: "length ?A = MAX_UPDATE_PREFIXES" "length ?B = MAX_UPDATE_PREFIXES" "length ?C = MAX_UPDATE_PREFIXES"
    using assms(1) by (simp_all add: MAX_UPDATE_PREFIXES_def)
  have sub: "\<forall>q \<in> set b. \<exists>a. q = NetV4 a 32" if "b \<in> {?A, ?B, ?C, [x]}" for b
    using that hosts P by (metis (no_types, lifting) Un_iff empty_iff insert_iff set_append)
  have pkts: "\<forall>b \<in> {?A, ?B, ?C, [x]}. batch_packets (n_fixture\<lparr>hold := 0\<rparr>)
      (\<lambda>b. case update ipnet_ref example_config example_peer (n_fixture\<lparr>hold := 0\<rparr>) b False of Ok pkt \<Rightarrow> pkt | _ \<Rightarrow> []) b"
    using sub len by (intro ballI host_packets) (auto simp: MAX_UPDATE_PREFIXES_def)
  have "\<forall>q \<in> set (P @ [x]). \<not> is_v6 q" using hosts by (auto simp: is_v6_def)
  then show thesis using that [OF P _ _ len pkts] assms(2) P by (metis append.assoc)
qed

lemma settles_mono: "settles c p neg s f \<Longrightarrow> (\<And>s. f s \<Longrightarrow> g s) \<Longrightarrow> settles c p neg s g"
  by (auto simp: settles_def elim: unwraps_mono)

lemma unfinished_refresh: snapshot_change_preserves_unfinished_refresh
proof -
  let ?P = "map (\<lambda>i. NetV4 (0x0A000000 + of_nat i) 32) [0..<600]" and ?x = "NetV4 0x0A630001 32"
  have "inj_on (\<lambda>i :: nat. NetV4 (0x0A000000 + of_nat i) 32) {0..<600}"
    by (rule inj_onI) (simp add: word_of_nat_eq_iff take_bit_nat_eq_self)
  moreover have False if "(0x0A630001 :: u32) = 0x0A000000 + of_nat i" "i < 600" for i
  proof -
    have "unat (0x0A000000 + of_nat i :: u32) = 0x0A000000 + i" using that(2) by (simp add: unat_word_ariths unat_of_nat)
    moreover have "unat (0x0A630001 :: u32) = 0x0A630001" by simp
    ultimately show False using that by (simp del: unat_numeral)
  qed
  ultimately have dist: "distinct (?P @ [?x])" by (auto simp: distinct_map simp del: upt_conv_Cons_Cons)
  obtain A B C pkt where P: "?P = A @ B @ C" and dist: "distinct (A @ B @ C @ [?x])"
      and run: "\<forall>q \<in> set (A @ B @ C @ [?x]). \<not> is_v6 q"
        "length A = MAX_UPDATE_PREFIXES" "length B = MAX_UPDATE_PREFIXES" "length C = MAX_UPDATE_PREFIXES"
      and pkts: "\<forall>b \<in> {A, B, C, [?x]}. batch_packets (n_fixture\<lparr>hold := 0\<rparr>) pkt b"
    by (rule unfinished_hosts [OF _ dist]) auto
  have packets: "batch_packets (n_fixture\<lparr>hold := 0\<rparr>) pkt A" "batch_packets (n_fixture\<lparr>hold := 0\<rparr>) pkt B"
      "batch_packets (n_fixture\<lparr>hold := 0\<rparr>) pkt C" "batch_packets (n_fixture\<lparr>hold := 0\<rparr>) pkt [?x]"
    using pkts by simp_all
  have card: "card (set A) = MAX_UPDATE_PREFIXES" using run(2) dist by (simp add: distinct_card)
  obtain body where body: "read_frame (pkt A) = Ok ((UPDATE, body), [])" "update_prefixes ipnet_ref body = Ok A"
    using packets(1) by (auto simp: batch_packets_def)
  have logged: "unread (transmit_init now p neg ex) s = map snd (t_log s)" for now p neg ex s
    by (simp add: unread_def transmit_init_def Let_def)
  show ?thesis
    unfolding snapshot_change_preserves_unfinished_refresh_def P Let_def append_assoc
    by (rule settles_mono [OF unfinished [OF dist run packets]])
      (auto simp: logged exported_batch [OF packets(1)] exported_batch [OF packets(2)] exported_batch [OF packets(3)]
        exported_batch [OF packets(4)] exported_end body card simp del: exported.simps drive.simps split: option.splits elim!: settles_mono)
qed

lemmas bgp_tests = selection changing_snapshot slow_writer hold_timer initial_routes recoverable cooldown requested_family unfinished_refresh collisions
  unchecked_timeouts unexpected_open

end
