(* ===== verification/Spec2Isabelle.thy ===== *)
theory Spec2Isabelle
  imports Program Recovery Wire_Tests Config_Tests Kernel_Tests Bgp_Tests
begin

text \<open>
  A verification of the BGP export daemon \<open>ubgp\<close> (\<open>src/src/*.rs\<close>).

  \<^bold>\<open>The program.\<close> The daemon announces routes of the Linux kernel to BGP peers and imports
  nothing. A worker (\<open>netlink.rs\<close>) dumps the selected kernel routing tables, filters the
  prefixes with the export ACLs of the configuration (\<open>config.rs\<close>) and publishes one set of
  prefixes for each ACL in a watch channel; a watchdog thread empties the channel when no complete
  dump was published for too long. For every peer, \<open>bgp.rs\<close> keeps one TCP session: an OPEN
  exchange on an outgoing and on an incoming connection, the choice of one of them, the confirmation
  by KEEPALIVE, then a reader that validates what the peer sends and keeps the hold timer, and a
  writer that follows the watch channel and answers route refresh requests. \<open>wire.rs\<close> encodes
  and decodes the messages. \<open>management.rs\<close> is a read-only Telnet console on the peers' status
  and the exports; \<open>main.rs\<close> supervises the three workers and replaces them on a reload.

  \<^bold>\<open>Theories, in the order of their imports.\<close>

  \<^item> \<open>Prelude\<close>: machine integers as words, byte strings, the type \<open>outcome\<close> of a Rust function
    (\<open>Ok\<close>, \<open>Err\<close>, \<open>Panic\<close>) with \<open>bindr\<close> for the operator \<open>?\<close>, and checked indexing and
    slicing: an out-of-range access is \<open>Panic\<close>, so that its absence is a theorem.
  \<^item> \<open>Net\<close>: addresses of \<open>std::net\<close>, and the locale \<open>ipnet\<close> of the laws the crate \<open>ipnet\<close>
    documents, interpreted by the reference operations \<open>ipnet_ref\<close>.
  \<^item> \<open>Config\<close> (\<open>config.rs\<close>): the configuration records, ACLs, next hops, \<open>validate\<close>, \<open>parse\<close>,
    \<open>load\<close>. The validator accepts exactly the configurations of a declarative predicate, and an
    ACL is a first-match list that denies by default.
  \<^item> \<open>Wire_Frame\<close>, \<open>Wire_Open\<close>, \<open>Wire_Update\<close>, \<open>Wire_Validate\<close>, \<open>Wire_Roundtrip\<close> (\<open>wire.rs\<close>):
    framing and NOTIFICATION, the OPEN message and its negotiation, the UPDATE encoder, the inbound
    validators, and how these fit together. The reader accepts exactly what the encoder frames,
    two routers negotiate the same parameters, every batch fits one message and decodes to its
    prefixes, and no byte string makes a parser panic.
  \<^item> \<open>Netlink\<close>, \<open>Kernel\<close>, \<open>Freshness\<close> (\<open>netlink.rs\<close>): decoding of datagrams, the netlink sockets, draining
    and the dump of the tables, the export filter, and the publication with its watchdog. The decoder
    returns exactly the ordinary routes, a successful snapshot holds exactly the routes of the
    dump and lost no notification, the notification socket joins exactly the configured groups, what
    is published comes from one complete snapshot, and stale exports are withdrawn.
  \<^item> \<open>Plan\<close>, \<open>Transmit\<close>, \<open>Convergence\<close> (\<open>Plan\<close> and \<open>transmit\<close> of \<open>bgp.rs\<close>): the
    difference of two prefix sets cut into batches; the writer as a state machine \<open>tstep\<close> with
    reachability \<open>treach\<close>; and the writer run on its own. The peer's table, computed from the
    written packets, follows the exports; only permitted prefixes are announced; the loop comes to
    rest; and the machine refines the specification \<open>spec_step\<close>.
  \<^item> \<open>Refresh\<close> (the replay of \<open>transmit\<close>): a request is not lost, a refresh announces every prefix that
    stays exported before its End-of-RIB marker, and it completes. A prefix that leaves the exports and
    returns during the refresh can be missed: \<open>refresh_outrun\<close> is such a run.
  \<^item> \<open>Receive\<close> (\<open>receive\<close> and \<open>report\<close> of \<open>bgp.rs\<close>): the reader, its hold timer, the refresh
    requests it passes on, and the NOTIFICATION that reports an error.
  \<^item> \<open>Duplex\<close> (the \<open>select!\<close> of \<open>session\<close>): reader and writer of one session interleaved.
  \<^item> \<open>Console\<close> (\<open>management.rs\<close>): peer status, client admission, the Telnet line reader, the
    commands and their replies.
  \<^item> \<open>Peering\<close> (\<open>transport.rs\<close>, \<open>tcp_md5.rs\<close>, and the listeners and \<open>check_local_addresses\<close> of
    \<open>bgp.rs\<close>): endpoints, keys, listeners and the dispatch of incoming connections.
  \<^item> \<open>Sockets\<close> (\<open>index\<close>, \<open>configure\<close>, \<open>connect\<close> and the listeners of \<open>run\<close> in \<open>bgp.rs\<close>): a socket as the
    trace of the operations done on it. No socket connects or listens before it is bound to its
    interface, limited to one hop and given all its keys.
  \<^item> \<open>Connection\<close> (\<open>send\<close>, \<open>handshake\<close>, \<open>choose\<close>, \<open>session\<close> and \<open>peer_loop\<close> of \<open>bgp.rs\<close>): the life of a
    connection, the resolution of collisions, the session's end and the delay before the next
    attempt.
  \<^item> \<open>Peer_Loop\<close> (\<open>peer_loop\<close> of \<open>bgp.rs\<close>): the worker of one peer as a machine \<open>pstep\<close> that runs the
    choice, the confirmation and the session of \<open>Duplex\<close>, with its back-off, its queue of incoming
    connections and its status. \<open>Recovery\<close>: from every state of a worker a session can be open again
    within a bounded time, once the remote router answers.
  \<^item> \<open>System\<close> (\<open>run\<close> of \<open>bgp.rs\<close>, with the kernel side and the console's view): one generation of the daemon as
    one machine. In every interleaving an idle session has given its peer exactly the permitted routes
    of one complete kernel snapshot, every open session catches up with the exports and with their
    withdrawal, and the console shows Established exactly for the sessions that run.
  \<^item> \<open>Conformance\<close>, \<open>Wire_Tests\<close>, \<open>Config_Tests\<close>, \<open>Kernel_Tests\<close>, \<open>Bgp_Tests\<close> (the modules \<open>tests\<close>): the
    unit tests of the repository as definitions, which the model passes; a check of the translation
    against the expectations the authors wrote down.
  \<^item> \<open>Cli\<close> (\<open>cli.rs\<close>, logging of \<open>daemon.rs\<close>) and \<open>Supervisor\<close> (\<open>main.rs\<close>, \<open>detach\<close> of
    \<open>daemon.rs\<close>, \<open>bind\<close> of \<open>management.rs\<close>): the command line, the start and its order of
    effects, and the generations of workers.
  \<^item> \<open>Program\<close>: the whole program, the supervisor running the generations of \<open>System\<close> across reloads. It refines
    the supervisor's machine, and every route a running session announced is permitted by the policy
    that was loaded last.
  \<^item> this theory: the properties that span the components.

  \<^bold>\<open>Interfaces.\<close> Six locales state what one part relies on from another, each interpreted on
  the definitions of the provider. \<open>ipnet\<close> (\<open>Net\<close>) has the laws of the crate. \<open>framing\<close>
  (\<open>Wire_Frame\<close>) says when a stream of framed messages can be read back, and \<open>packed\<close>
  (\<open>Wire_Validate\<close>) what a validator of a packed sequence accepts; the NLRI and the AS_PATH
  validators are its two instances. \<open>export_channel\<close> (\<open>Transmit\<close>) extends \<open>ipnet\<close> by what a
  session relies on from the values of its watch channel, and is interpreted by what the kernel
  side of \<open>Freshness\<close> publishes. \<open>tie_break\<close> (\<open>Connection\<close>) says what a rule that resolves
  collisions needs for two routers to agree, and \<open>simulation\<close> (\<open>Convergence\<close>) what a step relation
  needs to refine another; the writer refines its specification through it, and the program its supervisor.

  \<^bold>\<open>Time, concurrency and the outside world.\<close> Instants are natural numbers of milliseconds of the
  monotonic clock. Concurrent parts are step relations that interleave with the clock and with
  the other parts in any order: \<open>tstep\<close> for the writer, the relation of \<open>Freshness\<close> for the kernel
  loop and its watchdog, \<open>dstep\<close> for a whole session, \<open>pstep\<close> for the worker of a peer, \<open>system_step\<close> for a
  generation of the daemon, \<open>sstep\<close> for the supervisor, \<open>program_step\<close> for the program. Results of system calls are arguments or
  fields of an environment record: the list of results that the next \<open>recvmsg\<close> calls give, the
  rounds of a dump (\<open>snap_env\<close>), the completion instants of reads and writes. A \<open>HashSet\<close> is the
  distinct list of its elements in the order it iterates, a \<open>HashMap\<close> an association list; the
  properties do not depend on the order.

  \<^bold>\<open>Loops and bounds.\<close> Every parser is a total function whose measure is the length of the
  remaining bytes. \<open>drain\<close> and the reads of a dump are limited to 128 datagrams by the source
  itself, and recurse on that number. The waiting loop of a dump recurses on its script of rounds:
  a script that ends early gives \<open>None\<close>, still waiting, and \<open>snapshot_returns\<close> shows that a
  round after the deadline, or with the stop flag set, ends it. \<open>transmit_run\<close> takes a number of
  steps; the measure \<open>loop_order\<close> shows that some number is enough from every reachable state.
  Fields of messages, prefix lengths, AS numbers, sequence numbers and flags are words of their
  width, so wrap-around and truncation are those of the code; lengths and offsets in buffers are
  natural numbers, bounded by the buffer.

  \<^bold>\<open>Not modelled.\<close> System calls and the libraries \<open>tokio\<close>, \<open>socket2\<close> and \<open>tracing\<close> are outside: what
  they return is an input, and what the code does with it is modelled. The scheduling of tokio's tasks is the interleaving of steps; the text that \<open>format!\<close> renders is
  represented by the values it renders, and the help text by its name; counters that only feed
  log lines are left out; \<open>lib.rs\<close> declares modules. The crates \<open>toml\<close>, \<open>serde\<close> and \<open>ipnet\<close> and
  the file system are parameters.

  \<^bold>\<open>Left to do.\<close> The console's clients as components of the machine of \<open>Program\<close>: their number and
  their deadlines are modelled in \<open>Console\<close>, on a view that does not change while a command is answered.
\<close>

section \<open>The program as a whole\<close>

text \<open>
  The daemon does its job, end to end. Take a configuration the validator accepts, one of its
  peers, and a connection on which the OPEN exchange succeeded. Then the session that is run on it,
  in every state it reaches while the kernel side publishes, the clock advances and refreshes are
  requested, brings itself to rest without an error in finitely many steps; at rest the peer
  holds exactly the exported prefixes of the negotiated families, every one of them permitted by
  the peer's export ACL.
\<close>

theorem daemon_exports:
  assumes "ipnet N" and "validate N cfg = Ok ()" and "p \<in> set (peers cfg)" and "fst (handshake cfg p incoming env) = Ok c"
    and "treach N cfg (session_peer p c) (cand_neg c) (kernel_publishes N le cfg) s" and "t_loc s \<noteq> Closed"
  shows "\<exists>k s'. transmit_run N cfg (session_peer p c) (cand_neg c) k s = Ok s' \<and>
    transmit_own N cfg (session_peer p c) (cand_neg c) s' = None \<and>
    peer_rib (t_log s') = {q \<in> set (desired (export_acl p) (w_value (t_exports s))). neg_enabled (cand_neg c) q} \<and>
    (\<forall>q \<in> peer_rib (t_log s'). permits N (the (map_of (acls cfg) (export_acl p))) q)"
proof -
  have "peer_ok cfg p" using assms(2,3) by (simp add: validate_ok_iff config_ok_peer)
  from handshake_session [OF this assms(4)]
  have ok: "peer_ok cfg (session_peer p c)" "neg_wf cfg (session_peer p c) (cand_neg c)" by blast+
  from run_converges [OF assms(1) ok assms(5,6)]
  obtain k s' where run: "transmit_run N cfg (session_peer p c) (cand_neg c) k s = Ok s'"
      and idle: "transmit_own N cfg (session_peer p c) (cand_neg c) s' = None" "t_loc s' \<noteq> Closed"
        "tinv N cfg (session_peer p c) (cand_neg c) s'"
      and ex: "t_exports s' = t_exports s"
    by blast
  from own_idle [OF idle] have rib: "peer_rib (t_log s') = wanted (cand_neg c) (desired (export_acl p) (w_value (t_exports s)))"
    by (simp add: ex)
  moreover have "target_ok N cfg (session_peer p c) (desired (export_acl p) (w_value (t_exports s)))"
    using idle(3) by (simp add: tinv_def ex)
  ultimately have "\<forall>q \<in> peer_rib (t_log s'). permits N (the (map_of (acls cfg) (export_acl p))) q"
    by (simp add: target_ok_def permitted_def wanted_def)
  with run idle(1) rib show ?thesis by (auto simp: wanted_def)
qed

theorem daemon_exports_witness:
  "\<exists>c. \<exists>k s'. transmit_run ipnet_ref example_config (session_peer example_peer c) (cand_neg c) k
      (transmit_init 0 (session_peer example_peer c) (cand_neg c) \<lparr>w_value = [(''export'', [NetV4 0xC6336400 24])], w_version = 1\<rparr>) = Ok s' \<and>
    peer_rib (t_log s') \<subseteq> {NetV4 0xC6336400 24}"
proof -
  obtain c where c: "fst (handshake example_config example_peer False example_env_open) = Ok c"
    using example_handshake by blast
  let ?s = "transmit_init 0 (session_peer example_peer c) (cand_neg c) \<lparr>w_value = [(''export'', [NetV4 0xC6336400 24])], w_version = 1\<rparr>"
  have "validate ipnet_ref example_config = Ok ()" using example_config_ok by (simp add: validate_ok_iff)
  moreover have "example_peer \<in> set (peers example_config)" by (simp add: example_config_def)
  moreover have "treach ipnet_ref example_config (session_peer example_peer c) (cand_neg c) (kernel_publishes ipnet_ref True example_config) ?s"
    using published_example_reach published_example_value
    by (intro treach.start) (auto simp: kernel_publishes_def)
  moreover have "t_loc ?s \<noteq> Closed" by (simp add: transmit_init_def Let_def)
  ultimately obtain k s' where "transmit_run ipnet_ref example_config (session_peer example_peer c) (cand_neg c) k ?s = Ok s'"
      "peer_rib (t_log s') = {q \<in> set (desired (export_acl example_peer) (w_value (t_exports ?s))). neg_enabled (cand_neg c) q}"
    using daemon_exports [OF ref.ipnet_axioms _ _ c] by blast
  moreover from this(2) have "peer_rib (t_log s') \<subseteq> {NetV4 0xC6336400 24}"
    by (auto simp: transmit_init_def Let_def desired_def example_peer_def)
  ultimately show ?thesis by blast
qed

section \<open>The tests of the repository\<close>


end
